(* ===== verification/Prelude.thy ===== *)
theory Prelude
  imports "HOL-Library.Word" "HOL-Library.Signed_Division"
begin

text \<open>
  Shared vocabulary of the MesaOS development: the fixed-width integers of the
  kernel, the little-endian and byte-swapping helpers every packet parser uses,
  C memory as a function from offsets to bytes, and the generic facts on words,
  lists and counted loops that the component theories share.
\<close>

unbundle bit_operations_syntax

section \<open>Machine integers\<close>

type_synonym u8 = "8 word"
type_synonym u16 = "16 word"
type_synonym u32 = "32 word"
type_synonym u64 = "64 word"

text \<open>
  A pointer handed to a packet handler is the memory that starts there: reading
  past the size that comes with it is possible in C, and reads whatever follows.
\<close>

type_synonym mem = "nat \<Rightarrow> u8"

named_theorems le_simps \<open>reading and writing multi-byte integers\<close>
named_theorems state_simps \<open>record updates of the operations of a component\<close>
named_theorems inv_intros \<open>preservation lemmas of the component invariants\<close>

definition mem_of :: "u8 list \<Rightarrow> mem" where
  "mem_of xs i = (if i < length xs then xs ! i else 0)"

definition mem_at :: "mem \<Rightarrow> nat \<Rightarrow> mem" where
  "mem_at m off = (\<lambda>i. m (off + i))"

definition mem_bytes :: "mem \<Rightarrow> nat \<Rightarrow> u8 list" where
  "mem_bytes m n = map m [0..<n]"

definition le16 :: "mem \<Rightarrow> nat \<Rightarrow> u16" where
  "le16 m i = ucast (m i) OR push_bit 8 (ucast (m (i + 1)))"

definition le32 :: "mem \<Rightarrow> nat \<Rightarrow> u32" where
  "le32 m i = ucast (m i) OR push_bit 8 (ucast (m (i + 1)))
      OR push_bit 16 (ucast (m (i + 2))) OR push_bit 24 (ucast (m (i + 3)))"

definition le16_bytes :: "u16 \<Rightarrow> u8 list" where
  "le16_bytes w = [ucast w, ucast (drop_bit 8 w)]"

definition le32_bytes :: "u32 \<Rightarrow> u8 list" where
  "le32_bytes w = [ucast w, ucast (drop_bit 8 w), ucast (drop_bit 16 w), ucast (drop_bit 24 w)]"

text \<open>String literals of the source, as the bytes of the C array without its terminator.\<close>

definition bytes :: "string \<Rightarrow> u8 list" where
  "bytes s = map of_char s"

section \<open>Word bounds\<close>

lemma unat_u8_lt [simp]: "unat (w :: u8) < 256"
  by (rule order_less_le_trans [OF unsigned_less]) simp

lemma unat_u16_lt [simp]: "unat (w :: u16) < 65536"
  by (rule order_less_le_trans [OF unsigned_less]) simp

lemma unat_u32_lt [simp]: "unat (w :: u32) < 4294967296"
  by (rule order_less_le_trans [OF unsigned_less]) simp

lemma unat_add_u32: "unat a + unat b < 4294967296 \<Longrightarrow> unat (a + b :: u32) = unat a + unat b"
  by (simp add: unat_word_ariths)

lemma unat_mult_u32: "unat a * unat b < 4294967296 \<Longrightarrow> unat (a * b :: u32) = unat a * unat b"
  by (simp add: unat_word_ariths)

lemma unat_sub_u32: "b \<le> a \<Longrightarrow> unat (a - b :: u32) = unat a - unat b"
  by (simp add: unat_sub_if_size word_size word_le_nat_alt)

lemma unat_of_nat_u32: "n < 4294967296 \<Longrightarrow> unat (of_nat n :: u32) = n"
  by (simp add: unsigned_of_nat take_bit_eq_mod)

lemma sint_small_u32: "unat (w :: u32) < 2147483648 \<Longrightarrow> sint w = int (unat w)"
proof -
  assume "unat w < 2147483648"
  moreover have "uint w = int (unat w)" by simp
  ultimately have "uint w < 2147483648" "0 \<le> uint w" by linarith+
  moreover have "- (2 ^ 31) \<le> uint w" by (rule order_trans [of _ 0]) simp_all
  ultimately have "signed_take_bit 31 (uint w) = uint w" by (intro signed_take_bit_int_eq_self) auto
  then show "sint w = int (unat w)" by (simp add: sint_uint)
qed

section \<open>Memory views\<close>

lemma mem_at_0 [simp]: "mem_at m 0 = m"
  by (simp add: mem_at_def)

lemma mem_at_apply [simp]: "mem_at m off i = m (off + i)"
  by (simp add: mem_at_def)

lemma mem_at_mem_at [simp]: "mem_at (mem_at m a) b = mem_at m (a + b)"
  by (simp add: mem_at_def add.assoc)

lemma mem_of_nth [simp]: "i < length xs \<Longrightarrow> mem_of xs i = xs ! i"
  by (simp add: mem_of_def)

lemma mem_of_append_right: "mem_at (mem_of (xs @ ys)) (length xs) = mem_of ys"
  by (auto simp: mem_of_def mem_at_def fun_eq_iff nth_append)

lemma mem_at_mem_of: "mem_at (mem_of xs) n = mem_of (drop n xs)"
  by (auto simp: mem_of_def mem_at_def fun_eq_iff)

lemma length_mem_bytes [simp]: "length (mem_bytes m n) = n"
  by (simp add: mem_bytes_def)

lemma nth_mem_bytes [simp]: "i < n \<Longrightarrow> mem_bytes m n ! i = m i"
  by (simp add: mem_bytes_def)

lemma mem_bytes_of [simp]: "n = length xs \<Longrightarrow> mem_bytes (mem_of xs) n = xs"
  by (rule nth_equalityI) auto

lemma mem_bytes_take: "n \<le> length xs \<Longrightarrow> mem_bytes (mem_of xs) n = take n xs"
  by (rule nth_equalityI) auto

lemma length_le16_bytes [simp]: "length (le16_bytes w) = 2"
  by (simp add: le16_bytes_def)

lemma length_le32_bytes [simp]: "length (le32_bytes w) = 4"
  by (simp add: le32_bytes_def)

lemma length_bytes [simp]: "length (bytes s) = length s"
  by (simp add: bytes_def)

lemma bytes_append [simp]: "bytes (s @ t) = bytes s @ bytes t"
  by (simp add: bytes_def)

section \<open>Little-endian round trips\<close>

lemma le16_of_bytes [le_simps]:
  assumes "m i = ucast w" and "m (i + 1) = ucast (drop_bit 8 w)"
  shows "le16 m i = w"
proof -
  have "ucast (ucast w :: u8) OR push_bit 8 (ucast (ucast (drop_bit 8 w) :: u8)) = w"
    by (rule bit_word_eqI) (auto simp: bit_simps not_less)
  then show ?thesis using assms by (simp add: le16_def)
qed

lemma le32_of_bytes [le_simps]:
  assumes "m i = ucast w" and "m (i + 1) = ucast (drop_bit 8 w)"
    and "m (i + 2) = ucast (drop_bit 16 w)" and "m (i + 3) = ucast (drop_bit 24 w)"
  shows "le32 m i = w"
proof -
  have "ucast (ucast w :: u8) OR push_bit 8 (ucast (ucast (drop_bit 8 w) :: u8))
      OR push_bit 16 (ucast (ucast (drop_bit 16 w) :: u8))
      OR push_bit 24 (ucast (ucast (drop_bit 24 w) :: u8)) = w"
  proof (rule bit_word_eqI)
    fix n assume "n < LENGTH(32)"
    then consider "n < 8" | "8 \<le> n" "n < 16" | "16 \<le> n" "n < 24" | "24 \<le> n" "n < 32"
      by fastforce
    then show "bit (ucast (ucast w :: u8) OR push_bit 8 (ucast (ucast (drop_bit 8 w) :: u8))
      OR push_bit 16 (ucast (ucast (drop_bit 16 w) :: u8))
      OR push_bit 24 (ucast (ucast (drop_bit 24 w) :: u8)) :: u32) n = bit w n"
      by cases (auto simp: bit_simps)
  qed
  then show ?thesis using assms by (simp add: le32_def)
qed

end
