(* ===== verification/CString.thy ===== *)
theory CString
  imports Prelude
begin

text \<open>
  The freestanding C library of the kernel, \<open>kernel/libc/string.cpp\<close>. A pointer
  that is only read is the list of bytes from it to the end of its array; the
  writing functions act on one array with a destination and a source offset, so
  that overlapping arguments are covered. \<open>None\<close> is an access outside the array.
  The theory proves that the loops compute the text-book functions on the
  NUL-terminated contents and that \<open>itoa\<close> prints every \<open>int\<close> correctly.
\<close>

unbundle bit_operations_syntax

section \<open>Reading functions\<close>

fun strlen_loop :: "u8 list \<Rightarrow> nat \<Rightarrow> nat option" where
  "strlen_loop [] len = None"
| "strlen_loop (c # cs) len = (if c \<noteq> 0 then strlen_loop cs (Suc len) else Some len)"

definition strlen :: "u8 list \<Rightarrow> nat option" where
  "strlen str = strlen_loop str 0"

fun memcmp :: "u8 list \<Rightarrow> u8 list \<Rightarrow> nat \<Rightarrow> int option" where
  "memcmp p1 p2 0 = Some 0"
| "memcmp (a # p1) (b # p2) (Suc n) =
     (if a < b then Some (- 1) else if a > b then Some 1 else memcmp p1 p2 n)"
| "memcmp p1 p2 (Suc n) = None"

fun strcmp :: "u8 list \<Rightarrow> u8 list \<Rightarrow> int option" where
  "strcmp (a # s1) (b # s2) =
     (if a \<noteq> 0 \<and> a = b then strcmp s1 s2 else Some (uint a - uint b))"
| "strcmp s1 s2 = None"

fun strncmp :: "u8 list \<Rightarrow> u8 list \<Rightarrow> nat \<Rightarrow> int option" where
  "strncmp s1 s2 0 = Some 0"
| "strncmp (a # s1) (b # s2) (Suc n) =
     (if a \<noteq> 0 \<and> a = b then strncmp s1 s2 n else Some (uint a - uint b))"
| "strncmp s1 s2 (Suc n) = None"

text \<open>\<open>strchr\<close> returns the offset of the match; the outer option is a read past the array.\<close>

fun strchr :: "u8 list \<Rightarrow> u8 \<Rightarrow> nat option option" where
  "strchr [] c = None"
| "strchr (x # s) c =
     (if x \<noteq> c then (if x = 0 then Some None else map_option (map_option Suc) (strchr s c))
      else Some (Some 0))"

section \<open>Writing functions\<close>

definition poke :: "u8 list \<Rightarrow> nat \<Rightarrow> u8 \<Rightarrow> u8 list option" where
  "poke m i v = (if i < length m then Some (m[i := v]) else None)"

definition peek :: "u8 list \<Rightarrow> nat \<Rightarrow> u8 option" where
  "peek m i = (if i < length m then Some (m ! i) else None)"

fun memset_loop :: "u8 list \<Rightarrow> nat \<Rightarrow> u8 \<Rightarrow> nat \<Rightarrow> u8 list option" where
  "memset_loop m buf v 0 = Some m"
| "memset_loop m buf v (Suc k) =
     (case poke m buf v of None \<Rightarrow> None | Some m' \<Rightarrow> memset_loop m' (Suc buf) v k)"

definition memset :: "u8 list \<Rightarrow> nat \<Rightarrow> u8 \<Rightarrow> nat \<Rightarrow> u8 list option" where
  "memset m bufptr value n = memset_loop m bufptr value n"

fun copy_fwd :: "u8 list \<Rightarrow> nat \<Rightarrow> nat \<Rightarrow> nat \<Rightarrow> u8 list option" where
  "copy_fwd m dst src 0 = Some m"
| "copy_fwd m dst src (Suc k) =
     (case peek m src of None \<Rightarrow> None | Some c \<Rightarrow>
      case poke m dst c of None \<Rightarrow> None | Some m' \<Rightarrow> copy_fwd m' (Suc dst) (Suc src) k)"

fun copy_bwd :: "u8 list \<Rightarrow> nat \<Rightarrow> nat \<Rightarrow> nat \<Rightarrow> u8 list option" where
  "copy_bwd m dst src 0 = Some m"
| "copy_bwd m dst src (Suc k) =
     (case peek m (src + k) of None \<Rightarrow> None | Some c \<Rightarrow>
      case poke m (dst + k) c of None \<Rightarrow> None | Some m' \<Rightarrow> copy_bwd m' dst src k)"

definition memcpy :: "u8 list \<Rightarrow> nat \<Rightarrow> nat \<Rightarrow> nat \<Rightarrow> u8 list option" where
  "memcpy m dstptr srcptr n = copy_fwd m dstptr srcptr n"

definition memmove :: "u8 list \<Rightarrow> nat \<Rightarrow> nat \<Rightarrow> nat \<Rightarrow> u8 list option" where
  "memmove m dest src n =
     (if dest < src then copy_fwd m dest src n
      else if dest > src then copy_bwd m dest src n
      else Some m)"

function strcpy_loop :: "u8 list \<Rightarrow> nat \<Rightarrow> nat \<Rightarrow> u8 list option" where
  "strcpy_loop m d src =
     (if src < length m \<and> d < length m
      then (if m ! src \<noteq> 0 then strcpy_loop (m[d := m ! src]) (Suc d) (Suc src)
            else Some (m[d := m ! src]))
      else None)"
  by pat_completeness auto
termination
  by (relation "measure (\<lambda>(m, d, src). length m - src)") auto

declare strcpy_loop.simps [simp del]

definition strcpy :: "u8 list \<Rightarrow> nat \<Rightarrow> nat \<Rightarrow> u8 list option" where
  "strcpy m dest src = strcpy_loop m dest src"

definition strcat :: "u8 list \<Rightarrow> nat \<Rightarrow> nat \<Rightarrow> u8 list option" where
  "strcat m dest src =
     (case strlen (drop dest m) of None \<Rightarrow> None | Some k \<Rightarrow> strcpy_loop m (dest + k) src)"

text \<open>
  The two loops of \<open>strncpy\<close>: copy until \<open>n\<close> bytes or a NUL, then pad with NULs.
  \<open>strncat\<close> shares the first loop and stores one NUL behind it.
\<close>

fun strncpy_copy :: "u8 list \<Rightarrow> nat \<Rightarrow> nat \<Rightarrow> nat \<Rightarrow> nat \<Rightarrow> (u8 list \<times> nat) option" where
  "strncpy_copy m dest src i 0 = Some (m, i)"
| "strncpy_copy m dest src i (Suc k) =
     (case peek m (src + i) of None \<Rightarrow> None | Some c \<Rightarrow>
      if c \<noteq> 0
      then (case poke m (dest + i) c of None \<Rightarrow> None | Some m' \<Rightarrow> strncpy_copy m' dest src (Suc i) k)
      else Some (m, i))"

definition strncpy :: "u8 list \<Rightarrow> nat \<Rightarrow> nat \<Rightarrow> nat \<Rightarrow> u8 list option" where
  "strncpy m dest src n =
     (case strncpy_copy m dest src 0 n of None \<Rightarrow> None
      | Some (m', i) \<Rightarrow> memset_loop m' (dest + i) 0 (n - i))"

definition strncat :: "u8 list \<Rightarrow> nat \<Rightarrow> nat \<Rightarrow> nat \<Rightarrow> u8 list option" where
  "strncat m dest src n =
     (case strlen (drop dest m) of None \<Rightarrow> None | Some k \<Rightarrow>
      case strncpy_copy m (dest + k) src 0 n of None \<Rightarrow> None
      | Some (m', i) \<Rightarrow> poke m' (dest + k + i) 0)"

section \<open>\<open>itoa\<close>\<close>

lemma abs_sdiv: "0 < b \<Longrightarrow> \<bar>v sdiv b\<bar> = \<bar>v\<bar> div (b :: int)"
  by (simp add: signed_divide_int_def abs_mult sgn_if pos_imp_zdiv_nonneg_iff)

lemma abs_smod: "0 < b \<Longrightarrow> \<bar>v smod b\<bar> = \<bar>v\<bar> mod (b :: int)"
  by (simp add: signed_modulo_int_def abs_mult sgn_if)

definition itoa_table :: "u8 list" where
  "itoa_table =
     bytes ''zyxwvutsrqponmlkjihgfedcba9876543210123456789abcdefghijklmnopqrstuvwxyz''"

text \<open>
  The conversion loop, in the order the digits are stored; \<open>sdiv\<close> and \<open>smod\<close> are
  C's truncating division. The base has been checked before the loop starts, which
  the guard restates for the termination argument.
\<close>

function itoa_loop :: "int \<Rightarrow> int \<Rightarrow> u8 list" where
  "itoa_loop v base =
     itoa_table ! nat (35 + v smod base) #
     (if 2 \<le> base \<and> v sdiv base \<noteq> 0 then itoa_loop (v sdiv base) base else [])"
  by pat_completeness auto
termination
proof (relation "measure (\<lambda>(v, base). nat \<bar>v\<bar>)", goal_cases)
  case 1
  show ?case by simp
next
  case (2 v base)
  then have "v \<noteq> 0" by (auto simp: signed_divide_int_def)
  moreover have "\<bar>v sdiv base\<bar> = \<bar>v\<bar> div base"
    using 2 by (simp add: abs_sdiv)
  moreover have "\<bar>v\<bar> div base < \<bar>v\<bar>"
    using 2 \<open>v \<noteq> 0\<close> by (intro int_div_less_self) auto
  ultimately show ?case by simp
qed

declare itoa_loop.simps [simp del]

function rev_loop :: "u8 list \<Rightarrow> nat \<Rightarrow> nat \<Rightarrow> u8 list" where
  "rev_loop xs low ptr =
     (if low < ptr then rev_loop (xs[low := xs ! ptr, ptr := xs ! low]) (Suc low) (ptr - 1)
      else xs)"
  by pat_completeness auto
termination
  by (relation "measure (\<lambda>(xs, low, ptr). ptr - low)") auto

declare rev_loop.simps [simp del]

definition itoa :: "int \<Rightarrow> int \<Rightarrow> u8 list" where
  "itoa value base =
     (if base < 2 \<or> base > 36 then []
      else let sign = (if value < 0 \<and> base = 10 then bytes ''-'' else []);
               s = sign @ itoa_loop value base
           in rev_loop s (length sign) (length s - 1))"

section \<open>Contents of NUL-terminated strings\<close>

definition cstr :: "u8 list \<Rightarrow> u8 list" where
  "cstr s = takeWhile (\<lambda>c. c \<noteq> 0) s"

lemma cstr_simps [simp]:
  "cstr [] = []"
  "cstr (c # s) = (if c \<noteq> 0 then c # cstr s else [])"
  by (simp_all add: cstr_def)

lemma cstr_append0 [simp]: "0 \<notin> set xs \<Longrightarrow> cstr (xs @ 0 # ys) = xs"
  by (induction xs) auto

lemma strlen_loop_cstr: "0 \<in> set s \<Longrightarrow> strlen_loop s n = Some (n + length (cstr s))"
  by (induction s arbitrary: n) auto

lemma strlen_cstr: "0 \<in> set s \<Longrightarrow> strlen s = Some (length (cstr s))"
  by (simp add: strlen_def strlen_loop_cstr)

lemma strcmp_terminated: "0 \<in> set s1 \<Longrightarrow> 0 \<in> set s2 \<Longrightarrow> \<exists>r. strcmp s1 s2 = Some r"
  by (induction s1 s2 rule: strcmp.induct) auto

lemma uint_eq_simp: "uint a = uint b \<longleftrightarrow> a = b"
  by (simp add: word_uint_eq_iff)

lemma strcmp_zero_iff:
  "strcmp s1 s2 = Some r \<Longrightarrow> r = 0 \<longleftrightarrow> cstr s1 = cstr s2"
  by (induction s1 s2 rule: strcmp.induct) (auto simp: uint_eq_simp uint_0_iff split: if_splits)

lemma strncmp_zero_iff:
  "strncmp s1 s2 n = Some r \<Longrightarrow> r = 0 \<longleftrightarrow> take n (cstr s1) = take n (cstr s2)"
  by (induction s1 s2 n rule: strncmp.induct)
    (auto simp: uint_eq_simp uint_0_iff split: if_splits)

lemma memcmp_zero_iff:
  "memcmp p1 p2 n = Some r \<Longrightarrow> r = 0 \<longleftrightarrow> take n p1 = take n p2"
  by (induction p1 p2 n rule: memcmp.induct) (auto split: if_splits)

lemma memcmp_total: "n \<le> length p1 \<Longrightarrow> n \<le> length p2 \<Longrightarrow> \<exists>r. memcmp p1 p2 n = Some r"
  by (induction p1 p2 n rule: memcmp.induct) auto

section \<open>What the copying loops store\<close>

definition moved :: "u8 list \<Rightarrow> nat \<Rightarrow> nat \<Rightarrow> nat \<Rightarrow> u8 list \<Rightarrow> bool" where
  "moved m d s n m' \<longleftrightarrow> length m' = length m \<and>
     (\<forall>i < length m. m' ! i = (if d \<le> i \<and> i < d + n then m ! (s + (i - d)) else m ! i))"

lemma moved_0 [simp]: "moved m d s 0 m"
  by (auto simp: moved_def)

lemma copy_fwd_moved:
  assumes "s + n \<le> length m" and "d + n \<le> length m" and "d \<le> s \<or> s + n \<le> d"
  shows "\<exists>m'. copy_fwd m d s n = Some m' \<and> moved m d s n m'"
  using assms
proof (induction n arbitrary: m d s)
  case 0
  then show ?case by simp
next
  case (Suc n)
  let ?m = "m[d := m ! s]"
  obtain m' where m': "copy_fwd ?m (Suc d) (Suc s) n = Some m'" "moved ?m (Suc d) (Suc s) n m'"
    using Suc.IH [of "Suc s" ?m "Suc d"] Suc.prems by auto
  have "m' ! i = (if d \<le> i \<and> i < d + Suc n then m ! (s + (i - d)) else m ! i)"
    if "i < length m" for i
  proof (cases "d < i \<and> i < d + Suc n")
    case True
    then have "s + (i - d) \<noteq> d" and "Suc s + (i - Suc d) = s + (i - d)"
      using Suc.prems(3) by auto
    then show ?thesis using m' that True by (simp add: moved_def)
  next
    case False
    then show ?thesis using m' that by (cases "i = d") (auto simp: moved_def)
  qed
  then have "moved m d s (Suc n) m'" using m' by (simp add: moved_def)
  then show ?case using Suc.prems m' by (simp add: peek_def poke_def)
qed

lemma copy_bwd_moved:
  assumes "s + n \<le> length m" and "d + n \<le> length m" and "s \<le> d"
  shows "\<exists>m'. copy_bwd m d s n = Some m' \<and> moved m d s n m'"
  using assms
proof (induction n arbitrary: m)
  case 0
  then show ?case by simp
next
  case (Suc n)
  let ?m = "m[d + n := m ! (s + n)]"
  obtain m' where m': "copy_bwd ?m d s n = Some m'" "moved ?m d s n m'"
    using Suc.IH [of ?m] Suc.prems by auto
  have "m' ! i = (if d \<le> i \<and> i < d + Suc n then m ! (s + (i - d)) else m ! i)"
    if "i < length m" for i
  proof (cases "d \<le> i \<and> i < d + n")
    case True
    then have "s + (i - d) \<noteq> d + n" using Suc.prems(3) by auto
    then show ?thesis using m' that True by (simp add: moved_def)
  next
    case False
    then show ?thesis using m' that by (cases "i = d + n") (auto simp: moved_def)
  qed
  then have "moved m d s (Suc n) m'" using m' by (simp add: moved_def)
  then show ?case using Suc.prems m' by (simp add: peek_def poke_def)
qed

lemma memmove_moved:
  assumes "s + n \<le> length m" and "d + n \<le> length m"
  shows "\<exists>m'. memmove m d s n = Some m' \<and> moved m d s n m'"
proof (cases "d < s")
  case True
  then show ?thesis using copy_fwd_moved [OF assms] by (simp add: memmove_def)
next
  case False
  then show ?thesis
    using copy_bwd_moved [OF assms] by (auto simp: memmove_def moved_def)
qed

lemma memset_loop_spec:
  "buf + n \<le> length m \<Longrightarrow>
   memset_loop m buf v n = Some (take buf m @ replicate n v @ drop (buf + n) m)"
proof (induction n arbitrary: m buf)
  case 0
  then show ?case by simp
next
  case (Suc n)
  then have "memset_loop (m[buf := v]) (Suc buf) v n =
      Some (take (Suc buf) (m[buf := v]) @ replicate n v @ drop (Suc buf + n) (m[buf := v]))"
    by simp
  then show ?case
    using Suc.prems by (simp add: poke_def take_Suc_conv_app_nth)
qed

lemma strcpy_loop_moved:
  assumes "s + k < length m" and "d + k < length m" and "d \<le> s \<or> s + k < d"
    and "\<forall>i < k. m ! (s + i) \<noteq> 0" and "m ! (s + k) = 0"
  shows "\<exists>m'. strcpy_loop m d s = Some m' \<and> moved m d s (Suc k) m'"
  using assms
proof (induction k arbitrary: m d s)
  case 0
  then show ?case by (auto simp: strcpy_loop.simps [of m d s] moved_def nth_list_update)
next
  case (Suc k)
  let ?m = "m[d := m ! s]"
  have nz: "m ! s \<noteq> 0" using Suc.prems(4) by force
  have src: "?m ! (Suc s + i) = m ! (s + Suc i)" if "i \<le> k" for i
    using Suc.prems(3) that by (cases "d = Suc (s + i)") auto
  have "?m ! (Suc s + i) \<noteq> 0" if "i < k" for i
    using Suc.prems(4) that src [of i] by (metis Suc_less_eq less_imp_le)
  moreover have "?m ! (Suc s + k) = 0"
    using Suc.prems(5) src [of k] by simp
  ultimately have "\<forall>i < k. ?m ! (Suc s + i) \<noteq> 0" and "?m ! (Suc s + k) = 0" by blast+
  then obtain m' where m': "strcpy_loop ?m (Suc d) (Suc s) = Some m'"
      "moved ?m (Suc d) (Suc s) (Suc k) m'"
    using Suc.IH [of "Suc s" ?m "Suc d"] Suc.prems by auto
  have "m' ! i = (if d \<le> i \<and> i < d + Suc (Suc k) then m ! (s + (i - d)) else m ! i)"
    if "i < length m" for i
  proof (cases "d < i \<and> i < d + Suc (Suc k)")
    case True
    then have "s + (i - d) \<noteq> d" and "Suc s + (i - Suc d) = s + (i - d)"
      using Suc.prems(3) by auto
    then show ?thesis using m' that True by (simp add: moved_def)
  next
    case False
    then show ?thesis using m' that by (cases "i = d") (auto simp: moved_def)
  qed
  then have "moved m d s (Suc (Suc k)) m'" using m' by (simp add: moved_def)
  then show ?case using Suc.prems nz m' by (auto simp: strcpy_loop.simps [of m d s])
qed

section \<open>Digits\<close>

definition digit_char :: "nat \<Rightarrow> u8" where
  "digit_char d = (if d < 10 then of_nat (48 + d) else of_nat (87 + d))"

function numeral_of :: "nat \<Rightarrow> nat \<Rightarrow> u8 list" where
  "numeral_of b n =
     (if n < b \<or> b < 2 then [digit_char n] else numeral_of b (n div b) @ [digit_char (n mod b)])"
  by pat_completeness auto
termination
  by (relation "measure snd") (auto intro: div_less_dividend)

declare numeral_of.simps [simp del]

lemma length_itoa_table: "length itoa_table = 71"
  by (simp add: itoa_table_def)

lemma itoa_table_nth:
  "k < 71 \<Longrightarrow> itoa_table ! k = digit_char (if k < 35 then 35 - k else k - 35)"
proof -
  have "map (\<lambda>k. itoa_table ! k) [0..<71] =
      map (\<lambda>k. digit_char (if k < 35 then 35 - k else k - 35)) [0..<71]"
    by code_simp
  moreover assume "k < 71"
  ultimately show ?thesis by (simp add: list_eq_iff_nth_eq)
qed

lemma itoa_digit:
  assumes "2 \<le> b" and "b \<le> 36"
  shows "itoa_table ! nat (35 + v smod b) = digit_char (nat (\<bar>v\<bar> mod b))"
proof -
  have abs: "\<bar>v smod b\<bar> = \<bar>v\<bar> mod b" using assms by (simp add: abs_smod)
  moreover have "\<bar>v\<bar> mod b < 36"
    using assms by (meson less_le_trans pos_mod_bound zero_less_numeral order_less_le_trans)
  ultimately have "nat (35 + v smod b) < 71" by linarith
  then have "itoa_table ! nat (35 + v smod b) =
      digit_char (if nat (35 + v smod b) < 35 then 35 - nat (35 + v smod b)
                  else nat (35 + v smod b) - 35)"
    by (rule itoa_table_nth)
  moreover have "(if nat (35 + v smod b) < 35 then 35 - nat (35 + v smod b)
                  else nat (35 + v smod b) - 35) = nat (\<bar>v\<bar> mod b)"
    using \<open>\<bar>v\<bar> mod b < 36\<close> by (simp flip: abs) arith
  ultimately show ?thesis by simp
qed

lemma itoa_loop_digits:
  assumes "2 \<le> b" and "b \<le> 36"
  shows "rev (itoa_loop v b) = numeral_of (nat b) (nat \<bar>v\<bar>)"
  using assms
proof (induction v b rule: itoa_loop.induct)
  case (1 v b)
  have sd: "v sdiv b \<noteq> 0 \<longleftrightarrow> \<not> nat \<bar>v\<bar> < nat b"
  proof -
    have "v sdiv b \<noteq> 0 \<longleftrightarrow> \<bar>v\<bar> div b \<noteq> 0" using 1 abs_sdiv [of b v] by linarith
    also have "\<dots> \<longleftrightarrow> \<not> \<bar>v\<bar> < b" using 1 by (auto simp: zdiv_eq_0_iff)
    finally show ?thesis using 1 by simp
  qed
  have dig: "itoa_table ! nat (35 + v smod b) = digit_char (nat \<bar>v\<bar> mod nat b)"
    using itoa_digit [of b v] 1 by (simp add: nat_mod_distrib)
  have nb: "\<not> nat b < 2" using 1 by linarith
  show ?case
  proof (cases "v sdiv b \<noteq> 0")
    case True
    have "rev (itoa_loop (v sdiv b) b) = numeral_of (nat b) (nat \<bar>v\<bar> div nat b)"
      using 1 True by (simp add: abs_sdiv nat_div_distrib)
    then show ?thesis
      using True sd dig nb 1(2) by (simp add: itoa_loop.simps [of v] numeral_of.simps [of "nat b" "nat \<bar>v\<bar>"])
  next
    case False
    then show ?thesis
      using False sd dig nb by (simp add: itoa_loop.simps [of v] numeral_of.simps [of "nat b" "nat \<bar>v\<bar>"])
  qed
qed

lemma rev_loop_append:
  "rev_loop (p @ xs @ q) (length p) (length p + length xs - 1) = p @ rev xs @ q"
proof (induction "length xs" arbitrary: xs p q rule: less_induct)
  case less
  show ?case
  proof (cases "2 \<le> length xs")
    case False
    then have "xs = [] \<or> (\<exists>a. xs = [a])" by (cases xs; cases "tl xs") auto
    then show ?thesis by (auto simp: rev_loop.simps [of _ "length p"])
  next
    case True
    then obtain a zs where "xs = a # zs" "zs \<noteq> []" by (cases xs; cases "tl xs") auto
    then obtain ys b where xs: "xs = a # ys @ [b]" by (metis append_butlast_last_id)
    let ?s = "p @ xs @ q"
    have "rev_loop ?s (length p) (length p + length xs - 1) =
        rev_loop (?s[length p := b, Suc (length p + length ys) := a]) (Suc (length p)) (length p + length ys)"
      by (subst rev_loop.simps) (simp add: xs nth_append)
    also have "?s[length p := b, Suc (length p + length ys) := a] = (p @ [b]) @ ys @ (a # q)"
      by (simp add: xs list_update_append)
    also have "rev_loop ((p @ [b]) @ ys @ (a # q)) (Suc (length p)) (length p + length ys) =
        (p @ [b]) @ rev ys @ (a # q)"
      using less [of ys "p @ [b]" "a # q"] by (simp add: xs)
    finally show ?thesis by (simp add: xs)
  qed
qed

lemma itoa_eq_digits:
  assumes "2 \<le> b" and "b \<le> 36"
  shows "itoa v b = (if v < 0 \<and> b = 10 then bytes ''-'' else []) @ numeral_of (nat b) (nat \<bar>v\<bar>)"
proof -
  let ?p = "if v < 0 \<and> b = 10 then bytes ''-'' else []"
  have "itoa v b = rev_loop (?p @ itoa_loop v b @ []) (length ?p)
      (length ?p + length (itoa_loop v b) - 1)"
    using assms by (simp add: itoa_def Let_def)
  then show ?thesis
    unfolding rev_loop_append using itoa_loop_digits [OF assms] by simp
qed

text \<open>What a reader of the printed decimal number recovers.\<close>

definition parse_nat :: "u8 list \<Rightarrow> nat" where
  "parse_nat cs = foldl (\<lambda>acc c. acc * 10 + (unat c - 48)) 0 cs"

definition parse_int :: "u8 list \<Rightarrow> int" where
  "parse_int cs =
     (case cs of c # ds \<Rightarrow> if c = 0x2D then - int (parse_nat ds) else int (parse_nat cs) | [] \<Rightarrow> 0)"

lemma digit_char_decimal: "d < 10 \<Longrightarrow> unat (digit_char d) = 48 + d"
  using unat_of_nat [of "48 + d", where 'a = 8] by (simp add: digit_char_def del: of_nat_add)

lemma parse_nat_numeral: "parse_nat (numeral_of 10 n) = n"
proof (induction n rule: less_induct)
  case (less n)
  show ?case
  proof (cases "n < 10")
    case True
    then show ?thesis by (simp add: numeral_of.simps [of _ n] parse_nat_def digit_char_decimal)
  next
    case False
    then have "parse_nat (numeral_of 10 (n div 10)) = n div 10" by (intro less) simp
    then show ?thesis
      using False by (simp add: numeral_of.simps [of _ n] parse_nat_def digit_char_decimal)
  qed
qed

lemma numeral_of_hd: "\<exists>c cs. numeral_of 10 n = c # cs \<and> c \<noteq> 0x2D"
proof (induction n rule: less_induct)
  case (less n)
  show ?case
  proof (cases "n < 10")
    case True
    have "unat (digit_char n) \<noteq> unat (0x2D :: u8)" using True by (simp add: digit_char_decimal)
    then have "digit_char n \<noteq> 0x2D" by metis
    then show ?thesis using True by (simp add: numeral_of.simps [of _ n])
  next
    case False
    then obtain c cs where "numeral_of 10 (n div 10) = c # cs \<and> c \<noteq> 0x2D"
      using less [of "n div 10"] by auto
    then show ?thesis using False by (simp add: numeral_of.simps [of _ n])
  qed
qed

lemma moved_eq:
  assumes "moved m d s n m'" and "s + n \<le> length m" and "d + n \<le> length m"
  shows "m' = take d m @ take n (drop s m) @ drop (d + n) m"
proof (rule nth_equalityI)
  show "length m' = length (take d m @ take n (drop s m) @ drop (d + n) m)"
    using assms by (simp add: moved_def)
next
  fix i assume "i < length m'"
  moreover have "n \<le> length m - s" using assms by simp
  ultimately show "m' ! i = (take d m @ take n (drop s m) @ drop (d + n) m) ! i"
    using assms by (auto simp: moved_def nth_append min.absorb1 min.absorb2)
qed

section \<open>Properties of the C library\<close>

text \<open>C30. \<open>memmove\<close> copies \<open>n\<close> bytes correctly whatever the overlap of source and
  destination: the destination range holds what the source range held before the
  call, every other byte of the array is unchanged, and no access leaves the array.\<close>

theorem memmove_correct:
  assumes "s + n \<le> length m" and "d + n \<le> length m"
  shows "memmove m d s n = Some (take d m @ take n (drop s m) @ drop (d + n) m)"
  using memmove_moved [OF assms] moved_eq [OF _ assms] by blast

theorem memmove_correct_witness:
  "memmove [1, 2, 3, 4, 5] 1 0 3 = Some [1, 1, 2, 3, 5]"
  using memmove_correct [of 0 3 "[1, 2, 3, 4, 5]" 1] by simp

text \<open>C31. \<open>itoa\<close> in base 10 prints every \<open>int\<close>, the most negative one included,
  so that reading the decimal digits back gives the same number; in every other
  supported base it prints the digits of the absolute value, without a sign.\<close>

theorem itoa_correct:
  "parse_int (itoa v 10) = v \<and>
   (2 \<le> b \<and> b \<le> 36 \<and> b \<noteq> 10 \<longrightarrow> itoa v b = numeral_of (nat b) (nat \<bar>v\<bar>))"
proof (intro conjI impI)
  obtain c cs where n: "numeral_of 10 (nat \<bar>v\<bar>) = c # cs" "c \<noteq> 0x2D"
    using numeral_of_hd by blast
  have "itoa v 10 = (if v < 0 then bytes ''-'' else []) @ numeral_of 10 (nat \<bar>v\<bar>)"
    by (simp add: itoa_eq_digits)
  then show "parse_int (itoa v 10) = v"
    using n parse_nat_numeral [of "nat \<bar>v\<bar>"] by (simp add: parse_int_def bytes_def)
qed (simp add: itoa_eq_digits)

theorem itoa_correct_witness:
  "itoa (- 2147483648) 16 = bytes ''80000000'' \<and> parse_int (itoa (- 2147483648) 10) = - 2147483648"
proof -
  have "numeral_of 16 2147483648 = bytes ''80000000''"
    by (simp add: numeral_of.simps digit_char_def bytes_def)
  then show ?thesis
    using itoa_correct [of "- 2147483648" 16] by simp
qed

end
