(* ===== verification/PMM.thy ===== *)
theory PMM
  imports Prelude
begin

text \<open>
  The physical memory manager, \<open>kernel/memory/pmm.cpp\<close>: a bitmap of 4 KiB blocks
  in raw memory at \<open>bitmap\<close> (\<open>bm i\<close> is its \<open>i\<close>-th 32-bit word, whatever lies
  behind the last bucket included), first-fit allocation, and the loading of the
  multiboot memory map. Addresses and counters are 32-bit words. The theory states
  the contract of a frame allocator as a locale, shows that the bitmap keeps it, and
  what the start-up sequence of \<open>kernel.cpp\<close> leaves free.
\<close>

unbundle bit_operations_syntax

section \<open>State and operations\<close>

record pmm =
  bitmap :: u32
  bm :: "nat \<Rightarrow> u32"
  max_blocks :: u32
  used_blocks :: u32

definition pmm0 :: pmm where
  "pmm0 = \<lparr>bitmap = 0, bm = (\<lambda>_. 0), max_blocks = 0, used_blocks = 0\<rparr>"

definition BLOCK_SIZE :: u32 where "BLOCK_SIZE = 4096"
definition BLOCKS_PER_BUCKET :: u32 where "BLOCKS_PER_BUCKET = 32"

definition bucket :: "u32 \<Rightarrow> nat" where
  "bucket blk = unat (blk div BLOCKS_PER_BUCKET)"

definition bucket_mask :: "u32 \<Rightarrow> u32" where
  "bucket_mask blk = push_bit (unat (blk mod BLOCKS_PER_BUCKET)) 1"

definition test_block :: "pmm \<Rightarrow> u32 \<Rightarrow> bool" where
  "test_block p blk =
     (if bitmap p = 0 \<or> blk \<ge> max_blocks p then False
      else bm p (bucket blk) AND bucket_mask blk \<noteq> 0)"

definition set_block :: "pmm \<Rightarrow> u32 \<Rightarrow> pmm" where
  "set_block p blk =
     (if bitmap p = 0 \<or> blk \<ge> max_blocks p then p
      else if \<not> test_block p blk
      then p\<lparr>bm := (bm p)(bucket blk := bm p (bucket blk) OR bucket_mask blk),
             used_blocks := used_blocks p + 1\<rparr>
      else p)"

definition unset_block :: "pmm \<Rightarrow> u32 \<Rightarrow> pmm" where
  "unset_block p blk =
     (if bitmap p = 0 \<or> blk \<ge> max_blocks p then p
      else if test_block p blk
      then p\<lparr>bm := (bm p)(bucket blk := bm p (bucket blk) AND NOT (bucket_mask blk)),
             used_blocks := used_blocks p - 1\<rparr>
      else p)"

text \<open>
  The two nested loops of \<open>first_free_block\<close>: the buckets in order, and inside a
  bucket that is not full the first clear bit whose block number is in range.
\<close>

definition free_in_bucket :: "pmm \<Rightarrow> nat \<Rightarrow> nat option" where
  "free_in_bucket p i =
     (if bm p i \<noteq> 0xFFFFFFFF
      then map_option (\<lambda>j. i * 32 + j)
        (find (\<lambda>j. bm p i AND push_bit j 1 = 0 \<and> of_nat (i * 32 + j) < max_blocks p) [0..<32])
      else None)"

fun free_from_bucket :: "pmm \<Rightarrow> nat \<Rightarrow> nat \<Rightarrow> nat option" where
  "free_from_bucket p i 0 = None"
| "free_from_bucket p i (Suc k) =
     (case free_in_bucket p i of Some b \<Rightarrow> Some b | None \<Rightarrow> free_from_bucket p (Suc i) k)"

definition first_free_block :: "pmm \<Rightarrow> int" where
  "first_free_block p =
     (if bitmap p = 0 \<or> max_blocks p = 0 then - 1
      else case free_from_bucket p 0 (unat (max_blocks p div BLOCKS_PER_BUCKET)) of
             None \<Rightarrow> - 1
           | Some b \<Rightarrow> sint (of_nat b :: u32))"

definition allocate_block :: "pmm \<Rightarrow> pmm \<times> u32" where
  "allocate_block p =
     (if bitmap p = 0 then (p, 0)
      else let free_block = first_free_block p in
        if free_block = - 1 \<or> (word_of_int free_block :: u32) \<ge> max_blocks p then (p, 0)
        else (set_block p (word_of_int free_block), word_of_int free_block * BLOCK_SIZE))"

definition free_block :: "pmm \<Rightarrow> u32 \<Rightarrow> pmm" where
  "free_block p addr =
     (if addr = 0 \<or> bitmap p = 0 then p
      else if addr mod BLOCK_SIZE \<noteq> 0 then p
      else if addr div BLOCK_SIZE \<ge> max_blocks p then p
      else unset_block p (addr div BLOCK_SIZE))"

text \<open>
  \<open>memset(bitmap, 0xFF, n)\<close> seen as 32-bit words: whole words become all ones, the
  last one only in its low bytes.
\<close>

definition fill_ff :: "(nat \<Rightarrow> u32) \<Rightarrow> nat \<Rightarrow> nat \<Rightarrow> u32" where
  "fill_ff m n i =
     (if 4 * (i + 1) \<le> n then 0xFFFFFFFF
      else if 4 * i < n then m i OR mask (8 * (n - 4 * i))
      else m i)"

fun lock_blocks :: "pmm \<Rightarrow> u32 \<Rightarrow> nat \<Rightarrow> nat \<Rightarrow> pmm" where
  "lock_blocks p start i 0 = p"
| "lock_blocks p start i (Suc k) =
     lock_blocks (if start + of_nat i < max_blocks p then set_block p (start + of_nat i) else p)
       start (Suc i) k"

definition initialize :: "pmm \<Rightarrow> u32 \<Rightarrow> u32 \<Rightarrow> pmm" where
  "initialize p start_addr sz =
     (if start_addr = 0 \<or> sz < BLOCK_SIZE then p
      else let mb = sz div BLOCK_SIZE;
               p1 = p\<lparr>bitmap := start_addr, max_blocks := mb, used_blocks := mb,
                      bm := fill_ff (bm p) (unat ((mb + 7) div 8))\<rparr>;
               bitmap_blocks = (mb + BLOCKS_PER_BUCKET - 1) div BLOCKS_PER_BUCKET;
               bitmap_start_block = start_addr div BLOCK_SIZE
           in lock_blocks p1 bitmap_start_block 0 (unat bitmap_blocks))"

text \<open>
  \<open>load_memory_map\<close>: the memory the multiboot structure points to is read byte-wise
  through \<open>phys\<close>. The freeing loop stops before \<open>addr + i\<close> reaches the last page, and
  the entry pointer strictly increases, so both loops end.
\<close>

function free_range :: "pmm \<Rightarrow> u32 \<Rightarrow> u32 \<Rightarrow> u32 \<Rightarrow> pmm" where
  "free_range p addr len i =
     (if i < len \<and> addr + i < 0xFFFFFFFF - BLOCK_SIZE
      then free_range (free_block p (addr + i)) addr len (i + BLOCK_SIZE)
      else p)"
  by pat_completeness auto
termination
proof (relation "measure (\<lambda>(p, addr, len, i). 2 ^ 32 - unat (addr + i))", goal_cases)
  case 1
  show ?case by simp
next
  case (2 p addr len i)
  then have "unat (addr + i) < unat (0xFFFFFFFF - BLOCK_SIZE)" by (simp add: word_less_nat_alt)
  then have lt: "unat (addr + i) < 4294963199" by (simp add: BLOCK_SIZE_def)
  have "unat ((addr + i) + 4096) = unat (addr + i) + 4096"
    using lt unat_word_ariths(1) [of "addr + i" 4096] by simp
  then have "unat (addr + (i + BLOCK_SIZE)) = unat (addr + i) + 4096"
    by (simp add: BLOCK_SIZE_def add.assoc)
  then show ?case using lt by simp
qed

declare free_range.simps [simp del]

definition MMAP_ENTRY_SIZE :: u32 where "MMAP_ENTRY_SIZE = 24"

function load_entries :: "mem \<Rightarrow> pmm \<Rightarrow> u32 \<Rightarrow> u32 \<Rightarrow> pmm" where
  "load_entries phys p mmap end_addr =
     (if mmap + MMAP_ENTRY_SIZE \<le> end_addr
      then let entry_size = le32 phys (unat mmap);
               addr_low = le32 phys (unat mmap + 4);
               len_low = le32 phys (unat mmap + 12);
               entry_type = le32 phys (unat mmap + 20);
               p' = (if entry_type = 1 \<and> len_low > 0 then free_range p addr_low len_low 0 else p);
               next_addr = mmap + entry_size + 4
           in if next_addr \<le> mmap then p' else load_entries phys p' next_addr end_addr
      else p)"
  by pat_completeness auto
termination
  by (relation "measure (\<lambda>(phys, p, mmap, end_addr). 2 ^ 32 - unat mmap)")
    (auto simp: word_le_nat_alt not_le intro!: diff_less_mono2 unsigned_less [where 'b = 32, simplified])

declare load_entries.simps [simp del]

definition load_memory_map :: "mem \<Rightarrow> pmm \<Rightarrow> u32 \<Rightarrow> u32 \<Rightarrow> pmm" where
  "load_memory_map phys p mmap_addr mmap_length =
     (if mmap_addr = 0 \<or> mmap_length = 0 then p
      else set_block (load_entries phys p mmap_addr (mmap_addr + mmap_length)) 0)"

text \<open>
  The memory part of \<open>kernel_main\<close>: the bitmap goes right behind the kernel image. When
  the loop counter wraps below \<open>kernel_end\<close> the C loop starts over and never ends, which
  is \<open>None\<close> here.
\<close>

function lock_kernel :: "pmm \<Rightarrow> u32 \<Rightarrow> u32 \<Rightarrow> pmm option" where
  "lock_kernel p kernel_end i =
     (if i < kernel_end
      then if i + 4096 > i then lock_kernel (set_block p (i div 4096)) kernel_end (i + 4096) else None
      else Some p)"
  by pat_completeness auto
termination
  by (relation "measure (\<lambda>(p, kernel_end, i). 2 ^ 32 - unat i)")
    (auto simp: word_less_nat_alt intro!: diff_less_mono2 unsigned_less [where 'b = 32, simplified])

declare lock_kernel.simps [simp del]

definition boot_memory :: "mem \<Rightarrow> pmm \<Rightarrow> u32 \<Rightarrow> u32 \<Rightarrow> u32 \<Rightarrow> u32 \<Rightarrow> pmm option" where
  "boot_memory phys p mmap_addr mmap_length kernel_end mem_size =
     lock_kernel (load_memory_map phys (initialize p kernel_end mem_size) mmap_addr mmap_length)
       kernel_end 0x100000"

section \<open>The bitmap as a set of used blocks\<close>

lemma bucket_eq: "bucket blk = unat blk div 32"
  by (simp add: bucket_def BLOCKS_PER_BUCKET_def unat_div)

lemma bucket_mask_eq: "bucket_mask blk = 2 ^ (unat blk mod 32)"
  by (simp add: bucket_mask_def BLOCKS_PER_BUCKET_def unat_mod push_bit_eq_mult)

lemma test_block_iff:
  "test_block p blk \<longleftrightarrow>
     bitmap p \<noteq> 0 \<and> blk < max_blocks p \<and> bit (bm p (unat blk div 32)) (unat blk mod 32)"
  by (auto simp: test_block_def bucket_eq bucket_mask_eq and_exp_eq_0_iff_not_bit not_le)

lemma same_block: "unat a div 32 = unat b div 32 \<Longrightarrow> unat a mod 32 = unat b mod 32 \<Longrightarrow> a = (b :: u32)"
  by (metis div_mult_mod_eq word_unat_eq_iff)

lemma bit_or_exp: "k < 32 \<Longrightarrow> bit ((x :: u32) OR 2 ^ j) k \<longleftrightarrow> bit x k \<or> j = k"
  by (auto simp: bit_simps)

lemma bit_andnot_exp: "k < 32 \<Longrightarrow> bit ((x :: u32) AND NOT (2 ^ j)) k \<longleftrightarrow> bit x k \<and> j \<noteq> k"
  by (auto simp: bit_simps)

lemma set_block_frame [simp]:
  "bitmap (set_block p a) = bitmap p" "max_blocks (set_block p a) = max_blocks p"
  by (simp_all add: set_block_def)

lemma unset_block_frame [simp]:
  "bitmap (unset_block p a) = bitmap p" "max_blocks (unset_block p a) = max_blocks p"
  by (simp_all add: unset_block_def)

lemma free_block_frame [simp]:
  "bitmap (free_block p a) = bitmap p" "max_blocks (free_block p a) = max_blocks p"
  by (simp_all add: free_block_def)

lemma test_set_block:
  "test_block (set_block p a) b \<longleftrightarrow>
     test_block p b \<or> (b = a \<and> bitmap p \<noteq> 0 \<and> a < max_blocks p)"
proof (cases "bitmap p = 0 \<or> a \<ge> max_blocks p \<or> test_block p a")
  case True
  then show ?thesis by (auto simp: set_block_def)
next
  case False
  let ?q = "set_block p a"
  have bm: "bm ?q = (bm p)(unat a div 32 := bm p (unat a div 32) OR 2 ^ (unat a mod 32))"
    using False by (simp add: set_block_def bucket_eq bucket_mask_eq)
  have "bit (bm ?q (unat b div 32)) (unat b mod 32) \<longleftrightarrow>
      bit (bm p (unat b div 32)) (unat b mod 32) \<or> b = a"
    using same_block [of a b] by (auto simp: bm bit_or_exp)
  then show ?thesis using False by (auto simp: test_block_iff)
qed

lemma test_unset_block:
  "test_block (unset_block p a) b \<longleftrightarrow> test_block p b \<and> b \<noteq> a"
proof (cases "bitmap p = 0 \<or> a \<ge> max_blocks p \<or> \<not> test_block p a")
  case True
  then show ?thesis by (auto simp: unset_block_def test_block_iff)
next
  case False
  let ?q = "unset_block p a"
  have bm: "bm ?q = (bm p)(unat a div 32 := bm p (unat a div 32) AND NOT (2 ^ (unat a mod 32)))"
    using False by (simp add: unset_block_def bucket_eq bucket_mask_eq)
  have "bit (bm ?q (unat b div 32)) (unat b mod 32) \<longleftrightarrow>
      bit (bm p (unat b div 32)) (unat b mod 32) \<and> b \<noteq> a"
    using same_block [of a b] by (auto simp: bm bit_andnot_exp)
  then show ?thesis using False by (auto simp: test_block_iff)
qed

definition used_set :: "pmm \<Rightarrow> u32 set" where
  "used_set p = {b. test_block p b}"

lemma used_set_set_block:
  "bitmap p \<noteq> 0 \<Longrightarrow> a < max_blocks p \<Longrightarrow> used_set (set_block p a) = insert a (used_set p)"
  by (auto simp: used_set_def test_set_block)

lemma used_set_unset_block: "used_set (unset_block p a) = used_set p - {a}"
  by (auto simp: used_set_def test_unset_block)

lemma finite_used_set [simp]: "finite (used_set p)"
  by simp

text \<open>The counter is exact: it is the number of used blocks, also when it wraps.\<close>

definition counts :: "pmm \<Rightarrow> bool" where
  "counts p \<longleftrightarrow> used_blocks p = of_nat (card (used_set p))"

lemma counts_set_block: "counts p \<Longrightarrow> counts (set_block p a)"
proof (cases "bitmap p = 0 \<or> a \<ge> max_blocks p \<or> test_block p a")
  case True
  moreover assume "counts p"
  ultimately show ?thesis by (auto simp: set_block_def)
next
  case False
  moreover assume "counts p"
  moreover have "a \<notin> used_set p" using False by (simp add: used_set_def)
  ultimately show ?thesis
    using used_set_set_block [of p a] by (simp add: counts_def set_block_def not_le)
qed

lemma counts_unset_block:
  assumes "counts p"
  shows "counts (unset_block p a)"
proof (cases "bitmap p = 0 \<or> a \<ge> max_blocks p \<or> \<not> test_block p a")
  case True
  then show ?thesis using assms by (auto simp: unset_block_def)
next
  case False
  then have "a \<in> used_set p" by (simp add: used_set_def)
  then have "card (used_set p) = Suc (card (used_set p - {a}))"
    using card.remove [of "used_set p" a] by simp
  then have "used_blocks p - 1 = of_nat (card (used_set (unset_block p a)))"
    using assms by (simp add: counts_def used_set_unset_block)
  then show ?thesis using False by (simp add: counts_def unset_block_def)
qed

lemma counts_free_block: "counts p \<Longrightarrow> counts (free_block p a)"
  by (simp add: free_block_def counts_unset_block)

section \<open>First fit\<close>

lemma bit_full_word: "(w :: u32) = 0xFFFFFFFF \<longleftrightarrow> (\<forall>j < 32. bit w j)"
proof -
  have "(0xFFFFFFFF :: u32) = - 1" by simp
  then show ?thesis by (auto simp: bit_eq_iff)
qed

lemma free_in_bucket_Some:
  assumes "free_in_bucket p i = Some b"
  shows "\<exists>j < 32. b = i * 32 + j \<and> \<not> bit (bm p i) j \<and> of_nat b < max_blocks p"
proof -
  obtain j where j: "find (\<lambda>j. bm p i AND push_bit j 1 = 0 \<and> of_nat (i * 32 + j) < max_blocks p) [0..<32]
      = Some j" and b: "b = i * 32 + j"
    using assms by (auto simp: free_in_bucket_def split: if_splits)
  from j have "j < 32" "bm p i AND push_bit j 1 = 0" "of_nat (i * 32 + j) < max_blocks p"
    by (auto simp: find_Some_iff)
  then show ?thesis using b by (auto simp: push_bit_eq_mult and_exp_eq_0_iff_not_bit)
qed

lemma free_in_bucket_None:
  assumes "free_in_bucket p i = None" and "i * 32 + 32 \<le> unat (max_blocks p)" and "j < 32"
  shows "bit (bm p i) j"
proof (cases "bm p i = 0xFFFFFFFF")
  case True
  then show ?thesis using bit_full_word [of "bm p i"] assms(3) by blast
next
  case False
  then have "find (\<lambda>j. bm p i AND push_bit j 1 = 0 \<and> of_nat (i * 32 + j) < max_blocks p) [0..<32] = None"
    using assms(1) by (simp add: free_in_bucket_def)
  then have "\<not> (bm p i AND push_bit j 1 = 0 \<and> of_nat (i * 32 + j) < max_blocks p)"
    using assms(3) by (auto simp: find_None_iff)
  moreover have "i * 32 + j < 4294967296"
    using assms(2,3) unat_u32_lt [of "max_blocks p"] by linarith
  then have "of_nat (i * 32 + j) < max_blocks p"
    using assms(2,3) by (simp add: word_less_nat_alt unat_of_nat_u32 del: of_nat_add of_nat_mult)
  ultimately show ?thesis by (simp add: push_bit_eq_mult and_exp_eq_0_iff_not_bit)
qed

lemma free_from_bucket_Some:
  "free_from_bucket p i k = Some b \<Longrightarrow>
     \<exists>i' j. i \<le> i' \<and> i' < i + k \<and> j < 32 \<and> b = i' * 32 + j \<and> \<not> bit (bm p i') j"
proof (induction k arbitrary: i)
  case 0
  then show ?case by simp
next
  case (Suc k)
  show ?case
  proof (cases "free_in_bucket p i")
    case None
    then have "free_from_bucket p (Suc i) k = Some b" using Suc.prems by simp
    from Suc.IH [OF this] show ?thesis by (metis Suc_leD add_Suc_shift)
  next
    case (Some c)
    then have "c = b" using Suc.prems by simp
    then show ?thesis using free_in_bucket_Some [OF Some] by auto
  qed
qed

lemma free_from_bucket_None:
  "free_from_bucket p i k = None \<Longrightarrow> (i + k) * 32 \<le> unat (max_blocks p) \<Longrightarrow>
     i \<le> i' \<Longrightarrow> i' < i + k \<Longrightarrow> j < 32 \<Longrightarrow> bit (bm p i') j"
proof (induction k arbitrary: i)
  case 0
  then show ?case by simp
next
  case (Suc k)
  then have None: "free_in_bucket p i = None" "free_from_bucket p (Suc i) k = None"
    by (auto split: option.splits)
  show ?case
  proof (cases "i' = i")
    case True
    then show ?thesis using free_in_bucket_None [OF None(1)] Suc.prems by simp
  next
    case False
    then show ?thesis using Suc.IH [OF None(2)] Suc.prems by simp
  qed
qed

definition buckets :: "pmm \<Rightarrow> nat" where
  "buckets p = unat (max_blocks p) div 32"

text \<open>The state after a successful \<open>initialize\<close>: at most \<open>2 ^ 20\<close> blocks of 4 KiB.\<close>

definition pmm_ok :: "pmm \<Rightarrow> bool" where
  "pmm_ok p \<longleftrightarrow> bitmap p \<noteq> 0 \<and> unat (max_blocks p) < 2 ^ 20 \<and> counts p"

lemma pmm_ok_set_block [inv_intros]: "pmm_ok p \<Longrightarrow> pmm_ok (set_block p a)"
  by (simp add: pmm_ok_def counts_set_block)

lemma pmm_ok_free_block [inv_intros]: "pmm_ok p \<Longrightarrow> pmm_ok (free_block p a)"
  by (simp add: pmm_ok_def counts_free_block)

lemma first_free_block_cases:
  assumes "pmm_ok p"
  obtains (none) "first_free_block p = - 1" "\<And>i. i < buckets p * 32 \<Longrightarrow> test_block p (of_nat i)"
    | (some) b where "first_free_block p = int (unat b)" "b < max_blocks p" "\<not> test_block p b"
proof (cases "max_blocks p = 0")
  case True
  then have "first_free_block p = - 1" "buckets p = 0" by (auto simp: first_free_block_def buckets_def)
  then show ?thesis using none by simp
next
  case False
  have ok: "bitmap p \<noteq> 0" "unat (max_blocks p) < 2 ^ 20" using assms by (simp_all add: pmm_ok_def)
  have k: "unat (max_blocks p div BLOCKS_PER_BUCKET) = buckets p"
    by (simp add: buckets_def BLOCKS_PER_BUCKET_def unat_div)
  have in_range: "of_nat n < max_blocks p" "unat (of_nat n :: u32) = n" if "n < buckets p * 32" for n
  proof -
    have n: "n < unat (max_blocks p)" using that by (simp add: buckets_def)
    then show "unat (of_nat n :: u32) = n" using ok by (simp add: unat_of_nat_u32)
    then show "of_nat n < max_blocks p" using n by (simp add: word_less_nat_alt)
  qed
  show ?thesis
  proof (cases "free_from_bucket p 0 (buckets p)")
    case None
    have "test_block p (of_nat n)" if n: "n < buckets p * 32" for n
      using free_from_bucket_None [OF None, of "n div 32" "n mod 32"] n in_range [OF n] ok
      by (auto simp: test_block_iff buckets_def)
    then show ?thesis using none None False ok k by (simp add: first_free_block_def)
  next
    case (Some n)
    then obtain i j where ij: "i < buckets p" "j < 32" "n = i * 32 + j" "\<not> bit (bm p i) j"
      using free_from_bucket_Some by fastforce
    then have n: "n < buckets p * 32" by auto
    have "unat (of_nat n :: u32) < 2 ^ 20"
      using in_range [OF n] ok by (simp add: word_less_nat_alt)
    then have "sint (of_nat n :: u32) = int (unat (of_nat n :: u32))"
      by (simp add: sint_small_u32)
    then show ?thesis
      using some [of "of_nat n"] Some False ok k ij in_range [OF n]
      by (simp add: first_free_block_def test_block_iff)
  qed
qed

lemma allocate_block_cases:
  assumes "pmm_ok p"
  obtains (fail) "allocate_block p = (p, 0)" "\<And>i. i < buckets p * 32 \<Longrightarrow> test_block p (of_nat i)"
    | (got) b where "allocate_block p = (set_block p b, b * 4096)" "b < max_blocks p" "\<not> test_block p b"
  using assms
proof (cases rule: first_free_block_cases)
  case none
  then show ?thesis using fail assms by (simp add: allocate_block_def pmm_ok_def)
next
  case (some b)
  then have "(word_of_int (first_free_block p) :: u32) = b" by simp
  moreover have "first_free_block p \<noteq> - 1" using some(1) by linarith
  moreover have "\<not> max_blocks p \<le> b" using some(2) by simp
  ultimately have "allocate_block p = (set_block p b, b * 4096)"
    using assms by (simp add: allocate_block_def pmm_ok_def BLOCK_SIZE_def Let_def)
  then show ?thesis using some(2,3) by (rule got)
qed

lemma pmm_ok_allocate_block [inv_intros]:
  "pmm_ok p \<Longrightarrow> allocate_block p = (p', a) \<Longrightarrow> pmm_ok p'"
  by (rule allocate_block_cases [of p]) (auto intro: inv_intros)

section \<open>The frame allocator interface\<close>

text \<open>
  What the paging code, the virtual memory manager and the RAM file system rely on:
  \<open>taken s\<close> is the set of frame addresses handed out or reserved.
\<close>

locale frame_allocator =
  fixes alloc :: "'s \<Rightarrow> 's \<times> u32" and release :: "'s \<Rightarrow> u32 \<Rightarrow> 's"
    and taken :: "'s \<Rightarrow> u32 set" and ok :: "'s \<Rightarrow> bool"
  assumes alloc_ok: "ok s \<Longrightarrow> alloc s = (s', a) \<Longrightarrow> ok s'"
    and alloc_fail: "ok s \<Longrightarrow> alloc s = (s', 0) \<Longrightarrow> s' = s"
    and alloc_fresh: "ok s \<Longrightarrow> alloc s = (s', a) \<Longrightarrow> a \<noteq> 0 \<Longrightarrow> a \<notin> taken s \<and> taken s' = insert a (taken s)"
    and alloc_aligned: "ok s \<Longrightarrow> alloc s = (s', a) \<Longrightarrow> a mod 4096 = 0"
    and release_ok: "ok s \<Longrightarrow> ok (release s a)"
    and release_taken: "ok s \<Longrightarrow> a \<noteq> 0 \<Longrightarrow> a mod 4096 = 0 \<Longrightarrow> taken (release s a) = taken s - {a}"

fun allocs :: "('s \<Rightarrow> 's \<times> u32) \<Rightarrow> nat \<Rightarrow> 's \<Rightarrow> 's \<times> u32 list" where
  "allocs alloc 0 s = (s, [])"
| "allocs alloc (Suc n) s =
     (let (s1, a) = alloc s; (s2, as) = allocs alloc n s1 in (s2, a # as))"

context frame_allocator begin

lemma alloc_taken_mono: "ok s \<Longrightarrow> alloc s = (s', a) \<Longrightarrow> taken s \<subseteq> taken s'"
  using alloc_fresh alloc_fail by (cases "a = 0") blast+

lemma allocs_fresh:
  assumes "ok s" and "allocs alloc n s = (s', as)"
  shows "ok s' \<and> set as - {0} = taken s' - taken s \<and> taken s \<subseteq> taken s' \<and>
    distinct (filter (\<lambda>a. a \<noteq> 0) as)"
  using assms
proof (induction n arbitrary: s as)
  case 0
  then show ?case by simp
next
  case (Suc n)
  obtain s1 a where 1: "alloc s = (s1, a)" by force
  obtain as' where 2: "allocs alloc n s1 = (s', as')" and as: "as = a # as'"
    using Suc.prems(2) 1 by (auto split: prod.splits)
  have ok1: "ok s1" using Suc.prems(1) 1 by (rule alloc_ok)
  note IH = Suc.IH [OF ok1 2]
  show ?case
  proof (cases "a = 0")
    case True
    then have "s1 = s" using alloc_fail [of s s1] Suc.prems(1) 1 by simp
    then show ?thesis using IH as True by simp
  next
    case False
    then have a: "a \<notin> taken s" "taken s1 = insert a (taken s)"
      using alloc_fresh [OF Suc.prems(1) 1] by auto
    have "a \<notin> set as'" using IH a False by blast
    moreover have "set (a # as') - {0} = taken s' - taken s" using IH a False by auto
    ultimately show ?thesis using IH as a False by auto
  qed
qed

lemma release_alloc:
  assumes "ok s" and "alloc s = (s', a)" and "a \<noteq> 0"
  shows "taken (release s' a) = taken s"
  using assms alloc_ok [OF assms(1,2)] alloc_fresh [OF assms] alloc_aligned [OF assms(1,2)]
  by (simp add: release_taken)

end

definition frame_taken :: "pmm \<Rightarrow> u32 set" where
  "frame_taken p = (\<lambda>b. b * 4096) ` used_set p"

text \<open>Block 0 must be reserved: its address is the null pointer.\<close>

definition frame_ok :: "pmm \<Rightarrow> bool" where
  "frame_ok p \<longleftrightarrow> pmm_ok p \<and> test_block p 0"

lemma unat_frame: "pmm_ok p \<Longrightarrow> b < max_blocks p \<Longrightarrow> unat (b * 4096) = unat b * 4096"
  by (rule unat_mult_u32 [of b 4096, simplified])
    (simp add: pmm_ok_def word_less_nat_alt)

lemma frame_inj:
  "pmm_ok p \<Longrightarrow> b < max_blocks p \<Longrightarrow> c < max_blocks p \<Longrightarrow> b * 4096 = c * 4096 \<longleftrightarrow> b = c"
  by (metis unat_frame word_unat_eq_iff mult_cancel2 zero_neq_numeral)

lemma frame_taken_iff:
  "pmm_ok p \<Longrightarrow> b < max_blocks p \<Longrightarrow> b * 4096 \<in> frame_taken p \<longleftrightarrow> test_block p b"
  by (auto simp: frame_taken_def used_set_def frame_inj test_block_iff)

lemma frame_mod: "pmm_ok p \<Longrightarrow> b < max_blocks p \<Longrightarrow> b * 4096 mod 4096 = 0"
  by (simp add: word_unat_eq_iff unat_mod unat_frame)

lemma frame_div: "pmm_ok p \<Longrightarrow> b < max_blocks p \<Longrightarrow> b * 4096 div 4096 = b"
  by (simp add: word_unat_eq_iff unat_div unat_frame)

lemma free_block_used:
  assumes "pmm_ok p" and "a \<noteq> 0" and "a mod 4096 = 0"
  shows "used_set (free_block p a) = used_set p - {a div 4096}"
  using assms
  by (auto simp: free_block_def BLOCK_SIZE_def used_set_unset_block pmm_ok_def)
    (auto simp: used_set_def test_block_iff)

lemma frame_ok_allocate:
  assumes "frame_ok p" and "allocate_block p = (p', a)"
  shows "frame_ok p'" and "a = 0 \<Longrightarrow> p' = p" and "a mod 4096 = 0"
    and "a \<noteq> 0 \<Longrightarrow> a \<notin> frame_taken p \<and> frame_taken p' = insert a (frame_taken p)"
proof -
  have ok: "pmm_ok p" using assms(1) by (simp add: frame_ok_def)
  then show "frame_ok p'"
    using assms pmm_ok_allocate_block [OF ok assms(2)]
    by (rule_tac allocate_block_cases [OF ok]) (auto simp: frame_ok_def test_set_block)
  show "a = 0 \<Longrightarrow> p' = p"
  proof (rule allocate_block_cases [OF ok])
    fix b assume b: "allocate_block p = (set_block p b, b * 4096)" "b < max_blocks p" "\<not> test_block p b"
    moreover assume "a = 0"
    ultimately have "b * 4096 = 0 * 4096" using assms(2) by simp
    moreover have "0 < max_blocks p" using b(2) by (simp add: word_less_nat_alt)
    ultimately have "b = 0" using frame_inj [OF ok b(2)] by blast
    then show ?thesis using b(3) assms(1) by (simp add: frame_ok_def)
  qed (use assms in simp)
  show "a mod 4096 = 0"
    using assms(2) frame_mod [OF ok] by (rule_tac allocate_block_cases [OF ok]) auto
  show "a \<noteq> 0 \<Longrightarrow> a \<notin> frame_taken p \<and> frame_taken p' = insert a (frame_taken p)"
  proof (rule allocate_block_cases [OF ok])
    fix b assume b: "allocate_block p = (set_block p b, b * 4096)" "b < max_blocks p" "\<not> test_block p b"
    moreover have "bitmap p \<noteq> 0" using ok by (simp add: pmm_ok_def)
    ultimately show ?thesis
      using assms(2) frame_taken_iff [OF ok b(2)] used_set_set_block [of p b]
      by (auto simp: frame_taken_def)
  qed (use assms in simp)
qed

lemma frame_ok_free:
  assumes "frame_ok p"
  shows "frame_ok (free_block p a)"
    and "a \<noteq> 0 \<Longrightarrow> a mod 4096 = 0 \<Longrightarrow> frame_taken (free_block p a) = frame_taken p - {a}"
proof -
  have ok: "pmm_ok p" "test_block p 0" using assms by (auto simp: frame_ok_def)
  have 0: "a div 4096 \<noteq> 0" if "a \<noteq> 0" "a mod 4096 = 0" for a :: u32
  proof
    assume "a div 4096 = 0"
    then have "a = 0" using div_mult_mod_eq [of a 4096] that(2) by simp
    then show False using that(1) by simp
  qed
  show "frame_ok (free_block p a)"
  proof (cases "a \<noteq> 0 \<and> a mod 4096 = 0")
    case True
    have "used_set (free_block p a) = used_set p - {a div 4096}"
      using True by (elim conjE) (rule free_block_used [OF ok(1)])
    moreover have "0 \<in> used_set p" using ok(2) by (simp add: used_set_def)
    moreover have "a div 4096 \<noteq> 0" using True by (elim conjE) (rule 0)
    ultimately have "0 \<in> used_set (free_block p a)" by simp
    then have "test_block (free_block p a) 0" by (simp add: used_set_def)
    then show ?thesis
      using ok(1) pmm_ok_free_block by (simp add: frame_ok_def)
  next
    case False
    then have "a = 0 \<or> a mod BLOCK_SIZE \<noteq> 0" unfolding BLOCK_SIZE_def by argo
    then have "free_block p a = p" by (elim disjE) (simp_all add: free_block_def)
    then show ?thesis using assms by simp
  qed
  show "frame_taken (free_block p a) = frame_taken p - {a}" if a: "a \<noteq> 0" "a mod 4096 = 0"
  proof -
    have "b * 4096 = a \<longleftrightarrow> b = a div 4096" if "b \<in> used_set p" for b
    proof -
      have "a div 4096 * 4096 = a" using a(2) div_mult_mod_eq [of a 4096] by simp
      moreover have "b < max_blocks p" using that by (simp add: used_set_def test_block_iff)
      ultimately show ?thesis using frame_div [OF ok(1), of b] by auto
    qed
    then show ?thesis
      unfolding frame_taken_def free_block_used [OF ok(1) a] by (auto simp: image_iff)
  qed
qed

interpretation pmm: frame_allocator allocate_block free_block frame_taken frame_ok
proof (unfold_locales, goal_cases)
  case (1 s s' a) then show ?case by (rule frame_ok_allocate(1))
next
  case (2 s s') then show ?case by (rule frame_ok_allocate(2)) simp
next
  case (3 s s' a) then show ?case by (rule frame_ok_allocate(4))
next
  case (4 s s' a) then show ?case by (rule frame_ok_allocate(3))
next
  case (5 s a) then show ?case by (rule frame_ok_free(1))
next
  case (6 s a) then show ?case by (rule frame_ok_free(2))
qed

section \<open>Start-up\<close>

lemma bit_fill_ff:
  assumes "32 * i + j < 8 * n" and "j < 32"
  shows "bit (fill_ff m n i) j"
proof (cases "4 * (i + 1) \<le> n")
  case True
  then show ?thesis using assms bit_full_word [of "fill_ff m n i"] by (simp add: fill_ff_def)
next
  case False
  then show ?thesis using assms by (auto simp: fill_ff_def bit_simps)
qed

lemma lock_blocks_id:
  "(\<And>b. b < max_blocks p \<Longrightarrow> test_block p b) \<Longrightarrow> lock_blocks p start i k = p"
  by (induction k arbitrary: i) (auto simp: set_block_def)

definition initialized :: "pmm \<Rightarrow> u32 \<Rightarrow> u32 \<Rightarrow> pmm" where
  "initialized p start_addr sz =
     p\<lparr>bitmap := start_addr, max_blocks := sz div BLOCK_SIZE, used_blocks := sz div BLOCK_SIZE,
       bm := fill_ff (bm p) (unat ((sz div BLOCK_SIZE + 7) div 8))\<rparr>"

lemma max_blocks_bound: "unat (sz div BLOCK_SIZE) < 2 ^ 20"
proof -
  have "unat sz div 4096 < 2 ^ 20" using unat_u32_lt [of sz] by (simp add: div_less_iff_less_mult)
  then show ?thesis by (simp add: BLOCK_SIZE_def unat_div)
qed

lemma initialized_used:
  assumes "start_addr \<noteq> 0" and b: "b < max_blocks (initialized p start_addr sz)"
  shows "test_block (initialized p start_addr sz) b"
proof -
  let ?mb = "sz div BLOCK_SIZE"
  have mb: "unat ?mb < 2 ^ 20" by (rule max_blocks_bound)
  have "unat ((?mb + 7) div 8) = (unat ?mb + 7) div 8"
    using mb unat_add_u32 [of ?mb 7] by (simp add: unat_div)
  moreover have "unat b < unat ?mb" using b by (simp add: initialized_def word_less_nat_alt)
  ultimately have "32 * (unat b div 32) + unat b mod 32 < 8 * unat ((?mb + 7) div 8)"
    by simp
  then have "bit (fill_ff (bm p) (unat ((?mb + 7) div 8)) (unat b div 32)) (unat b mod 32)"
    by (rule bit_fill_ff) simp
  then show ?thesis
    using assms by (simp add: test_block_iff initialized_def)
qed

text \<open>Everything is marked used already, so the loop that is to lock the bitmap does nothing.\<close>

lemma initialize_eq:
  assumes "start_addr \<noteq> 0" and "BLOCK_SIZE \<le> sz"
  shows "initialize p start_addr sz = initialized p start_addr sz"
proof -
  have "initialize p start_addr sz =
      lock_blocks (initialized p start_addr sz) (start_addr div BLOCK_SIZE) 0
        (unat ((sz div BLOCK_SIZE + BLOCKS_PER_BUCKET - 1) div BLOCKS_PER_BUCKET))"
    using assms by (simp add: initialize_def initialized_def Let_def not_less)
  then show ?thesis using initialized_used [OF assms(1)] by (simp add: lock_blocks_id)
qed

lemma used_set_initialize:
  assumes "start_addr \<noteq> 0" and "BLOCK_SIZE \<le> sz"
  shows "used_set (initialize p start_addr sz) = {b. b < sz div BLOCK_SIZE}"
  using initialized_used [OF assms(1), of _ p sz]
  by (auto simp: initialize_eq [OF assms] used_set_def test_block_iff initialized_def)

lemma card_below_u32: "card {b :: u32. b < n} = unat n"
proof -
  have "bij_betw unat {b :: u32. b < n} {..<unat n}"
  proof (rule bij_betw_byWitness [where f' = of_nat])
    have rt: "unat (of_nat k :: u32) = k" if "k < unat n" for k
      using that unat_u32_lt [of n] by (intro unat_of_nat_u32) linarith
    show "\<forall>k \<in> {..<unat n}. unat (of_nat k :: u32) = k" using rt by simp
    show "of_nat ` {..<unat n} \<subseteq> {b :: u32. b < n}" using rt by (auto simp: word_less_nat_alt)
  qed (auto simp: word_less_nat_alt)
  then show ?thesis by (simp add: bij_betw_same_card)
qed

lemma pmm_ok_initialize:
  assumes "start_addr \<noteq> 0" and "BLOCK_SIZE \<le> sz"
  shows "pmm_ok (initialize p start_addr sz)"
  using used_set_initialize [OF assms, of p] assms max_blocks_bound [of sz]
  by (simp add: pmm_ok_def counts_def card_below_u32 initialize_eq initialized_def)

lemma free_range_step:
  "i < len \<Longrightarrow> addr + i < 0xFFFFFFFF - BLOCK_SIZE \<Longrightarrow>
   free_range p addr len i = free_range (free_block p (addr + i)) addr len (i + BLOCK_SIZE)"
  by (simp add: free_range.simps [of p addr len i])

lemma used_set_free_block: "used_set (free_block p a) \<subseteq> used_set p"
  by (auto simp: free_block_def used_set_unset_block)

lemma free_range_frame:
  "used_set (free_range p addr len i) \<subseteq> used_set p \<and> (pmm_ok p \<longrightarrow> pmm_ok (free_range p addr len i))"
proof (induction p addr len i rule: free_range.induct)
  case (1 p addr len i)
  show ?case
  proof (cases "i < len \<and> addr + i < 0xFFFFFFFF - BLOCK_SIZE")
    case True
    then show ?thesis
      using 1 used_set_free_block [of p "addr + i"]
      by (auto simp: free_range_step intro: inv_intros)
  next
    case False
    then have "free_range p addr len i = p"
      unfolding free_range.simps [of p addr len i] by (rule if_not_P)
    then show ?thesis by simp
  qed
qed

lemma free_range_fields [simp]:
  "bitmap (free_range p addr len i) = bitmap p \<and> max_blocks (free_range p addr len i) = max_blocks p"
proof (induction p addr len i rule: free_range.induct)
  case (1 p addr len i)
  show ?case
  proof (cases "i < len \<and> addr + i < 0xFFFFFFFF - BLOCK_SIZE")
    case True
    then show ?thesis using 1 by (simp add: free_range_step)
  next
    case False
    then have "free_range p addr len i = p"
      unfolding free_range.simps [of p addr len i] by (rule if_not_P)
    then show ?thesis by simp
  qed
qed

text \<open>An available region that holds a page frees its block.\<close>

lemma free_range_frees:
  assumes "pmm_ok p" and "unat i + 4096 * k < unat len"
    and "unat addr + unat i + 4096 * k < 4294963199" and "b = (addr + i + of_nat (4096 * k)) div 4096"
    and "(addr + i) mod 4096 = 0" and "addr + i \<noteq> 0"
  shows "\<not> test_block (free_range p addr len i) b"
  using assms
proof (induction k arbitrary: p i)
  case 0
  have "unat (addr + i) = unat addr + unat i" using 0(3) by (intro unat_add_u32) simp
  then have go: "i < len" "addr + i < 0xFFFFFFFF - BLOCK_SIZE"
    using 0 by (simp_all add: word_less_nat_alt BLOCK_SIZE_def)
  have "b \<notin> used_set (free_block p (addr + i))"
    unfolding free_block_used [OF 0(1,6,5)] using 0(4) by simp
  then show ?case
    using free_range_frame [of "free_block p (addr + i)" addr len "i + BLOCK_SIZE"]
    by (auto simp: free_range_step [OF go] used_set_def)
next
  case (Suc k)
  have sum: "unat (addr + i) = unat addr + unat i" using Suc.prems(3) by (intro unat_add_u32) simp
  then have go: "i < len" "addr + i < 0xFFFFFFFF - BLOCK_SIZE"
    using Suc.prems by (simp_all add: word_less_nat_alt BLOCK_SIZE_def)
  have i: "unat (i + BLOCK_SIZE) = unat i + 4096"
    using Suc.prems(3) unat_add_u32 [of i 4096] by (simp add: BLOCK_SIZE_def)
  have a: "unat (addr + (i + BLOCK_SIZE)) = unat (addr + i) + 4096"
    using sum i Suc.prems(3) unat_add_u32 [of addr "i + BLOCK_SIZE"] by simp
  have "\<not> test_block (free_range (free_block p (addr + i)) addr len (i + BLOCK_SIZE)) b"
  proof (rule Suc.IH)
    show "pmm_ok (free_block p (addr + i))" using Suc.prems(1) by (rule inv_intros)
    show "unat (i + BLOCK_SIZE) + 4096 * k < unat len" using Suc.prems(2) i by simp
    show "unat addr + unat (i + BLOCK_SIZE) + 4096 * k < 4294963199" using Suc.prems(3) i by simp
    show "b = (addr + (i + BLOCK_SIZE) + of_nat (4096 * k)) div 4096"
      using Suc.prems(4) by (simp add: BLOCK_SIZE_def algebra_simps)
    have "unat (addr + (i + BLOCK_SIZE)) mod 4096 = unat ((addr + i) mod 4096)"
      using a by (simp add: unat_mod)
    then show "(addr + (i + BLOCK_SIZE)) mod 4096 = 0"
      unfolding Suc.prems(5) by (simp add: word_unat_eq_iff unat_mod)
    show "addr + (i + BLOCK_SIZE) \<noteq> 0" using a by (simp add: word_unat_eq_iff)
  qed
  then show ?case by (simp add: free_range_step [OF go])
qed

lemma lock_kernel_bound:
  "lock_kernel p kernel_end i = Some q \<Longrightarrow> test_block q b \<Longrightarrow> i mod 4096 = 0 \<Longrightarrow>
     test_block p b \<or> b * 4096 < kernel_end"
proof (induction p kernel_end i rule: lock_kernel.induct)
  case (1 p kernel_end i)
  show ?case
  proof (cases "i < kernel_end")
    case False
    then have "lock_kernel p kernel_end i = Some p"
      unfolding lock_kernel.simps [of p kernel_end i] by (rule if_not_P)
    then show ?thesis using 1 by simp
  next
    case True
    have step: "i + 4096 > i" "lock_kernel (set_block p (i div 4096)) kernel_end (i + 4096) = Some q"
      using 1(2) True by (simp_all add: lock_kernel.simps [of p kernel_end i] split: if_splits)
    have i: "i div 4096 * 4096 = i" using div_mult_mod_eq [of i 4096] 1(4) by simp
    have "(i + 4096) mod 4096 = 0"
      using 1(4) by (simp add: word_unat_eq_iff unat_mod unat_word_ariths mod_mod_cancel mod_add_eq)
    then have "test_block (set_block p (i div 4096)) b \<or> b * 4096 < kernel_end"
      using 1(1) [OF True step 1(3)] by simp
    then show ?thesis using i True by (auto simp: test_set_block)
  qed
qed

lemma lock_kernel_total:
  "kernel_end \<le> 0xFFFFF000 \<Longrightarrow>
     \<exists>q. lock_kernel p kernel_end i = Some q \<and> max_blocks q = max_blocks p \<and> bitmap q = bitmap p"
proof (induction p kernel_end i rule: lock_kernel.induct)
  case (1 p kernel_end i)
  show ?case
  proof (cases "i < kernel_end")
    case False
    then have "lock_kernel p kernel_end i = Some p"
      unfolding lock_kernel.simps [of p kernel_end i] by (rule if_not_P)
    then show ?thesis by simp
  next
    case True
    then have "unat i < 4294963200" using 1(2) by (simp add: word_less_nat_alt word_le_nat_alt)
    then have "i + 4096 > i" using unat_add_u32 [of i 4096] by (simp add: word_less_nat_alt)
    then show ?thesis using 1 True by (simp add: lock_kernel.simps [of p kernel_end i])
  qed
qed

lemma load_entries_last:
  assumes "unat a + 48 < 4294967296" and "le32 phys (unat a) = 20" and "le32 phys (unat a + 20) = 1"
    and "le32 phys (unat a + 12) \<noteq> 0"
  shows "load_entries phys p a (a + 24) = free_range p (le32 phys (unat a + 4)) (le32 phys (unat a + 12)) 0"
proof -
  have n: "unat (a + 24) = unat a + 24" "unat (a + 24 + 24) = unat a + 48"
    using assms(1) unat_add_u32 [of a 24] unat_add_u32 [of a 48] by (simp_all add: add.assoc)
  have neg: "\<not> a + 24 + MMAP_ENTRY_SIZE \<le> a + 24" "\<not> a + 24 \<le> a"
    unfolding MMAP_ENTRY_SIZE_def word_le_nat_alt n by linarith+
  have "load_entries phys p' (a + 24) (a + 24) = p'" for p'
    unfolding load_entries.simps [of phys p' "a + 24"] by (rule if_not_P [OF neg(1)])
  then show ?thesis
    using assms neg(2)
    by (simp add: load_entries.simps [of phys p a] MMAP_ENTRY_SIZE_def Let_def add.assoc word_gt_0)
qed

section \<open>A small concrete memory\<close>

definition small_pmm :: pmm where
  "small_pmm = \<lparr>bitmap = 0x200000, bm = (\<lambda>i. if i = 0 then 1 else 0), max_blocks = 32, used_blocks = 1\<rparr>"

lemma small_pmm_ok: "frame_ok small_pmm"
proof -
  have "used_set small_pmm = {0}"
  proof (rule set_eqI)
    fix b :: u32
    have "b = 0" if "b < 32" "unat b mod 32 = 0"
      using that by (simp add: word_less_nat_alt word_unat_eq_iff)
    then show "b \<in> used_set small_pmm \<longleftrightarrow> b \<in> {0}"
      by (auto simp: used_set_def test_block_iff small_pmm_def bit_1_iff)
  qed
  then show ?thesis
    by (simp add: frame_ok_def pmm_ok_def counts_def small_pmm_def test_block_iff)
qed

lemma small_pmm_alloc: "allocate_block small_pmm = (set_block small_pmm 1, 4096)"
proof -
  have "first_free_block small_pmm = 1" by code_simp
  then show ?thesis by (simp add: allocate_block_def small_pmm_def BLOCK_SIZE_def word_le_nat_alt)
qed

section \<open>Properties of the physical memory manager\<close>

text \<open>C6. The allocator contract: from a state with exact counters and block 0 reserved,
  \<open>allocate_block\<close> either returns the null pointer, changing nothing, and then every
  block of the full 32-block buckets is in use; or it returns a page-aligned address
  that was not taken and is now the only additional taken one.\<close>

theorem pmm_allocate_contract:
  assumes "frame_ok p" and "allocate_block p = (p', a)"
  shows "frame_ok p' \<and>
    (if a = 0 then p' = p \<and> (\<forall>i < unat (max_blocks p) div 32 * 32. test_block p (of_nat i))
     else a mod 4096 = 0 \<and> a \<notin> frame_taken p \<and> frame_taken p' = insert a (frame_taken p) \<and>
          used_blocks p' = used_blocks p + 1)"
proof -
  have ok: "pmm_ok p" using assms(1) by (simp add: frame_ok_def)
  have "\<forall>i < unat (max_blocks p) div 32 * 32. test_block p (of_nat i)" if "a = 0"
    using ok
  proof (rule allocate_block_cases)
    fix b assume b: "allocate_block p = (set_block p b, b * 4096)" "\<not> test_block p b"
      "b < max_blocks p"
    then have "p' = p" using pmm.alloc_fail [OF assms(1)] assms(2) that by simp
    then have "test_block p b" using b assms(2) ok test_set_block [of p b b] by (simp add: pmm_ok_def)
    then show ?thesis using b(2) by simp
  qed (simp add: buckets_def)
  moreover have "used_blocks p' = used_blocks p + 1" if "a \<noteq> 0"
    using ok
  proof (rule allocate_block_cases)
    fix b assume "allocate_block p = (set_block p b, b * 4096)" "\<not> test_block p b" "b < max_blocks p"
    then show ?thesis using assms(2) ok by (auto simp: set_block_def pmm_ok_def)
  qed (use assms(2) that in simp)
  ultimately show ?thesis
    using pmm.alloc_ok [OF assms] pmm.alloc_fail [OF assms(1)] pmm.alloc_fresh [OF assms]
      pmm.alloc_aligned [OF assms] assms(2) by simp
qed

theorem pmm_allocate_contract_witness:
  "frame_taken (set_block small_pmm 1) = insert 4096 (frame_taken small_pmm)"
  using pmm_allocate_contract [OF small_pmm_ok small_pmm_alloc] by simp




text \<open>\<open>initialize\<close> leaves every block of the memory in use with an exact counter; the loop
  that is written to lock the bitmap changes nothing.\<close>

lemma pmm_initialize_full:
  assumes "start_addr \<noteq> 0" and "BLOCK_SIZE \<le> sz"
  shows "used_set (initialize p start_addr sz) = {b. b < sz div BLOCK_SIZE} \<and>
    used_blocks (initialize p start_addr sz) = sz div BLOCK_SIZE \<and>
    allocate_block (initialize p start_addr sz) = (initialize p start_addr sz, 0)"
proof -
  let ?p = "initialize p start_addr sz"
  have ok: "pmm_ok ?p" using assms by (rule pmm_ok_initialize)
  have "allocate_block ?p = (?p, 0)"
    using ok
  proof (rule allocate_block_cases)
    fix b assume "b < max_blocks ?p" "\<not> test_block ?p b"
    then show ?thesis using initialized_used [OF assms(1), of b p sz] by (simp add: initialize_eq [OF assms])
  qed simp
  then show ?thesis using used_set_initialize [OF assms] by (simp add: initialize_eq [OF assms] initialized_def)
qed

lemma pmm_initialize_full_example:
  "allocate_block (initialize pmm0 0x200000 0x8000000) = (initialize pmm0 0x200000 0x8000000, 0)"
  using pmm_initialize_full [of "0x200000" "0x8000000" pmm0] by (simp add: BLOCK_SIZE_def)

text \<open>A memory map with one entry: an available region of a given size from 1 MiB.\<close>

definition one_region :: "mem \<Rightarrow> u32 \<Rightarrow> u32 \<Rightarrow> bool" where
  "one_region phys a len \<longleftrightarrow> a \<noteq> 0 \<and> unat a + 48 < 4294967296 \<and> le32 phys (unat a) = 20
     \<and> le32 phys (unat a + 4) = 0x100000 \<and> le32 phys (unat a + 12) = len \<and> le32 phys (unat a + 20) = 1 \<and> len \<noteq> 0"

lemma lock_kernel_keeps:
  "lock_kernel p kernel_end i = Some q \<Longrightarrow> (pmm_ok p \<longrightarrow> pmm_ok q) \<and> used_set p \<subseteq> used_set q"
proof (induction p kernel_end i rule: lock_kernel.induct)
  case (1 p kernel_end i)
  show ?case
  proof (cases "i < kernel_end")
    case False
    then have "lock_kernel p kernel_end i = Some p"
      unfolding lock_kernel.simps [of p kernel_end i] by (rule if_not_P)
    then show ?thesis using 1 by simp
  next
    case True
    then have step: "i + 4096 > i" "lock_kernel (set_block p (i div 4096)) kernel_end (i + 4096) = Some q"
      using 1(2) by (simp_all add: lock_kernel.simps [of p kernel_end i] split: if_splits)
    have "used_set p \<subseteq> used_set (set_block p (i div 4096))" by (auto simp: used_set_def test_set_block)
    then show ?thesis using 1(1) [OF True step] pmm_ok_set_block [of p "i div 4096"] by blast
  qed
qed

lemma load_one_region:
  "one_region phys a len \<Longrightarrow> load_memory_map phys p a 24 = set_block (free_range p 0x100000 len 0) 0"
  using load_entries_last [of a phys p] by (simp add: one_region_def load_memory_map_def)

text \<open>Of the memory behind the kernel image, start-up reserves nothing.\<close>

lemma boot_memory_frees:
  assumes map: "one_region phys a len" and ke: "0x100000 \<le> unat kernel_end" "kernel_end \<le> 0xFFFFF000"
    and sz: "4096 \<le> unat mem_size"
  shows "\<exists>q. boot_memory phys p a 24 kernel_end mem_size = Some q \<and> bitmap q = kernel_end \<and> frame_ok q
    \<and> max_blocks q = mem_size div 4096
    \<and> (\<forall>n. unat kernel_end \<le> 4096 * n \<and> 4096 * n < 0x100000 + unat len \<and> 4096 * n < 4294963199
          \<longrightarrow> \<not> test_block q (of_nat n))"
proof -
  let ?p = "initialize p kernel_end mem_size"
  let ?r = "free_range ?p 0x100000 len 0"
  let ?m = "load_memory_map phys ?p a 24"
  have nz: "kernel_end \<noteq> 0" using ke by auto
  have bs: "BLOCK_SIZE \<le> mem_size" using sz by (simp add: word_le_nat_alt BLOCK_SIZE_def)
  have ok: "pmm_ok ?p" using nz bs by (rule pmm_ok_initialize)
  have mb: "bitmap ?p = kernel_end" "max_blocks ?p = mem_size div 4096"
    by (simp_all add: initialize_eq [OF nz bs] initialized_def BLOCK_SIZE_def)
  have m: "?m = set_block ?r 0" using map by (rule load_one_region)
  then have fields: "bitmap ?m = kernel_end" "max_blocks ?m = mem_size div 4096" using mb by (simp_all add: free_range_fields)
  obtain q where q: "lock_kernel ?m kernel_end 0x100000 = Some q" "max_blocks q = max_blocks ?m" "bitmap q = bitmap ?m"
    using lock_kernel_total [OF ke(2), of ?m "0x100000"] by blast
  have rok: "pmm_ok ?r" using free_range_frame [of ?p "0x100000" len 0] ok by blast
  have "1 \<le> unat mem_size div 4096" using sz by (simp add: div_greater_zero_iff Suc_le_eq)
  then have "0 < mem_size div 4096" by (simp add: word_less_nat_alt unat_div)
  then have "test_block ?m 0" using rok mb by (simp add: m test_set_block pmm_ok_def free_range_fields)
  then have "0 \<in> used_set ?m" by (simp add: used_set_def)
  then have "frame_ok q" using lock_kernel_keeps [OF q(1)] rok by (auto simp: m frame_ok_def used_set_def intro: inv_intros)
  moreover have "\<not> test_block q (of_nat n)"
    if n: "unat kernel_end \<le> 4096 * n" "4096 * n < 0x100000 + unat len" "4096 * n < 4294963199" for n
  proof -
    have n20: "n < 1048576" "256 \<le> n" using n(1,3) ke(1) by linarith+
    then have un: "unat (of_nat n :: u32) = n" by (simp add: unat_of_nat_u32)
    have u4: "unat (4096 * (of_nat n :: u32)) = 4096 * n"
      using unat_mult_u32 [of 4096 "of_nat n"] un n20 by simp
    have "(of_nat n :: u32) * 4096 \<ge> kernel_end"
      unfolding word_le_nat_alt mult.commute [of "of_nat n" "4096 :: u32"] u4 by (rule n(1))
    moreover have "\<not> test_block ?r (of_nat n)"
    proof (rule free_range_frees [where k = "n - 256"])
      show "unat (0 :: u32) + 4096 * (n - 256) < unat len" using n(2) n20 by simp
      show "unat (0x100000 :: u32) + unat (0 :: u32) + 4096 * (n - 256) < 4294963199" using n(3) n20 by simp
      have "(0x100000 + 0 + of_nat (4096 * (n - 256)) :: u32) = 4096 * of_nat n"
        using n20(2) by (simp add: of_nat_diff algebra_simps)
      then show "(of_nat n :: u32) = (0x100000 + 0 + of_nat (4096 * (n - 256))) div 4096"
        using un by (simp add: word_unat_eq_iff unat_div u4)
    qed (use ok in simp_all)
    moreover have "(of_nat n :: u32) \<noteq> 0" using un n20 by (metis not_numeral_le_zero unat_0)
    ultimately show ?thesis
      using lock_kernel_bound [OF q(1), of "of_nat n"] by (auto simp: m test_set_block)
  qed
  ultimately show ?thesis using q fields by (auto simp: boot_memory_def)
qed

text \<open>Every free block of a full bucket is handed out by some later allocation.\<close>

lemma free_block_allocated:
  assumes "pmm_ok p" and "\<not> test_block p b" and "unat b < buckets p * 32"
  shows "\<exists>n. snd (allocate_block (fst (allocs allocate_block n p))) = b * 4096"
  using assms
proof (induction "unat (max_blocks p) - card (used_set p)" arbitrary: p rule: less_induct)
  case less
  show ?case
    using less.prems(1)
  proof (cases rule: allocate_block_cases)
    case fail
    from fail(2) [OF less.prems(3)] show ?thesis using less.prems(2) by simp
  next
    case (got c)
    show ?thesis
    proof (cases "c = b")
      case True
      then show ?thesis using got(1) by (intro exI [of _ 0]) simp
    next
      case False
      let ?p = "set_block p c"
      have us: "used_set ?p = insert c (used_set p)" "c \<notin> used_set p"
        using got less.prems(1) used_set_set_block [of p c] by (auto simp: used_set_def pmm_ok_def)
      have "used_set p \<subset> {x. x < max_blocks p}"
        using less.prems(1) got by (auto simp: used_set_def test_block_iff)
      then have "card (used_set p) < unat (max_blocks p)"
        using psubset_card_mono [of "{x. x < max_blocks p}" "used_set p"] by (simp add: card_below_u32)
      then have "unat (max_blocks ?p) - card (used_set ?p) < unat (max_blocks p) - card (used_set p)"
        using us by simp
      moreover have "\<not> test_block ?p b" "pmm_ok ?p" "unat b < buckets ?p * 32"
        using False less.prems by (auto simp: test_set_block buckets_def intro: inv_intros)
      ultimately obtain n where "snd (allocate_block (fst (allocs allocate_block n ?p))) = b * 4096"
        using less.hyps by blast
      then show ?thesis using got(1) by (intro exI [of _ "Suc n"]) (simp add: split_beta)
    qed
  qed
qed

text \<open>The boot sequence leaves the bitmap itself allocatable: when the memory map has one
  available region from 1 MiB that holds the page behind the kernel image, the block in which
  the bitmap was placed is free afterwards.\<close>

lemma boot_memory_bitmap_free:
  assumes "kernel_end mod 4096 = 0" and "0x100000 \<le> unat kernel_end" and "kernel_end < 0xFFFFE000"
    and "unat kernel_end + 4096 \<le> unat mem_size" and "a \<noteq> 0" and "unat a + 48 < 4294967296"
    and "le32 phys (unat a) = 20" and "le32 phys (unat a + 4) = 0x100000"
    and "unat kernel_end < 0x100000 + unat (le32 phys (unat a + 12))" and "le32 phys (unat a + 20) = 1"
  shows "\<exists>q. boot_memory phys p a 24 kernel_end mem_size = Some q \<and> bitmap q = kernel_end \<and>
    kernel_end div 4096 < max_blocks q \<and> \<not> test_block q (kernel_end div 4096)"
proof -
  have map: "one_region phys a (le32 phys (unat a + 12))"
    using assms(2,5-10) by (auto simp: one_region_def)
  have ke: "kernel_end \<le> 0xFFFFF000" "4096 \<le> unat mem_size" "unat kernel_end < 4294959104"
    using assms(3,4) by (simp_all add: word_less_nat_alt word_le_nat_alt)
  obtain q where q: "boot_memory phys p a 24 kernel_end mem_size = Some q" "bitmap q = kernel_end"
      "max_blocks q = mem_size div 4096"
    and free: "\<And>n. unat kernel_end \<le> 4096 * n \<Longrightarrow> 4096 * n < 0x100000 + unat (le32 phys (unat a + 12))
      \<Longrightarrow> 4096 * n < 4294963199 \<Longrightarrow> \<not> test_block q (of_nat n)"
    using boot_memory_frees [OF map assms(2) ke(1,2), of p] by blast
  have "unat kernel_end mod 4096 = 0" using arg_cong [OF assms(1), of unat] by (simp add: unat_mod)
  then have n: "4096 * (unat kernel_end div 4096) = unat kernel_end"
    using mult_div_mod_eq [of 4096 "unat kernel_end"] by simp
  have "unat kernel_end div 4096 = unat (kernel_end div 4096)" by (simp add: unat_div)
  then have w: "(of_nat (unat kernel_end div 4096) :: u32) = kernel_end div 4096"
    by (simp only: of_nat_unat ucast_id)
  have "\<not> test_block q (kernel_end div 4096)"
    using free [of "unat kernel_end div 4096"] n assms(9) ke(3) by (simp add: w)
  moreover have "(unat kernel_end + 4096) div 4096 \<le> unat mem_size div 4096"
    using assms(4) by (rule div_le_mono)
  then have "kernel_end div 4096 < mem_size div 4096" by (simp add: word_less_nat_alt unat_div)
  ultimately show ?thesis using q by simp
qed

lemma boot_memory_bitmap_free_example:
  "\<exists>q. boot_memory (\<lambda>i. mem_of [20, 0, 0, 0, 0, 0, 16, 0, 0, 0, 0, 0, 0, 0, 240, 7, 0, 0, 0, 0, 1, 0, 0, 0]
      (i - 65536)) pmm0 65536 24 0x200000 0x8000000 = Some q \<and>
      bitmap q = 0x200000 \<and> \<not> test_block q 512"
  using boot_memory_bitmap_free [of "0x200000" "0x8000000" 65536
      "\<lambda>i. mem_of [20, 0, 0, 0, 0, 0, 16, 0, 0, 0, 0, 0, 0, 0, 240, 7, 0, 0, 0, 0, 1, 0, 0, 0] (i - 65536)" pmm0]
  by (simp add: le32_def mem_of_def) blast

end
