(* ===== verification/KHeap.thy ===== *)
theory KHeap
  imports Prelude
begin

text \<open>
  The kernel heap, \<open>kernel/memory/kheap.cpp\<close>: a bump allocator between two 32-bit
  addresses, and the C entry points \<open>kmalloc\<close> and \<open>kfree\<close> with the out-of-memory path.
  The process removal that path calls is not part of the repository and is a parameter.
\<close>

section \<open>State and operations\<close>

record kheap =
  current_addr :: u32
  end_addr :: u32

definition kheap_initialize :: "u32 \<Rightarrow> u32 \<Rightarrow> kheap" where
  "kheap_initialize start_addr sz = \<lparr>current_addr = start_addr, end_addr = start_addr + sz\<rparr>"

definition align8 :: "u32 \<Rightarrow> u32" where
  "align8 a = (if a mod 8 \<noteq> 0 then a + (8 - a mod 8) else a)"

text \<open>\<open>None\<close> as cleared range means the request failed; otherwise the range \<open>memset\<close> zeroes.\<close>

definition kheap_malloc :: "kheap \<Rightarrow> u32 \<Rightarrow> kheap \<times> u32 \<times> (u32 \<times> u32) option" where
  "kheap_malloc h sz =
     (let h1 = h\<lparr>current_addr := align8 (current_addr h)\<rparr> in
      if current_addr h1 + sz > end_addr h1 then (h1, 0, None)
      else (h1\<lparr>current_addr := current_addr h1 + sz\<rparr>, current_addr h1, Some (current_addr h1, sz)))"

definition kheap_free :: "kheap \<Rightarrow> u32 \<Rightarrow> kheap" where
  "kheap_free h ptr = h"

datatype 'a outcome = Panicked | Returned 'a

definition kmalloc :: "(u32 \<Rightarrow> kheap \<Rightarrow> kheap) \<Rightarrow> u32 option \<Rightarrow> kheap \<Rightarrow> u32 \<Rightarrow> (kheap \<times> u32) outcome" where
  "kmalloc remove_process current_pid h sz =
     (let (h1, ptr, _) = kheap_malloc h sz in
      if ptr = 0 then
        (let (h2, ptr2) =
           (case current_pid of
              Some pid \<Rightarrow> if pid \<noteq> 0 then (let (h', q, _) = kheap_malloc (remove_process pid h1) sz in (h', q))
                          else (h1, 0)
            | None \<Rightarrow> (h1, 0))
         in if ptr2 = 0 then Panicked else Returned (h2, ptr2))
      else Returned (h1, ptr))"

definition kfree :: "kheap \<Rightarrow> u32 \<Rightarrow> kheap" where
  "kfree h ptr = kheap_free h ptr"

section \<open>Alignment and bounds\<close>

lemma unat_align8:
  assumes "unat a + 7 < 4294967296"
  shows "unat (align8 a) = (unat a + 7) div 8 * 8"
proof -
  have m: "unat (a mod 8) = unat a mod 8" by (simp add: unat_mod)
  show ?thesis
  proof (cases "a mod 8 = 0")
    case True
    then have "unat a mod 8 = 0" using m by simp
    then have "(unat a + 7) div 8 * 8 = unat a" by presburger
    then show ?thesis using True by (simp add: align8_def)
  next
    case False
    have "unat (8 - a mod 8) = 8 - unat a mod 8"
      using m unat_sub_u32 [of "a mod 8" 8] by (simp add: word_le_nat_alt)
    moreover have nz: "unat a mod 8 \<noteq> 0" using False m by (metis unat_eq_0)
    ultimately have "unat (align8 a) = unat a + (8 - unat a mod 8)"
      using False assms unat_add_u32 [of a "8 - a mod 8"] by (simp add: align8_def)
    moreover have "n + (8 - n mod 8) = (n + 7) div 8 * 8" if "n mod 8 \<noteq> 0" for n :: nat
      using that by presburger
    ultimately show ?thesis using nz by simp
  qed
qed

lemma align8_facts:
  assumes "unat a + 7 < 4294967296"
  shows "unat a \<le> unat (align8 a)" and "unat (align8 a) \<le> unat a + 7" and "unat (align8 a) mod 8 = 0"
proof -
  have "n \<le> (n + 7) div 8 * 8" "(n + 7) div 8 * 8 \<le> n + 7" for n :: nat by presburger+
  then show "unat a \<le> unat (align8 a)" "unat (align8 a) \<le> unat a + 7" "unat (align8 a) mod 8 = 0"
    unfolding unat_align8 [OF assms] by simp_all
qed

text \<open>
  The heap is well-formed when its end leaves room for rounding up; a request is benign
  when adding it to the end does not wrap.
\<close>

definition kheap_ok :: "kheap \<Rightarrow> bool" where
  "kheap_ok h \<longleftrightarrow> unat (end_addr h) + 7 < 4294967296 \<and> current_addr h \<noteq> 0 \<and>
     unat (current_addr h) \<le> (unat (end_addr h) + 7) div 8 * 8 \<and> unat (current_addr h) + 7 < 4294967296"

definition benign :: "kheap \<Rightarrow> u32 \<Rightarrow> bool" where
  "benign h sz \<longleftrightarrow> unat (end_addr h) + 14 + unat sz < 4294967296"

lemma kheap_malloc_end [simp]: "end_addr (fst (kheap_malloc h sz)) = end_addr h"
  by (simp add: kheap_malloc_def Let_def)

lemma kheap_malloc_cases:
  assumes "kheap_ok h" and "benign h sz"
  obtains (fail) h' where "kheap_malloc h sz = (h', 0, None)" "current_addr h' = align8 (current_addr h)"
      "end_addr h' = end_addr h" "unat (end_addr h) < unat (align8 (current_addr h)) + unat sz"
  | (ok) h' where
      "kheap_malloc h sz = (h', align8 (current_addr h), Some (align8 (current_addr h), sz))"
      "unat (current_addr h') = unat (align8 (current_addr h)) + unat sz" "end_addr h' = end_addr h"
      "unat (align8 (current_addr h)) + unat sz \<le> unat (end_addr h)" "align8 (current_addr h) \<noteq> 0"
proof -
  let ?a = "align8 (current_addr h)"
  have a: "unat (current_addr h) \<le> unat ?a" "unat ?a \<le> unat (current_addr h) + 7"
    using assms(1) by (auto simp: kheap_ok_def intro: align8_facts)
  have "unat ?a + unat sz < 4294967296" using assms a(2) by (auto simp: kheap_ok_def benign_def)
  then have sum: "unat (?a + sz) = unat ?a + unat sz" by (rule unat_add_u32)
  have "?a \<noteq> 0"
  proof
    assume "?a = 0"
    then have "current_addr h = 0" using a(1) by (simp add: word_unat_eq_iff)
    then show False using assms(1) by (simp add: kheap_ok_def)
  qed
  show thesis
  proof (cases "?a + sz > end_addr h")
    case True
    then show thesis
      using fail [of "h\<lparr>current_addr := ?a\<rparr>"] sum by (simp add: kheap_malloc_def word_less_nat_alt)
  next
    case False
    then show thesis
      using ok [of "h\<lparr>current_addr := ?a + sz\<rparr>"] sum \<open>?a \<noteq> 0\<close>
      by (simp add: kheap_malloc_def word_less_nat_alt)
  qed
qed

section \<open>Runs of requests\<close>

fun mallocs :: "kheap \<Rightarrow> u32 list \<Rightarrow> kheap \<times> (u32 \<times> u32) list" where
  "mallocs h [] = (h, [])"
| "mallocs h (sz # szs) =
     (let (h1, ptr, _) = kheap_malloc h sz; (h2, rs) = mallocs h1 szs in (h2, (ptr, sz) # rs))"

definition granted :: "(u32 \<times> u32) list \<Rightarrow> (u32 \<times> u32) list" where
  "granted rs = filter (\<lambda>(p, _). p \<noteq> 0) rs"

definition in_heap :: "nat \<Rightarrow> nat \<Rightarrow> u32 \<times> u32 \<Rightarrow> bool" where
  "in_heap lo hi r \<longleftrightarrow> lo \<le> unat (fst r) \<and> unat (fst r) + unat (snd r) \<le> hi \<and> unat (fst r) mod 8 = 0"

definition before :: "u32 \<times> u32 \<Rightarrow> u32 \<times> u32 \<Rightarrow> bool" where
  "before r s \<longleftrightarrow> unat (fst r) + unat (snd r) \<le> unat (fst s)"

lemma kheap_ok_malloc:
  assumes "kheap_ok h" and "benign h sz" and "kheap_malloc h sz = (h', r)"
  shows "kheap_ok h' \<and> end_addr h' = end_addr h \<and> unat (current_addr h) \<le> unat (current_addr h')"
proof -
  let ?a = "align8 (current_addr h)"
  have c: "unat (current_addr h) + 7 < 4294967296" using assms(1) by (simp add: kheap_ok_def)
  note a = align8_facts [OF c]
  have top: "(unat (end_addr h) + 7) div 8 * 8 \<le> unat (end_addr h) + 7" by simp
  show ?thesis
    using assms(1,2)
  proof (cases rule: kheap_malloc_cases)
    case (fail h1)
    have "(unat (current_addr h) + 7) div 8 \<le> ((unat (end_addr h) + 7) div 8 * 8 + 7) div 8"
      using assms(1) by (intro div_le_mono) (simp add: kheap_ok_def)
    also have "\<dots> = (unat (end_addr h) + 7) div 8" by simp
    finally have "unat ?a \<le> (unat (end_addr h) + 7) div 8 * 8" using unat_align8 [OF c] by simp
    moreover have "?a \<noteq> 0" using a(1) assms(1) by (auto simp: kheap_ok_def word_unat_eq_iff)
    moreover have "unat ?a + 7 < 4294967296"
      using calculation(1) top assms(2) unfolding benign_def by linarith
    ultimately show ?thesis using fail assms a(1) by (auto simp: kheap_ok_def)
  next
    case (ok h1)
    have "unat (end_addr h) \<le> (unat (end_addr h) + 7) div 8 * 8" by presburger
    then have "unat (current_addr h1) \<le> (unat (end_addr h) + 7) div 8 * 8" using ok(2,4) by linarith
    moreover have "unat (current_addr h1) + 7 < 4294967296"
      using ok(2,4) assms(1) unfolding kheap_ok_def by linarith
    moreover have "current_addr h1 \<noteq> 0" using ok(2,5) by (auto simp: word_unat_eq_iff)
    ultimately show ?thesis using ok assms a(1) by (auto simp: kheap_ok_def)
  qed
qed

lemma mallocs_regions:
  assumes "kheap_ok h" and "\<forall>sz \<in> set szs. benign h sz" and "mallocs h szs = (h', rs)"
  shows "kheap_ok h' \<and> end_addr h' = end_addr h \<and> unat (current_addr h) \<le> unat (current_addr h') \<and>
    (\<forall>r \<in> set (granted rs). in_heap (unat (current_addr h)) (unat (end_addr h)) r) \<and>
    sorted_wrt before (granted rs)"
  using assms
proof (induction szs arbitrary: h rs)
  case Nil
  then show ?case by (simp add: granted_def)
next
  case (Cons sz szs)
  obtain h1 ptr z where 1: "kheap_malloc h sz = (h1, ptr, z)" by (metis prod_cases3)
  obtain rs' where 2: "mallocs h1 szs = (h', rs')" and rs: "rs = (ptr, sz) # rs'"
    using Cons.prems(3) 1 by (auto split: prod.splits)
  have b: "benign h sz" using Cons.prems(2) by simp
  have ok1: "kheap_ok h1 \<and> end_addr h1 = end_addr h \<and> unat (current_addr h) \<le> unat (current_addr h1)"
    using kheap_ok_malloc [OF Cons.prems(1) b 1] .
  then have IH: "kheap_ok h' \<and> end_addr h' = end_addr h1 \<and> unat (current_addr h1) \<le> unat (current_addr h') \<and>
    (\<forall>r \<in> set (granted rs'). in_heap (unat (current_addr h1)) (unat (end_addr h1)) r) \<and>
    sorted_wrt before (granted rs')"
    using Cons.prems(2) 2 by (intro Cons.IH) (auto simp: benign_def)
  then have up: "\<forall>r \<in> set (granted rs'). in_heap (unat (current_addr h)) (unat (end_addr h)) r"
    using ok1 by (auto simp: in_heap_def)
  have c: "unat (current_addr h) + 7 < 4294967296" using Cons.prems(1) by (simp add: kheap_ok_def)
  show ?case
    using Cons.prems(1) b
  proof (cases rule: kheap_malloc_cases)
    case (fail h2)
    then have "ptr = 0" using 1 by simp
    then have "granted rs = granted rs'" by (simp add: rs granted_def)
    then show ?thesis using IH up ok1 by simp
  next
    case (ok h2)
    then have p: "ptr = align8 (current_addr h)" "h2 = h1" using 1 by simp_all
    then have g: "granted rs = (ptr, sz) # granted rs'" using ok(5) by (simp add: rs granted_def)
    have "in_heap (unat (current_addr h)) (unat (end_addr h)) (ptr, sz)"
      using align8_facts [OF c] ok(4) p by (simp add: in_heap_def)
    moreover have "\<forall>r \<in> set (granted rs'). before (ptr, sz) r"
      using IH ok(2) p by (auto simp: in_heap_def before_def)
    ultimately show ?thesis using IH up ok1 g by simp
  qed
qed

section \<open>Properties of the kernel heap\<close>

text \<open>C25. Any run of requests whose sizes do not wrap the address space: every pointer handed
  out is 8-byte aligned and its block lies between the start and the end of the heap, and the
  blocks come one after the other, so no two of them overlap.\<close>

theorem kheap_blocks_disjoint:
  assumes "kheap_ok (kheap_initialize start_addr sz)"
    and "\<forall>n \<in> set szs. benign (kheap_initialize start_addr sz) n"
    and "mallocs (kheap_initialize start_addr sz) szs = (h', rs)"
  shows "(\<forall>r \<in> set (granted rs). in_heap (unat start_addr) (unat (start_addr + sz)) r) \<and>
    sorted_wrt before (granted rs)"
  using mallocs_regions [OF assms] by (simp add: kheap_initialize_def)

theorem kheap_blocks_disjoint_witness:
  "sorted_wrt before [(0x400000, 10), (0x400010, 3), (0x400018 :: u32, 8 :: u32)]"
proof -
  have "mallocs (kheap_initialize 0x400000 0x400000) [10, 0x500000, 3, 8] =
      (\<lparr>current_addr = 0x400020, end_addr = 0x800000\<rparr>,
       [(0x400000, 10), (0, 0x500000), (0x400010, 3), (0x400018, 8)])"
    by code_simp
  then have "sorted_wrt before (granted [(0x400000, 10), (0, 0x500000), (0x400010, 3), (0x400018, 8)])"
    using kheap_blocks_disjoint [of "0x400000" "0x400000" "[10, 0x500000, 3, 8]"]
    by (simp add: kheap_ok_def benign_def kheap_initialize_def)
  then show ?thesis by (simp add: granted_def)
qed

text \<open>A request whose size wraps the 32-bit address is granted: for every size of at least
  \<open>2 ^ 32 - current_addr\<close> the heap returns a block and moves its pointer back behind it, so the
  next block overlaps memory already handed out.\<close>

lemma kheap_malloc_wraps:
  assumes "kheap_ok h" and "current_addr h mod 8 = 0" and "4294967296 \<le> unat (current_addr h) + unat sz"
    and "current_addr h \<le> end_addr h"
  shows "fst (snd (kheap_malloc h sz)) = current_addr h \<and>
    current_addr (fst (kheap_malloc h sz)) < current_addr h"
proof -
  have "unat (current_addr h + sz) = unat (current_addr h) + unat sz - 4294967296"
    using assms(3) unat_word_ariths(1) [of "current_addr h" sz] unat_u32_lt [of "current_addr h"]
      unat_u32_lt [of sz] by (simp add: le_mod_geq)
  then have "unat (current_addr h + sz) < unat (current_addr h)"
    using unat_u32_lt [of sz] assms(3) by linarith
  then have "current_addr h + sz < current_addr h" by (simp add: word_less_nat_alt)
  then show ?thesis
    using assms(2,4) by (auto simp: kheap_malloc_def align8_def Let_def not_less)
qed

lemma kheap_malloc_wraps_example:
  "fst (snd (kheap_malloc (kheap_initialize 0x400000 0x400000) 0xFFFFFFF8)) = 0x400000"
  using kheap_malloc_wraps [of "kheap_initialize 0x400000 0x400000" "0xFFFFFFF8"]
  by (simp add: kheap_ok_def kheap_initialize_def)

end
