(* ===== verification/VMM.thy ===== *)
theory VMM
  imports PMM
begin

text \<open>
  Paging and address spaces, \<open>kernel/memory/paging.cpp\<close>, \<open>kernel/memory/vmm.cpp\<close> and
  the copy-on-write branch of the page-fault handler in \<open>kernel/arch/i386/isr.cpp\<close>.
  Physical memory is \<open>ram\<close>, the 32-bit word at an address, which the kernel reaches
  through its identity map; the frame allocator is the one of theory PMM, its bitmap kept
  apart from \<open>ram\<close>. The control registers \<open>cr0\<close> and \<open>cr3\<close> are fields of the state; TLB
  invalidation has no counterpart, since the model has no TLB.
\<close>

unbundle bit_operations_syntax

section \<open>State\<close>

record vmm =
  frames :: pmm
  ram :: "u32 \<Rightarrow> u32"
  page_directory :: u32
  kernel_directory :: u32
  aslr_seed :: u32
  cr0 :: u32
  cr3 :: u32

definition PAGE_SIZE :: u32 where "PAGE_SIZE = 4096"
definition PAGE_TABLE_ENTRIES :: nat where "PAGE_TABLE_ENTRIES = 1024"
definition KERNEL_SPACE_ENTRIES :: nat where "KERNEL_SPACE_ENTRIES = 768"

text \<open>\<open>memset(t, 0, 4096)\<close> and \<open>memcpy(dst, src, 4096)\<close> on whole pages.\<close>

definition zero_page :: "(u32 \<Rightarrow> u32) \<Rightarrow> u32 \<Rightarrow> u32 \<Rightarrow> u32" where
  "zero_page m t a = (if a - t < PAGE_SIZE then 0 else m a)"

definition copy_page :: "(u32 \<Rightarrow> u32) \<Rightarrow> u32 \<Rightarrow> u32 \<Rightarrow> u32 \<Rightarrow> u32" where
  "copy_page m dst src a = (if a - dst < PAGE_SIZE then m (src + (a - dst)) else m a)"

definition slot :: "u32 \<Rightarrow> u32 \<Rightarrow> u32" where
  "slot t i = t + 4 * i"

definition present :: "u32 \<Rightarrow> bool" where
  "present e \<longleftrightarrow> e AND 1 \<noteq> 0"

definition table_of :: "u32 \<Rightarrow> u32" where
  "table_of e = e AND NOT 0xFFF"

definition dir_idx :: "u32 \<Rightarrow> u32" where
  "dir_idx v = drop_bit 22 v"

definition table_idx :: "u32 \<Rightarrow> u32" where
  "table_idx v = drop_bit 12 v AND 0x3FF"

definition alloc_frame :: "vmm \<Rightarrow> vmm \<times> u32" where
  "alloc_frame s = (let (p, a) = allocate_block (frames s) in (s\<lparr>frames := p\<rparr>, a))"

section \<open>Paging\<close>

definition switch_page_directory :: "vmm \<Rightarrow> u32 \<Rightarrow> vmm" where
  "switch_page_directory s d = s\<lparr>cr3 := d\<rparr>"

text \<open>No allocation is checked for the null pointer here: on exhaustion page 0 is written.\<close>

definition identity_table :: "u32 \<Rightarrow> (u32 \<Rightarrow> u32) \<Rightarrow> u32 \<Rightarrow> u32 \<Rightarrow> u32" where
  "identity_table j m t = fold (\<lambda>i m. m(slot t (of_nat i) := ((j * 1024 + of_nat i) * 4096) OR 3)) [0..<1024] m"

definition identity_step :: "nat \<Rightarrow> vmm \<Rightarrow> vmm" where
  "identity_step j s =
     (let (s1, t) = alloc_frame s;
          m1 = zero_page (ram s1) t;
          m2 = identity_table (of_nat j) m1 t
      in s1\<lparr>ram := m2(slot (page_directory s1) (of_nat j) := t OR 3)\<rparr>)"

definition paging_initialize :: "vmm \<Rightarrow> vmm" where
  "paging_initialize s =
     (let (s1, d) = alloc_frame s;
          s2 = s1\<lparr>page_directory := d, ram := zero_page (ram s1) d\<rparr>;
          s3 = fold identity_step [0..<16] s2;
          s4 = switch_page_directory s3 (page_directory s3)
      in s4\<lparr>cr0 := cr0 s4 OR 0x80000000\<rparr>)"

definition map_page :: "vmm \<Rightarrow> u32 \<Rightarrow> u32 \<Rightarrow> bool \<Rightarrow> bool \<Rightarrow> vmm" where
  "map_page s virtual_addr physical_addr user rw =
     (let di = slot (page_directory s) (dir_idx virtual_addr);
          flags = (if user then 7 else 3);
          (s1, table) =
            (if \<not> present (ram s di)
             then let (s1, t) = alloc_frame s
                  in (s1\<lparr>ram := (zero_page (ram s1) t)(di := t OR flags)\<rparr>, t)
             else (s, table_of (ram s di)));
          ti = slot table (table_idx virtual_addr);
          m1 = (ram s1)(ti := table_of physical_addr OR flags)
      in s1\<lparr>ram := (if rw then m1 else m1(ti := m1 ti AND NOT 2))\<rparr>)"

section \<open>Address spaces\<close>

definition get_random_offset :: "vmm \<Rightarrow> vmm \<times> u32" where
  "get_random_offset s =
     (let seed = (aslr_seed s * 1103515245 + 12345) AND 0x7FFFFFFF
      in (s\<lparr>aslr_seed := seed\<rparr>, seed mod 256 * 0x10000))"

definition vmm_initialize :: "vmm \<Rightarrow> vmm" where
  "vmm_initialize s = s\<lparr>kernel_directory := page_directory s\<rparr>"

definition free_page_table :: "vmm \<Rightarrow> u32 \<Rightarrow> vmm" where
  "free_page_table s t = (if t \<noteq> 0 then s\<lparr>frames := free_block (frames s) t\<rparr> else s)"

definition allocate_page_table :: "vmm \<Rightarrow> vmm \<times> u32" where
  "allocate_page_table s = alloc_frame s"

fun free_tables :: "vmm \<Rightarrow> u32 \<Rightarrow> nat \<Rightarrow> nat \<Rightarrow> vmm" where
  "free_tables s d i 0 = s"
| "free_tables s d i (Suc k) =
     (let e = ram s (slot d (of_nat i)) in
      free_tables (if present e then free_page_table s (table_of e) else s) d (Suc i) k)"

definition destroy_address_space :: "vmm \<Rightarrow> u32 \<Rightarrow> vmm" where
  "destroy_address_space s d =
     (if d = 0 \<or> d = kernel_directory s then s
      else let s1 = free_tables s d KERNEL_SPACE_ENTRIES (PAGE_TABLE_ENTRIES - KERNEL_SPACE_ENTRIES)
           in s1\<lparr>frames := free_block (frames s1) d\<rparr>)"

text \<open>The two copy loops return whether every table could be allocated.\<close>

fun copy_kernel :: "vmm \<Rightarrow> u32 \<Rightarrow> nat \<Rightarrow> nat \<Rightarrow> vmm \<times> bool" where
  "copy_kernel s d i 0 = (s, True)"
| "copy_kernel s d i (Suc k) =
     (let e = ram s (slot (kernel_directory s) (of_nat i)) in
      if present e then
        (let (s1, t) = alloc_frame s in
         if t = 0 then (s1, False)
         else copy_kernel (s1\<lparr>ram := (copy_page (ram s1) t (table_of e))
                (slot d (of_nat i) := t OR (e AND 0xFFF))\<rparr>) d (Suc i) k)
      else copy_kernel s d (Suc i) k)"

definition create_address_space :: "vmm \<Rightarrow> vmm \<times> u32" where
  "create_address_space s =
     (if kernel_directory s = 0 then (s, 0)
      else let (s1, d) = alloc_frame s in
        if d = 0 then (s1, 0)
        else let (s2, complete) = copy_kernel (s1\<lparr>ram := zero_page (ram s1) d\<rparr>) d 0 KERNEL_SPACE_ENTRIES
             in if complete then (s2, d) else (destroy_address_space s2 d, 0))"

definition cow_entry :: "u32 \<Rightarrow> u32" where
  "cow_entry e = (if present e then table_of e OR ((e AND 0xFFF AND NOT 2) OR push_bit 9 1) else 0)"

definition cow_table :: "(u32 \<Rightarrow> u32) \<Rightarrow> u32 \<Rightarrow> u32 \<Rightarrow> u32 \<Rightarrow> u32" where
  "cow_table m t src = fold (\<lambda>j m. if present (m (slot src (of_nat j)))
       then m(slot t (of_nat j) := cow_entry (m (slot src (of_nat j)))) else m)
     [0..<PAGE_TABLE_ENTRIES] (zero_page m t)"

fun clone_user :: "vmm \<Rightarrow> u32 \<Rightarrow> u32 \<Rightarrow> nat \<Rightarrow> nat \<Rightarrow> vmm \<times> bool" where
  "clone_user s src d i 0 = (s, True)"
| "clone_user s src d i (Suc k) =
     (let e = ram s (slot src (of_nat i)) in
      if present e then
        (let (s1, t) = alloc_frame s in
         if t = 0 then (s1, False)
         else clone_user (s1\<lparr>ram := (cow_table (ram s1) t (table_of e))
                (slot d (of_nat i) := t OR (e AND 0xFFF))\<rparr>) src d (Suc i) k)
      else clone_user s src d (Suc i) k)"

definition clone_address_space :: "vmm \<Rightarrow> u32 \<Rightarrow> vmm \<times> u32" where
  "clone_address_space s src =
     (if src = 0 \<or> src = kernel_directory s then (s, 0)
      else let (s1, d) = create_address_space s in
        if d = 0 then (s1, 0)
        else let (s2, complete) = clone_user s1 src d KERNEL_SPACE_ENTRIES
                   (PAGE_TABLE_ENTRIES - KERNEL_SPACE_ENTRIES)
             in if complete then (s2, d) else (destroy_address_space s2 d, 0))"

definition switch_address_space :: "vmm \<Rightarrow> u32 \<Rightarrow> vmm" where
  "switch_address_space s d =
     (if d = 0 then s
      else if d = kernel_directory s \<and> kernel_directory s = 0 then s
      else switch_page_directory s d)"

definition map_page_in_space :: "vmm \<Rightarrow> u32 \<Rightarrow> u32 \<Rightarrow> u32 \<Rightarrow> bool \<Rightarrow> bool \<Rightarrow> bool \<Rightarrow> vmm" where
  "map_page_in_space s d virtual_addr physical_addr user rw executable =
     (if d = 0 \<or> virtual_addr AND 0xFFF \<noteq> 0 \<or> physical_addr AND 0xFFF \<noteq> 0 then s
      else if unat (dir_idx virtual_addr) \<ge> PAGE_TABLE_ENTRIES then s
      else let di = slot d (dir_idx virtual_addr);
               flags = (if user then 7 else 3) AND (if rw then NOT 0 else NOT 2);
               (s1, table) =
                 (if \<not> present (ram s di)
                  then let (s1, t) = alloc_frame s in
                    if t = 0 then (s1, 0)
                    else (s1\<lparr>ram := (zero_page (ram s1) t)(di := t OR (if user then 7 else 3))\<rparr>, t)
                  else (s, table_of (ram s di)))
           in if \<not> present (ram s di) \<and> table = 0 then s1
              else s1\<lparr>ram := (ram s1)(slot table (table_idx virtual_addr) := table_of physical_addr OR flags)\<rparr>)"

definition unmap_page :: "vmm \<Rightarrow> u32 \<Rightarrow> u32 \<Rightarrow> vmm" where
  "unmap_page s d virtual_addr =
     (if d = 0 \<or> virtual_addr AND 0xFFF \<noteq> 0 then s
      else if unat (dir_idx virtual_addr) \<ge> PAGE_TABLE_ENTRIES
            \<or> \<not> present (ram s (slot d (dir_idx virtual_addr))) then s
      else s\<lparr>ram := (ram s)(slot (table_of (ram s (slot d (dir_idx virtual_addr)))) (table_idx virtual_addr) := 0)\<rparr>)"

definition get_physical_address :: "vmm \<Rightarrow> u32 \<Rightarrow> u32 \<Rightarrow> u32" where
  "get_physical_address s d virtual_addr =
     (if d = 0 then 0
      else if unat (dir_idx virtual_addr) \<ge> PAGE_TABLE_ENTRIES
            \<or> \<not> present (ram s (slot d (dir_idx virtual_addr))) then 0
      else let e = ram s (slot (table_of (ram s (slot d (dir_idx virtual_addr)))) (table_idx virtual_addr))
           in if present e then table_of e OR (virtual_addr AND 0xFFF) else 0)"

definition allocate_page :: "vmm \<Rightarrow> u32 \<Rightarrow> u32 \<Rightarrow> bool \<Rightarrow> bool \<Rightarrow> vmm \<times> u32" where
  "allocate_page s d virtual_addr user rw =
     (if d = 0 then (s, 0)
      else let (s1, page) = alloc_frame s in
        if page = 0 then (s1, 0)
        else (map_page_in_space s1 d virtual_addr page user rw False, page))"

definition free_page :: "vmm \<Rightarrow> u32 \<Rightarrow> u32 \<Rightarrow> vmm" where
  "free_page s d virtual_addr =
     (if d = 0 then s
      else let physical_addr = get_physical_address s d virtual_addr in
        if physical_addr \<noteq> 0
        then unmap_page (s\<lparr>frames := free_block (frames s) physical_addr\<rparr>) d virtual_addr
        else s)"

text \<open>
  The copy-on-write branch of the page-fault handler; the result says whether the fault
  was handled, everything else ends in the kernel panic.
\<close>

definition cow_fault :: "vmm \<Rightarrow> u32 \<Rightarrow> u32 \<Rightarrow> vmm \<times> bool" where
  "cow_fault s err_code faulting_address =
     (let di = slot (cr3 s) (dir_idx faulting_address) in
      if err_code AND 1 \<noteq> 0 \<and> err_code AND 2 \<noteq> 0 \<and> cr3 s \<noteq> 0 \<and> dir_idx faulting_address < 1024
         \<and> present (ram s di)
      then let ti = slot (table_of (ram s di)) (table_idx faulting_address);
               e = ram s ti;
               flags = e AND 0xFFF
           in if present e \<and> flags AND push_bit 9 1 \<noteq> 0
              then let (s1, new_page) = alloc_frame s in
                if new_page \<noteq> 0
                then (s1\<lparr>ram := (copy_page (ram s1) new_page (table_of e))
                        (ti := new_page OR (flags AND NOT (push_bit 9 1)) OR 2)\<rparr>, True)
                else (s1, False)
              else (s, False)
      else (s, False))"

section \<open>Page arithmetic\<close>

definition aligned :: "u32 \<Rightarrow> bool" where
  "aligned t \<longleftrightarrow> t AND 0xFFF = 0"

lemma page_mask: "(0xFFF :: u32) = mask 12"
  by (simp add: mask_eq_exp_minus_1)

lemma and_page_mask: "a AND 0xFFF = a mod (4096 :: u32)"
  by (simp add: page_mask flip: take_bit_eq_mask) (simp add: take_bit_eq_mod)

lemma aligned_mod: "aligned t \<longleftrightarrow> unat t mod 4096 = 0"
  by (simp add: aligned_def and_page_mask word_unat_eq_iff unat_mod)

lemma unat_table_of: "unat (table_of a) = unat a div 4096 * 4096"
proof -
  have "table_of a = push_bit 12 (drop_bit 12 a)"
    unfolding table_of_def page_mask by (rule bit_word_eqI) (auto simp: bit_simps)
  moreover have "unat a div 4096 * 4096 < 4294967296"
    using unat_u32_lt [of a] by (meson div_times_less_eq_dividend le_less_trans)
  ultimately show ?thesis
    using unat_mult_u32 [of "drop_bit 12 a" 4096]
    by (simp add: push_bit_eq_mult unat_drop_bit_eq drop_bit_eq_div unat_div)
qed

lemma aligned_table_of [simp]: "aligned (table_of a)"
  by (simp add: aligned_mod unat_table_of)

lemma table_of_aligned: "aligned t \<Longrightarrow> table_of t = t"
  by (simp add: aligned_mod word_unat_eq_iff unat_table_of mod_eq_0_iff_dvd)

lemma in_page_iff:
  assumes "aligned t"
  shows "a - t < 4096 \<longleftrightarrow> table_of a = t"
proof -
  obtain T where T: "unat t = 4096 * T" using assms by (auto simp: aligned_mod elim: dvdE)
  have "unat (a - t) < 4096 \<longleftrightarrow> unat a div 4096 = T"
  proof (cases "t \<le> a")
    case True
    then have "4096 * T \<le> unat a" "unat (a - t) = unat a - 4096 * T"
      using T unat_sub_u32 [OF True] by (simp_all add: word_le_nat_alt)
    then show ?thesis by linarith
  next
    case False
    then have lt: "unat a < 4096 * T" using T by (simp add: word_le_nat_alt)
    have "4096 * T < 4294967296" using T unat_u32_lt [of t] by simp
    then have "Suc T \<le> 1048576" by simp
    then have "4096 * T + 4096 \<le> 4294967296" by simp
    moreover have "unat (a - t) = unat a + 4294967296 - 4096 * T"
      using False T by (simp add: unat_sub_if_size word_size word_le_nat_alt)
    ultimately have "\<not> unat (a - t) < 4096" by linarith
    moreover have "unat a div 4096 \<noteq> T" using lt by auto
    ultimately show ?thesis by blast
  qed
  then show ?thesis using T by (simp add: word_less_nat_alt word_unat_eq_iff unat_table_of)
qed

lemma table_of_add: "aligned t \<Longrightarrow> k < 4096 \<Longrightarrow> table_of (t + k) = t"
  using in_page_iff [of t "t + k"] by simp

lemma slot_less: "i < 1024 \<Longrightarrow> 4 * i < (4096 :: u32)"
  using unat_mult_u32 [of 4 i] by (simp add: word_less_nat_alt)

lemma table_of_slot: "aligned t \<Longrightarrow> i < 1024 \<Longrightarrow> table_of (slot t i) = t"
  unfolding slot_def by (intro table_of_add slot_less)

lemma slot_inj:
  assumes "aligned t" "aligned u" "i < 1024" "j < 1024"
  shows "slot t i = slot u j \<longleftrightarrow> t = u \<and> i = j"
proof
  assume eq: "slot t i = slot u j"
  then have "t = u" using table_of_slot assms by metis
  moreover have "4 * i = 4 * j" using eq \<open>t = u\<close> by (simp add: slot_def)
  then have "unat (4 * i) = unat (4 * j)" by simp
  then have "i = j"
    using assms(3,4) unat_mult_u32 [of 4 i] unat_mult_u32 [of 4 j]
    by (simp add: word_less_nat_alt word_unat_eq_iff)
  ultimately show "t = u \<and> i = j" by simp
qed simp

lemma zero_page_apply: "aligned t \<Longrightarrow> zero_page m t a = (if table_of a = t then 0 else m a)"
  by (simp add: zero_page_def PAGE_SIZE_def in_page_iff)

lemma copy_page_apply:
  "aligned dst \<Longrightarrow> copy_page m dst src a = (if table_of a = dst then m (src + (a - dst)) else m a)"
  by (simp add: copy_page_def PAGE_SIZE_def in_page_iff)

lemma dir_idx_less [simp]: "dir_idx v < 1024"
proof -
  have "unat v div 4194304 < 1024" using unat_u32_lt [of v] by (simp add: div_less_iff_less_mult)
  then show ?thesis
    by (simp add: word_less_nat_alt dir_idx_def drop_bit_eq_div unat_div)
qed

lemma table_idx_less [simp]: "table_idx v < 1024"
proof -
  have "table_idx v = take_bit 10 (drop_bit 12 v)"
    unfolding table_idx_def by (simp add: take_bit_eq_mask mask_eq_exp_minus_1)
  then have "unat (table_idx v) < 1024" by (simp add: take_bit_eq_mod unat_mod)
  then show ?thesis by (simp add: word_less_nat_alt)
qed

lemma index_page: "dir_idx v = dir_idx w \<and> table_idx v = table_idx w \<longleftrightarrow> table_of v = table_of w"
proof -
  have m: "(0x3FF :: u32) = mask 10" by (simp add: mask_eq_exp_minus_1)
  show ?thesis
  proof
    assume eq: "dir_idx v = dir_idx w \<and> table_idx v = table_idx w"
    show "table_of v = table_of w"
    proof (rule bit_word_eqI)
      fix n assume n: "n < LENGTH(32)"
      have "bit v n = bit w n" if "22 \<le> n"
        using arg_cong [OF conjunct1 [OF eq], of "\<lambda>x. bit x (n - 22)"] that
        by (simp add: dir_idx_def bit_simps)
      moreover have "bit v n = bit w n" if "12 \<le> n" "n < 22"
      proof -
        have "n - 12 < 10" using that by linarith
        then show ?thesis
          using arg_cong [OF conjunct2 [OF eq], of "\<lambda>x. bit x (n - 12)"] that
          by (simp add: table_idx_def m bit_simps)
      qed
      ultimately have "bit v n = bit w n" if "12 \<le> n" using that by (cases "22 \<le> n") simp_all
      then show "bit (table_of v) n = bit (table_of w) n"
        using n by (auto simp: table_of_def page_mask bit_simps not_less)
    qed
  next
    assume eq: "table_of v = table_of w"
    have b: "bit v n = bit w n" if "12 \<le> n" for n
      using arg_cong [OF eq, of "\<lambda>x. bit x n"] that
      by (cases "n < 32") (auto simp: table_of_def page_mask bit_simps dest: bit_imp_le_length)
    then show "dir_idx v = dir_idx w \<and> table_idx v = table_idx w"
      by (auto simp: dir_idx_def table_idx_def m bit_simps intro!: bit_word_eqI)
  qed
qed

lemma entry_parts:
  assumes "aligned t" and "f AND 0xFFF = f"
  shows "table_of (t OR f) = t" and "(t OR f) AND 0xFFF = f" and "present (t OR f) \<longleftrightarrow> present f"
proof -
  have t: "bit t n \<Longrightarrow> 12 \<le> n" for n
    using arg_cong [OF assms(1) [unfolded aligned_def], of "\<lambda>x. bit x n"]
    by (auto simp: page_mask bit_simps not_less dest: bit_imp_le_length)
  have f: "bit f n \<Longrightarrow> n < 12" for n
    using arg_cong [OF assms(2), of "\<lambda>x. bit x n"]
    by (auto simp: page_mask bit_simps)
  show "table_of (t OR f) = t"
    unfolding table_of_def page_mask
    by (rule bit_word_eqI) (auto simp: bit_simps not_less dest: t f)
  show "(t OR f) AND 0xFFF = f"
    unfolding page_mask by (rule bit_word_eqI) (auto simp: bit_simps not_less dest: t f)
  have "(t OR f) AND 1 = f AND 1"
    by (rule bit_word_eqI) (use t [of 0] in \<open>auto simp: bit_simps\<close>)
  then show "present (t OR f) \<longleftrightarrow> present f" by (simp add: present_def)
qed

section \<open>Well-formed address spaces\<close>

text \<open>
  A directory is well-formed when it and the page tables it points to are frames that are
  taken, and no two of its entries share a table.
\<close>

abbreviation taken :: "vmm \<Rightarrow> u32 set" where
  "taken s \<equiv> frame_taken (frames s)"

definition entry :: "vmm \<Rightarrow> u32 \<Rightarrow> u32 \<Rightarrow> u32" where
  "entry s d i = ram s (slot d i)"

definition space_ok :: "vmm \<Rightarrow> u32 \<Rightarrow> bool" where
  "space_ok s d \<longleftrightarrow> frame_ok (frames s) \<and> d \<noteq> 0 \<and> aligned d \<and> d \<in> taken s \<and>
     (\<forall>i < 1024. present (entry s d i) \<longrightarrow> table_of (entry s d i) \<in> taken s \<and> table_of (entry s d i) \<noteq> d) \<and>
     (\<forall>i < 1024. \<forall>j < 1024. present (entry s d i) \<longrightarrow> present (entry s d j) \<longrightarrow> i \<noteq> j \<longrightarrow>
        table_of (entry s d i) \<noteq> table_of (entry s d j))"

lemma unat_dir_idx [simp]: "\<not> 1024 \<le> unat (dir_idx v)"
  using dir_idx_less [of v] by (simp add: word_less_nat_alt)

lemma get_physical_address_eq:
  "d \<noteq> 0 \<Longrightarrow> get_physical_address s d v =
     (let e = entry s d (dir_idx v); f = ram s (slot (table_of e) (table_idx v))
      in if present e \<and> present f then table_of f OR (v AND 0xFFF) else 0)"
  by (simp add: get_physical_address_def entry_def PAGE_TABLE_ENTRIES_def Let_def)

lemma present_bit: "present e \<longleftrightarrow> bit e 0"
  by (simp add: present_def bit_0 and_one_eq odd_iff_mod_2_eq_one)

lemma not_present_0 [simp]: "\<not> present 0"
  by (simp add: present_def)

lemma alloc_frame_cases:
  assumes "frame_ok (frames s)"
  obtains (fail) "alloc_frame s = (s, 0)"
    | (got) p t where "alloc_frame s = (s\<lparr>frames := p\<rparr>, t)" "t \<noteq> 0" "aligned t" "t \<notin> taken s"
        "frame_taken p = insert t (taken s)" "frame_ok p"
proof -
  obtain p t where a: "allocate_block (frames s) = (p, t)" by (cases "allocate_block (frames s)")
  show thesis
  proof (cases "t = 0")
    case True
    then have "p = frames s" using pmm.alloc_fail [OF assms] a by simp
    then show thesis using True a by (intro fail) (simp add: alloc_frame_def)
  next
    case False
    have "aligned t"
      using arg_cong [OF pmm.alloc_aligned [OF assms a], of unat] by (simp add: aligned_mod unat_mod)
    then show thesis
      using False a pmm.alloc_fresh [OF assms a False] pmm.alloc_ok [OF assms a]
      by (intro got [of p t]) (simp_all add: alloc_frame_def)
  qed
qed

text \<open>Writing one entry of a table that the directory points to changes one page.\<close>

lemma write_pte:
  fixes e :: u32
  assumes ok: "space_ok s d" and pr: "present (entry s d (dir_idx v))"
  defines "s' \<equiv> s\<lparr>ram := (ram s)(slot (table_of (entry s d (dir_idx v))) (table_idx v) := e)\<rparr>"
  shows "space_ok s' d" and "i < 1024 \<Longrightarrow> entry s' d i = entry s d i"
    and "get_physical_address s' d v' =
      (if table_of v' = table_of v then if present e then table_of e OR (v' AND 0xFFF) else 0
       else get_physical_address s d v')"
proof -
  let ?T = "table_of (entry s d (dir_idx v))"
  have d: "d \<noteq> 0" "aligned d" and T: "?T \<noteq> d" using ok pr by (auto simp: space_ok_def)
  have e: "entry s' d i = entry s d i" if "i < 1024" for i
    using slot_inj [of d ?T i "table_idx v"] that d T by (simp add: entry_def s'_def)
  then show "i < 1024 \<Longrightarrow> entry s' d i = entry s d i" .
  show "space_ok s' d"
    using ok e unfolding space_ok_def by (simp add: s'_def)
  show "get_physical_address s' d v' =
      (if table_of v' = table_of v then if present e then table_of e OR (v' AND 0xFFF) else 0
       else get_physical_address s d v')"
  proof (cases "present (entry s d (dir_idx v'))")
    case False
    moreover from this have "table_of v' \<noteq> table_of v" using index_page [of v' v] pr by auto
    ultimately show ?thesis using d e by (simp add: get_physical_address_eq)
  next
    case True
    let ?T' = "table_of (entry s d (dir_idx v'))"
    have "?T' = ?T \<longleftrightarrow> dir_idx v' = dir_idx v"
      using ok True pr unfolding space_ok_def by (metis dir_idx_less)
    then have "slot ?T' (table_idx v') = slot ?T (table_idx v) \<longleftrightarrow> table_of v' = table_of v"
      using slot_inj [of ?T' ?T "table_idx v'" "table_idx v"] index_page [of v' v] by auto
    then show ?thesis using d e True by (simp add: get_physical_address_eq Let_def) (simp add: s'_def)
  qed
qed

text \<open>Giving an empty directory slot a fresh zeroed table changes no translation.\<close>

lemma add_table:
  fixes f :: u32
  assumes ok: "space_ok s d" and np: "\<not> present (entry s d (dir_idx v))"
    and a: "alloc_frame s = (s\<lparr>frames := p\<rparr>, t)" "t \<noteq> 0" "aligned t" "t \<notin> taken s"
      "frame_taken p = insert t (taken s)" "frame_ok p"
    and f: "f AND 0xFFF = f" "present f"
  defines "s' \<equiv> s\<lparr>frames := p, ram := (zero_page (ram s) t)(slot d (dir_idx v) := t OR f)\<rparr>"
  shows "space_ok s' d" and "entry s' d (dir_idx v) = t OR f"
    and "get_physical_address s' d v' = get_physical_address s d v'"
proof -
  have d: "d \<noteq> 0" "aligned d" "d \<in> taken s" using ok by (auto simp: space_ok_def)
  then have td: "t \<noteq> d" using a by auto
  have e: "entry s' d i = (if i = dir_idx v then t OR f else entry s d i)" if "i < 1024" for i
    using that d td slot_inj [of d d i "dir_idx v"] table_of_slot [of d i] a(3)
    by (simp add: entry_def s'_def zero_page_apply)
  then show "entry s' d (dir_idx v) = t OR f" by simp
  note parts = entry_parts [OF a(3) f(1)]
  have old: "table_of (entry s d i) \<noteq> t" if "i < 1024" "present (entry s d i)" for i
    using ok that a(4) unfolding space_ok_def by blast
  have new: "taken s' = insert t (taken s)" "frame_ok (frames s')" using a by (simp_all add: s'_def)
  show "space_ok s' d"
    unfolding space_ok_def
  proof (intro conjI allI impI)
    fix i :: u32 assume i: "i < 1024" "present (entry s' d i)"
    show "table_of (entry s' d i) \<in> taken s'"
      using ok e [OF i(1)] i new parts unfolding space_ok_def by (auto split: if_splits)
    show "table_of (entry s' d i) \<noteq> d"
      using ok e [OF i(1)] i td parts unfolding space_ok_def by (auto split: if_splits)
    fix j :: u32 assume j: "j < 1024" "present (entry s' d j)" "i \<noteq> j"
    show "table_of (entry s' d i) \<noteq> table_of (entry s' d j)"
      using ok e [OF i(1)] e [OF j(1)] i j old old [symmetric] parts unfolding space_ok_def
      by (cases "i = dir_idx v"; cases "j = dir_idx v") simp_all
  qed (use d new in auto)
  show "get_physical_address s' d v' = get_physical_address s d v'"
  proof (cases "dir_idx v' = dir_idx v")
    case True
    have "table_of (slot t (table_idx v')) = t" using a(3) by (simp add: table_of_slot)
    moreover have "slot t (table_idx v') \<noteq> slot d (dir_idx v)"
      using slot_inj [of t d "table_idx v'" "dir_idx v"] a(3) d td by simp
    ultimately have "ram s' (slot t (table_idx v')) = 0"
      using a(3) by (simp add: s'_def zero_page_apply)
    then show ?thesis using d np e True parts by (simp add: get_physical_address_eq)
  next
    case False
    show ?thesis
    proof (cases "present (entry s d (dir_idx v'))")
      case pr: True
      let ?T = "table_of (entry s d (dir_idx v'))"
      have "?T \<noteq> d" using ok pr by (simp add: space_ok_def)
      then have "slot ?T (table_idx v') \<noteq> slot d (dir_idx v)"
        using slot_inj [of ?T d "table_idx v'" "dir_idx v"] d by simp
      then have "ram s' (slot ?T (table_idx v')) = ram s (slot ?T (table_idx v'))"
        using a(3) old [OF _ pr] by (simp add: s'_def zero_page_apply table_of_slot)
      then show ?thesis using d e False pr by (simp add: get_physical_address_eq)
    qed (use d e False in \<open>simp add: get_physical_address_eq\<close>)
  qed
qed

text \<open>Taking a fresh frame and filling it changes no translation either.\<close>

lemma fresh_frame:
  assumes ok: "space_ok s d" and a: "t \<notin> taken s" "frame_taken p = insert t (taken s)" "frame_ok p"
    and m: "\<forall>a. table_of a \<noteq> t \<longrightarrow> m a = ram s a"
  defines "s' \<equiv> s\<lparr>frames := p, ram := m\<rparr>"
  shows "space_ok s' d" and "i < 1024 \<Longrightarrow> entry s' d i = entry s d i"
    and "get_physical_address s' d v' = get_physical_address s d v'"
proof -
  have d: "d \<noteq> 0" "aligned d" "d \<in> taken s" using ok by (auto simp: space_ok_def)
  then have "d \<noteq> t" using a by auto
  then have e: "entry s' d i = entry s d i" if "i < 1024" for i
    using m [rule_format, of "slot d i"] that d by (simp add: entry_def s'_def table_of_slot)
  then show "i < 1024 \<Longrightarrow> entry s' d i = entry s d i" .
  show "space_ok s' d"
    using ok e a unfolding space_ok_def by (simp add: s'_def)
  show "get_physical_address s' d v' = get_physical_address s d v'"
  proof (cases "present (entry s d (dir_idx v'))")
    case True
    let ?T = "table_of (entry s d (dir_idx v'))"
    have "?T \<in> taken s" using ok True by (simp add: space_ok_def)
    then have "table_of (slot ?T (table_idx v')) \<noteq> t" using a by (auto simp: table_of_slot)
    then show ?thesis using d e m by (simp add: get_physical_address_eq) (simp add: s'_def)
  qed (use d e in \<open>simp add: get_physical_address_eq\<close>)
qed

section \<open>Creating an address space\<close>

definition kernel_ok :: "vmm \<Rightarrow> bool" where
  "kernel_ok s \<longleftrightarrow> space_ok s (kernel_directory s)"

lemma of_nat_index: "i < 1024 \<Longrightarrow> (of_nat i :: u32) < 1024"
  by (simp add: word_less_nat_alt unat_of_nat_u32)

lemma of_nat_index_inj:
  assumes "i < 1024" and "j < 1024"
  shows "(of_nat i :: u32) = of_nat j \<longleftrightarrow> i = j"
proof -
  have "unat (of_nat i :: u32) = i" "unat (of_nat j :: u32) = j"
    using assms by (simp_all add: unat_of_nat_u32 del: unsigned_of_nat)
  then show ?thesis by metis
qed

lemma copy_page_slot: "aligned t \<Longrightarrow> i < 1024 \<Longrightarrow> copy_page m t src (slot t i) = m (slot src i)"
  by (simp add: copy_page_apply table_of_slot) (simp add: slot_def)

text \<open>
  Both copy loops have one shape: walk the slots \<open>i\<close> to \<open>i + k\<close> of a directory \<open>src\<close>,
  give every present slot a fresh frame and let \<open>fill\<close> write the new table.
\<close>

fun copy_tables ::
  "((u32 \<Rightarrow> u32) \<Rightarrow> u32 \<Rightarrow> u32 \<Rightarrow> u32 \<Rightarrow> u32) \<Rightarrow> u32 \<Rightarrow> vmm \<Rightarrow> u32 \<Rightarrow> nat \<Rightarrow> nat \<Rightarrow> vmm \<times> bool" where
  "copy_tables fill src s d i 0 = (s, True)"
| "copy_tables fill src s d i (Suc k) =
     (let e = entry s src (of_nat i) in
      if present e then
        (let (s1, t) = alloc_frame s in
         if t = 0 then (s1, False)
         else copy_tables fill src (s1\<lparr>ram := (fill (ram s1) t (table_of e))
                (slot d (of_nat i) := t OR (e AND 0xFFF))\<rparr>) d (Suc i) k)
      else copy_tables fill src s d (Suc i) k)"

lemma alloc_frame_fields:
  "alloc_frame s = (s1, t) \<Longrightarrow> kernel_directory s1 = kernel_directory s"
  by (auto simp: alloc_frame_def split: prod.splits)

lemma copy_kernel_tables: "copy_kernel s d i k = copy_tables copy_page (kernel_directory s) s d i k"
  by (induction k arbitrary: s i) (auto simp: Let_def entry_def alloc_frame_fields split: prod.split)

lemma clone_user_tables: "clone_user s src d i k = copy_tables cow_table src s d i k"
  by (induction k arbitrary: s i) (auto simp: Let_def entry_def split: prod.split)

text \<open>What such a loop achieves: the set \<open>T\<close> of new frames, whose entries are \<open>g\<close> of the old ones.\<close>

definition fills :: "((u32 \<Rightarrow> u32) \<Rightarrow> u32 \<Rightarrow> u32 \<Rightarrow> u32 \<Rightarrow> u32) \<Rightarrow> (u32 \<Rightarrow> u32) \<Rightarrow> bool" where
  "fills fill g \<longleftrightarrow> (\<forall>m t src. aligned t \<and> aligned src \<and> t \<noteq> src \<longrightarrow>
     (\<forall>a. table_of a \<noteq> t \<longrightarrow> fill m t src a = m a) \<and>
     (\<forall>i < 1024. fill m t src (slot t i) = g (m (slot src i))))"

lemma fillsD:
  assumes "fills fill g" and "aligned t" and "aligned src" and "t \<noteq> src"
  shows "table_of a \<noteq> t \<Longrightarrow> fill m t src a = m a"
    and "i < 1024 \<Longrightarrow> fill m t src (slot t i) = g (m (slot src i))"
  using assms unfolding fills_def by blast+

definition copied :: "u32 \<Rightarrow> (u32 \<Rightarrow> u32) \<Rightarrow> vmm \<Rightarrow> vmm \<Rightarrow> u32 \<Rightarrow> nat \<Rightarrow> nat \<Rightarrow> u32 set \<Rightarrow> bool" where
  "copied src g s s' d i k T \<longleftrightarrow>
     taken s' = taken s \<union> T \<and> T \<inter> taken s = {} \<and> frame_ok (frames s') \<and>
     kernel_directory s' = kernel_directory s \<and>
     card T = card {j \<in> {i..<i + k}. present (entry s src (of_nat j))} \<and>
     (\<forall>a. table_of a \<in> taken s \<longrightarrow> table_of a \<noteq> d \<longrightarrow> ram s' a = ram s a) \<and>
     (\<forall>j < 1024. j \<notin> {i..<i + k} \<or> \<not> present (entry s src (of_nat j)) \<longrightarrow>
        entry s' d (of_nat j) = entry s d (of_nat j)) \<and>
     (\<forall>j \<in> {i..<i + k}. present (entry s src (of_nat j)) \<longrightarrow> present (entry s' d (of_nat j)) \<and>
        table_of (entry s' d (of_nat j)) \<in> T \<and>
        (\<forall>a < 1024. ram s' (slot (table_of (entry s' d (of_nat j))) a) =
           g (ram s (slot (table_of (entry s src (of_nat j))) a))))"

lemma copiedD:
  assumes "copied src g s s' d i k T" and "j \<in> {i..<i + k}" and "present (entry s src (of_nat j))"
  shows "present (entry s' d (of_nat j))" and "table_of (entry s' d (of_nat j)) \<in> T"
    and "a < 1024 \<Longrightarrow> ram s' (slot (table_of (entry s' d (of_nat j))) a) =
      g (ram s (slot (table_of (entry s src (of_nat j))) a))"
  using assms unfolding copied_def by blast+

text \<open>One round of the loop: the new table at \<open>t\<close> is entered into slot \<open>i\<close> of the directory \<open>d\<close>.\<close>

definition installs :: "u32 \<Rightarrow> (u32 \<Rightarrow> u32) \<Rightarrow> vmm \<Rightarrow> vmm \<Rightarrow> u32 \<Rightarrow> nat \<Rightarrow> u32 \<Rightarrow> bool" where
  "installs src g s s2 d i t \<longleftrightarrow>
     aligned t \<and> t \<notin> taken s \<and> taken s2 = insert t (taken s) \<and> frame_ok (frames s2) \<and>
     kernel_directory s2 = kernel_directory s \<and>
     (\<forall>a. table_of a \<in> taken s \<longrightarrow> table_of a \<noteq> d \<longrightarrow> ram s2 a = ram s a) \<and>
     (\<forall>j < 1024. entry s2 d (of_nat j) = (if j = i then t OR (entry s src (of_nat i) AND 0xFFF) else entry s d (of_nat j))) \<and>
     (\<forall>a < 1024. ram s2 (slot t a) = g (ram s (slot (table_of (entry s src (of_nat i))) a)))"

lemma installs_same:
  "installs src g s s2 d i t \<Longrightarrow> table_of a \<in> taken s \<Longrightarrow> table_of a \<noteq> d \<Longrightarrow> ram s2 a = ram s a"
  by (simp add: installs_def)

text \<open>What a copy loop relies on in the directory it reads and the one it writes.\<close>

definition copyable :: "u32 \<Rightarrow> vmm \<Rightarrow> u32 \<Rightarrow> bool" where
  "copyable src s d \<longleftrightarrow> space_ok s src \<and> d \<in> taken s \<and> aligned d \<and> d \<noteq> src \<and>
     (\<forall>j < 1024. present (entry s src (of_nat j)) \<longrightarrow> table_of (entry s src (of_nat j)) \<noteq> d)"

lemma copyableD:
  assumes "copyable src s d"
  shows "frame_ok (frames s)" and "aligned src" and "src \<in> taken s"
    and "j < 1024 \<Longrightarrow> present (entry s src (of_nat j)) \<Longrightarrow> table_of (entry s src (of_nat j)) \<in> taken s"
    and "j < 1024 \<Longrightarrow> present (entry s src (of_nat j)) \<Longrightarrow> table_of (entry s src (of_nat j)) \<noteq> d"
    and "d \<in> taken s" and "aligned d" and "d \<noteq> src" and "space_ok s src"
  using assms of_nat_index by (auto simp: copyable_def space_ok_def)

lemma installs_entry_src:
  assumes "installs src g s s2 d i t" and "copyable src s d" and "j < 1024"
  shows "entry s2 src j = entry s src j"
  using installs_same [OF assms(1), of "slot src j"] assms(3) copyableD [OF assms(2)] by (simp add: entry_def table_of_slot)

lemma installs_copyable:
  assumes "installs src g s s2 d i t" and "copyable src s d"
  shows "copyable src s2 d"
proof -
  have tk: "taken s2 = insert t (taken s)" "frame_ok (frames s2)" using assms(1) by (simp_all add: installs_def)
  have "space_ok s2 src" unfolding space_ok_def
    using copyableD(9) [OF assms(2)] installs_entry_src [OF assms] tk unfolding space_ok_def by simp
  moreover have "entry s2 src (of_nat j) = entry s src (of_nat j)" if "j < 1024" for j
    using installs_entry_src [OF assms of_nat_index [OF that]] .
  ultimately show ?thesis using assms(2) tk unfolding copyable_def by simp
qed

lemma new_table_installs:
  assumes fill: "fills fill g" and c: "copyable src s d" and i: "i < 1024" and e: "present (entry s src (of_nat i))"
    and t: "aligned t" "t \<notin> taken s" "frame_taken p = insert t (taken s)" "frame_ok p"
  shows "installs src g s (s\<lparr>frames := p, ram := (fill (ram s) t (table_of (entry s src (of_nat i))))
      (slot d (of_nat i) := t OR (entry s src (of_nat i) AND 0xFFF))\<rparr>) d i t"
proof -
  let ?e = "entry s src (of_nat i)"
  have td: "t \<noteq> d" "t \<noteq> table_of ?e" using t(2) copyableD(4,6) [OF c] i e by auto
  note fl = fillsD [OF fill t(1) aligned_table_of td(2)]
  note d = copyableD(7) [OF c] of_nat_index [OF i]
  have keep: "a \<noteq> slot d (of_nat i) \<and> table_of a \<noteq> t" if "table_of a \<in> taken s" "table_of a \<noteq> d" for a
    using that t(2) table_of_slot [OF d] by auto
  have "slot d (of_nat j) = slot d (of_nat i) \<longleftrightarrow> j = i" "table_of (slot d (of_nat j)) \<noteq> t" if "j < 1024" for j
    using slot_inj [OF d(1,1) of_nat_index [OF that] d(2)] of_nat_index_inj [OF that i] td(1)
      table_of_slot [OF d(1) of_nat_index [OF that]] by simp_all
  moreover have "slot t a \<noteq> slot d (of_nat i)" if "a < 1024" for a
    using slot_inj [OF t(1) d(1) that d(2)] td(1) by simp
  ultimately show ?thesis using keep t fl by (simp add: installs_def entry_def)
qed

lemma copied_skip:
  assumes "copied src g s s' d (Suc i) k T" and "\<not> present (entry s src (of_nat i))"
  shows "copied src g s s' d i (Suc k) T"
proof -
  have set: "{i..<i + Suc k} = insert i {Suc i..<Suc i + k}" by auto
  have "{j \<in> {i..<i + Suc k}. present (entry s src (of_nat j))} = {j \<in> {Suc i..<Suc i + k}. present (entry s src (of_nat j))}"
    using assms(2) unfolding set by auto
  then show ?thesis using assms unfolding copied_def set by auto
qed

text \<open>The slots behind \<open>i\<close> are those of the remaining rounds, slot \<open>i\<close> is that of the first.\<close>

lemma copied_later:
  assumes ins: "installs src g s s2 d i t" and c: "copyable src s d" and rest: "copied src g s2 s' d (Suc i) k T"
    and j: "j \<in> {Suc i..<Suc i + k}" "j < 1024" "present (entry s src (of_nat j))"
  shows "present (entry s' d (of_nat j)) \<and> table_of (entry s' d (of_nat j)) \<in> T \<and>
    (\<forall>a < 1024. ram s' (slot (table_of (entry s' d (of_nat j))) a) = g (ram s (slot (table_of (entry s src (of_nat j))) a)))"
proof -
  have eq: "entry s2 src (of_nat j) = entry s src (of_nat j)" using installs_entry_src [OF ins c of_nat_index [OF j(2)]] .
  have "ram s2 (slot (table_of (entry s src (of_nat j))) a) = ram s (slot (table_of (entry s src (of_nat j))) a)" if "a < 1024" for a
    by (rule installs_same [OF ins])
      (simp_all only: table_of_slot [OF aligned_table_of that] copyableD(4,5) [OF c j(2,3)] not_False_eq_True)
  then show ?thesis using copiedD [OF rest j(1)] j(3) eq by simp
qed

lemma copied_first:
  assumes ins: "installs src g s s2 d i t" and d: "t \<noteq> d" and rest: "copied src g s2 s' d (Suc i) k T"
    and i: "i < 1024" "present (entry s src (of_nat i))"
  shows "present (entry s' d (of_nat i)) \<and> table_of (entry s' d (of_nat i)) = t \<and>
    (\<forall>a < 1024. ram s' (slot t a) = g (ram s (slot (table_of (entry s src (of_nat i))) a)))"
proof -
  let ?e = "entry s src (of_nat i)"
  have t: "aligned t" "t \<in> taken s2" using ins by (simp_all add: installs_def)
  have fl: "(?e AND 0xFFF) AND 0xFFF = ?e AND 0xFFF" "present (?e AND 0xFFF) \<longleftrightarrow> present ?e"
    unfolding present_bit page_mask by (auto simp: and.assoc bit_simps)
  have "entry s' d (of_nat i) = t OR (?e AND 0xFFF)" using rest ins i(1) unfolding copied_def installs_def by auto
  moreover have "ram s' (slot t a) = ram s2 (slot t a)" if "a < 1024" for a
    using rest t d that unfolding copied_def by (simp add: table_of_slot)
  ultimately show ?thesis using entry_parts [OF t(1) fl(1)] fl(2) i(2) ins by (simp add: installs_def)
qed

lemma copied_insert:
  assumes ins: "installs src g s s2 d i t" and c: "copyable src s d" and e: "present (entry s src (of_nat i))"
    and b: "i + Suc k \<le> 1024" and rest: "copied src g s2 s' d (Suc i) k T"
  shows "copied src g s s' d i (Suc k) (insert t T)"
proof -
  have set: "{i..<i + Suc k} = insert i {Suc i..<Suc i + k}" by auto
  have t: "t \<notin> taken s" "taken s2 = insert t (taken s)" using ins by (simp_all add: installs_def)
  then have td: "t \<noteq> d" and tT: "t \<notin> T" "T \<inter> taken s = {}" using copyableD(6) [OF c] rest by (auto simp: copied_def)
  have src: "entry s2 src (of_nat j) = entry s src (of_nat j)" if "j < 1024" for j
    using installs_entry_src [OF ins c of_nat_index [OF that]] .
  have "{j \<in> {i..<i + Suc k}. present (entry s src (of_nat j))} =
      insert i {j \<in> {Suc i..<Suc i + k}. present (entry s2 src (of_nat j))}"
    using e src b unfolding set by auto
  then have card: "card (insert t T) = card {j \<in> {i..<i + Suc k}. present (entry s src (of_nat j))}"
    using rest tT(1) unfolding copied_def by simp
  have other: "entry s' d (of_nat j) = entry s d (of_nat j)"
    if "j < 1024" "j \<notin> {i..<i + Suc k} \<or> \<not> present (entry s src (of_nat j))" for j
  proof -
    have "entry s' d (of_nat j) = entry s2 d (of_nat j)" using rest that src [OF that(1)] unfolding copied_def set by auto
    then show ?thesis using ins that e by (auto simp: installs_def)
  qed
  have slots: "present (entry s' d (of_nat j)) \<and> table_of (entry s' d (of_nat j)) \<in> insert t T \<and>
      (\<forall>a < 1024. ram s' (slot (table_of (entry s' d (of_nat j))) a) = g (ram s (slot (table_of (entry s src (of_nat j))) a)))"
    if "j \<in> {i..<i + Suc k}" "present (entry s src (of_nat j))" for j
  proof (cases "j = i")
    case True
    then show ?thesis using copied_first [OF ins td rest] e b by simp
  next
    case False
    then show ?thesis using copied_later [OF ins c rest, of j] that b by auto
  qed
  have "frame_ok (frames s')" "kernel_directory s' = kernel_directory s" "taken s' = taken s \<union> insert t T"
    "\<forall>a. table_of a \<in> taken s \<longrightarrow> table_of a \<noteq> d \<longrightarrow> ram s' a = ram s a"
    using rest ins t(2) unfolding copied_def installs_def by auto
  then show ?thesis using card other slots tT t(1) unfolding copied_def by auto
qed

lemma copy_tables_copied:
  assumes "fills fill g" and "space_ok s src" and "d \<in> taken s" and "aligned d" and "d \<noteq> src"
    and "\<forall>j < 1024. present (entry s src (of_nat j)) \<longrightarrow> table_of (entry s src (of_nat j)) \<noteq> d"
    and "copy_tables fill src s d i k = (s', True)" and "i + k \<le> 1024"
  shows "\<exists>T. copied src g s s' d i k T"
proof -
  have "copyable src s d" using assms(2-6) by (simp add: copyable_def)
  then show ?thesis
    using assms(7,8)
  proof (induction k arbitrary: s i)
    case 0
    then show ?case by (intro exI [of _ "{}"]) (auto simp: copied_def copyable_def space_ok_def)
  next
    case (Suc k)
    let ?e = "entry s src (of_nat i)"
    show ?case
    proof (cases "present ?e")
      case False
      then show ?thesis using Suc.IH [of s "Suc i"] Suc.prems copied_skip [of src g s s' d i k]
        by (auto simp: entry_def Let_def)
    next
      case True
      show ?thesis
        using copyableD(1) [OF Suc.prems(1)]
      proof (cases rule: alloc_frame_cases)
        case fail
        then show ?thesis using True Suc.prems(2) by (simp add: entry_def Let_def)
      next
        case (got p t)
        let ?s2 = "s\<lparr>frames := p, ram := (fill (ram s) t (table_of ?e))(slot d (of_nat i) := t OR (?e AND 0xFFF))\<rparr>"
        have ins: "installs src g s ?s2 d i t"
          using new_table_installs [OF assms(1) Suc.prems(1) _ True got(3-6)] Suc.prems(3) by simp
        have run: "copy_tables fill src ?s2 d (Suc i) k = (s', True)"
          using Suc.prems(2) True got(1,2) by (simp add: entry_def Let_def)
        have "Suc i + k \<le> 1024" using Suc.prems(3) by simp
        from Suc.IH [OF installs_copyable [OF ins Suc.prems(1)] run this]
        obtain T where "copied src g ?s2 s' d (Suc i) k T" by blast
        then show ?thesis using copied_insert [OF ins Suc.prems(1) True Suc.prems(3)] by blast
      qed
    qed
  qed
qed

lemma fills_copy_page: "fills copy_page (\<lambda>e. e)"
  unfolding fills_def
proof (intro allI impI, elim conjE, intro conjI)
  fix m t src assume t: "aligned t"
  show "\<forall>a. table_of a \<noteq> t \<longrightarrow> copy_page m t src a = m a" using t by (simp add: copy_page_apply)
  show "\<forall>i < 1024. copy_page m t src (slot t i) = m (slot src i)" using t by (simp add: copy_page_slot)
qed

lemma cow_table_step:
  assumes t: "aligned t" "aligned src" "t \<noteq> src" and n: "n \<le> 1024"
  defines "step \<equiv> \<lambda>j m. if present (m (slot src (of_nat j)))
       then m(slot t (of_nat j) := cow_entry (m (slot src (of_nat j)))) else m"
  shows "(\<forall>a. table_of a \<noteq> t \<longrightarrow> fold step [0..<n] (zero_page m t) a = m a) \<and>
    (\<forall>i < 1024. fold step [0..<n] (zero_page m t) (slot t i) =
       (if unat i < n then cow_entry (m (slot src i)) else 0))"
  using n
proof (induction n)
  case 0
  then show ?case using t(1) by (simp add: zero_page_apply table_of_slot)
next
  case (Suc n)
  let ?M = "fold step [0..<n] (zero_page m t)"
  have n: "n < 1024" using Suc.prems by simp
  note IH = Suc.IH [OF less_imp_le [OF n]]
  have M: "fold step [0..<Suc n] (zero_page m t) = step n ?M" by simp
  have src: "?M (slot src (of_nat n)) = m (slot src (of_nat n))"
    using IH t of_nat_index [OF n] by (simp add: table_of_slot)
  have un: "unat (of_nat n :: u32) = n" by (rule unat_of_nat_u32) (use n in simp)
  show ?case
    unfolding M
  proof (intro conjI allI impI)
    fix a assume a: "table_of a \<noteq> t"
    then have "a \<noteq> slot t (of_nat n)" using table_of_slot [OF t(1) of_nat_index [OF n]] by auto
    then show "step n ?M a = m a" using IH a by (simp add: step_def)
  next
    fix i :: u32 assume i: "i < 1024"
    have eq: "slot t i = slot t (of_nat n) \<longleftrightarrow> i = of_nat n"
      using slot_inj [OF t(1) t(1) i of_nat_index [OF n]] by simp
    have "unat i = n \<longleftrightarrow> i = of_nat n" using un by auto
    then show "step n ?M (slot t i) = (if unat i < Suc n then cow_entry (m (slot src i)) else 0)"
      using IH i eq src un by (cases "i = of_nat n") (auto simp: step_def cow_entry_def less_Suc_eq)
  qed
qed

lemma fills_cow_table: "fills cow_table cow_entry"
  unfolding fills_def
proof (intro allI impI, elim conjE, intro conjI)
  fix m t src assume t: "aligned t" "aligned src" "t \<noteq> src"
  note step = cow_table_step [OF t order_refl, of m]
  show "\<forall>a. table_of a \<noteq> t \<longrightarrow> cow_table m t src a = m a"
    using step by (simp add: cow_table_def PAGE_TABLE_ENTRIES_def)
  have "unat i < 1024" if "i < 1024" for i :: u32 using that by (simp add: word_less_nat_alt)
  then show "\<forall>i < 1024. cow_table m t src (slot t i) = cow_entry (m (slot src i))"
    using step by (simp add: cow_table_def PAGE_TABLE_ENTRIES_def)
qed

text \<open>A new directory before the kernel tables are copied into it.\<close>

definition fresh_dir :: "vmm \<Rightarrow> vmm \<Rightarrow> u32 \<Rightarrow> bool" where
  "fresh_dir s s0 d \<longleftrightarrow> aligned d \<and> d \<noteq> 0 \<and> d \<notin> taken s \<and> taken s0 = insert d (taken s) \<and> frame_ok (frames s0) \<and>
     kernel_directory s0 = kernel_directory s \<and> (\<forall>i < 1024. entry s0 d (of_nat i) = 0) \<and>
     (\<forall>a. table_of a \<noteq> d \<longrightarrow> ram s0 a = ram s a)"

lemma fresh_dir_space:
  assumes "fresh_dir s s0 d" and "space_ok s e"
  shows "space_ok s0 e" and "d \<noteq> e" and "i < 1024 \<Longrightarrow> entry s0 e i = entry s e i"
    and "get_physical_address s0 e v = get_physical_address s e v"
    and "i < 1024 \<Longrightarrow> present (entry s e i) \<Longrightarrow> table_of (entry s e i) \<noteq> d"
proof -
  have e: "aligned e" "e \<in> taken s" "e \<noteq> 0" using assms(2) by (auto simp: space_ok_def)
  show de: "d \<noteq> e" using assms(1) e by (auto simp: fresh_dir_def)
  have en: "entry s0 e i = entry s e i" if "i < 1024" for i
    using assms(1) that e de by (simp add: fresh_dir_def entry_def table_of_slot)
  then show "i < 1024 \<Longrightarrow> entry s0 e i = entry s e i" .
  have tb: "table_of (entry s e i) \<noteq> d" if "i < 1024" "present (entry s e i)" for i
    using assms that unfolding space_ok_def fresh_dir_def by metis
  then show "i < 1024 \<Longrightarrow> present (entry s e i) \<Longrightarrow> table_of (entry s e i) \<noteq> d" .
  show "space_ok s0 e"
    using assms en unfolding space_ok_def fresh_dir_def by simp
  show "get_physical_address s0 e v = get_physical_address s e v"
    using e en tb [of "dir_idx v"] assms(1)
    by (cases "present (entry s e (dir_idx v))")
      (simp_all add: get_physical_address_eq fresh_dir_def table_of_slot Let_def)
qed

lemma create_cases:
  assumes K: "kernel_ok s" and c: "create_address_space s = (s', d)" and "d \<noteq> 0"
  obtains s0 T where "fresh_dir s s0 d" "copied (kernel_directory s) (\<lambda>e. e) s0 s' d 0 768 T"
proof -
  have ok: "space_ok s (kernel_directory s)" using K by (simp add: kernel_ok_def)
  then have k: "kernel_directory s \<noteq> 0" "frame_ok (frames s)" by (auto simp: space_ok_def)
  show thesis
    using k(2)
  proof (cases rule: alloc_frame_cases)
    case fail
    then show thesis using c k(1) assms(3) by (simp add: create_address_space_def)
  next
    case (got p t)
    let ?s0 = "s\<lparr>frames := p, ram := zero_page (ram s) t\<rparr>"
    have "fresh_dir s ?s0 t"
      using got of_nat_index by (simp add: fresh_dir_def entry_def zero_page_apply table_of_slot)
    note fresh = this fresh_dir_space [OF this ok]
    obtain s2 complete where r: "copy_kernel ?s0 t 0 768 = (s2, complete)"
      by (cases "copy_kernel ?s0 t 0 768")
    have dt: "complete" "d = t" "s2 = s'"
      using c k(1) got(1,2) r assms(3)
      by (auto simp: create_address_space_def KERNEL_SPACE_ENTRIES_def split: if_splits)
    have run: "copy_tables copy_page (kernel_directory s) ?s0 t 0 768 = (s', True)"
      using r dt by (simp add: copy_kernel_tables)
    have "\<exists>T. copied (kernel_directory s) (\<lambda>e. e) ?s0 s' t 0 768 T"
      by (rule copy_tables_copied [OF fills_copy_page fresh(2) _ got(3) fresh(3) _ run])
        (use got(5) fresh(4,6) of_nat_index in simp_all)
    then show thesis using that fresh(1) dt(2) by blast
  qed
qed

lemma free_tables_empty:
  "(\<And>j. i \<le> j \<Longrightarrow> j < i + k \<Longrightarrow> \<not> present (ram s (slot d (of_nat j)))) \<Longrightarrow> free_tables s d i k = s"
  by (induction k arbitrary: i) (auto simp: Let_def)

lemma index_of_dir: "of_nat (unat (dir_idx v)) = dir_idx v" "unat (dir_idx v) < 1024"
  using unat_dir_idx [of v] by (simp_all del: unat_dir_idx add: not_le)

text \<open>The page-table entry of an address, and when a directory reaches it.\<close>

definition pte :: "vmm \<Rightarrow> u32 \<Rightarrow> u32 \<Rightarrow> u32" where
  "pte s d v = ram s (slot (table_of (entry s d (dir_idx v))) (table_idx v))"

abbreviation dir_no :: "u32 \<Rightarrow> nat" where
  "dir_no v \<equiv> unat (dir_idx v)"

lemma get_physical_address_pte:
  "d \<noteq> 0 \<Longrightarrow> get_physical_address s d v =
     (if present (entry s d (dir_idx v)) \<and> present (pte s d v) then table_of (pte s d v) OR (v AND 0xFFF) else 0)"
  by (simp add: get_physical_address_eq pte_def Let_def)

lemma copied_inside:
  assumes "copied src g s s' d i k T" and "dir_no v \<in> {i..<i + k}" and "entry s d (dir_idx v) = 0"
  shows "present (entry s' d (dir_idx v)) \<longleftrightarrow> present (entry s src (dir_idx v))"
    and "present (entry s src (dir_idx v)) \<Longrightarrow> pte s' d v = g (pte s src v)"
proof -
  have "entry s' d (dir_idx v) = 0" if "\<not> present (entry s src (dir_idx v))"
  proof -
    have "\<forall>j < 1024. j \<notin> {i..<i + k} \<or> \<not> present (entry s src (of_nat j)) \<longrightarrow>
        entry s' d (of_nat j) = entry s d (of_nat j)"
      using assms(1) by (simp add: copied_def)
    from this [rule_format, OF index_of_dir(2) [of v]] show ?thesis
      using that assms(3) by (simp add: index_of_dir(1))
  qed
  then show "present (entry s' d (dir_idx v)) \<longleftrightarrow> present (entry s src (dir_idx v))"
    using copiedD(1) [OF assms(1,2)] index_of_dir(1) [of v] by fastforce
  show "pte s' d v = g (pte s src v)" if "present (entry s src (dir_idx v))"
    using copiedD(3) [OF assms(1,2), of "table_idx v"] that by (simp add: index_of_dir(1) pte_def)
qed

lemma copied_outside:
  assumes "copied src g s s' d i k T" and "dir_no v \<notin> {i..<i + k}"
  shows "entry s' d (dir_idx v) = entry s d (dir_idx v)"
proof -
  have "\<forall>j < 1024. j \<notin> {i..<i + k} \<or> \<not> present (entry s src (of_nat j)) \<longrightarrow>
      entry s' d (of_nat j) = entry s d (of_nat j)"
    using assms(1) by (simp add: copied_def)
  from this [rule_format, OF index_of_dir(2) [of v]] show ?thesis
    using assms(2) by (simp add: index_of_dir(1))
qed

lemma copied_ram: "copied src g s s' d i k T \<Longrightarrow> table_of a \<in> taken s \<Longrightarrow> table_of a \<noteq> d \<Longrightarrow> ram s' a = ram s a"
  by (simp add: copied_def)

lemma copied_other:
  assumes "copied src g s s' d i k T" and "space_ok s e" and "d \<noteq> e"
    and "\<And>i. i < 1024 \<Longrightarrow> present (entry s e i) \<Longrightarrow> table_of (entry s e i) \<noteq> d"
  shows "space_ok s' e" and "i' < 1024 \<Longrightarrow> entry s' e i' = entry s e i'"
    and "present (entry s e (dir_idx v)) \<Longrightarrow> pte s' e v = pte s e v"
    and "get_physical_address s' e v = get_physical_address s e v"
proof -
  have e: "aligned e" "e \<in> taken s" "e \<noteq> 0" using assms(2) by (auto simp: space_ok_def)
  have en: "entry s' e i = entry s e i" if "i < 1024" for i
    using copied_ram [OF assms(1), of "slot e i"] that e assms(3) by (simp add: entry_def table_of_slot)
  then show "i' < 1024 \<Longrightarrow> entry s' e i' = entry s e i'" .
  have tk: "taken s \<subseteq> taken s'" "frame_ok (frames s')" using assms(1) by (auto simp: copied_def)
  show "space_ok s' e"
    using assms(2) en tk unfolding space_ok_def by (simp add: subset_iff)
  have p: "pte s' e v = pte s e v" if "present (entry s e (dir_idx v))"
  proof -
    have "table_of (entry s e (dir_idx v)) \<in> taken s" using assms(2) that by (simp add: space_ok_def)
    then show ?thesis
      using copied_ram [OF assms(1), of "slot (table_of (entry s e (dir_idx v))) (table_idx v)"]
        assms(4) [OF _ that] en by (simp add: pte_def table_of_slot)
  qed
  then show "present (entry s e (dir_idx v)) \<Longrightarrow> pte s' e v = pte s e v" .
  show "get_physical_address s' e v = get_physical_address s e v"
    using e en p by (auto simp: get_physical_address_pte)
qed

lemma create_facts:
  assumes K: "kernel_ok s" and c: "create_address_space s = (s', d)" "d \<noteq> 0"
  shows "d \<notin> taken s" and "aligned d" and "d \<in> taken s'" and "frame_ok (frames s')"
    and "get_physical_address s' d v =
      (if dir_no v < 768 then get_physical_address s (kernel_directory s) v else 0)"
    and "\<not> dir_no v < 768 \<Longrightarrow> entry s' d (dir_idx v) = 0"
    and "dir_no v < 768 \<Longrightarrow> present (entry s' d (dir_idx v)) \<Longrightarrow>
      table_of (entry s' d (dir_idx v)) \<in> taken s' \<and> table_of (entry s' d (dir_idx v)) \<noteq> d"
    and "space_ok s e \<Longrightarrow> space_ok s' e \<and> d \<noteq> e \<and> (\<forall>i < 1024. entry s' e i = entry s e i) \<and>
      (\<forall>i < 1024. present (entry s e i) \<longrightarrow> table_of (entry s e i) \<noteq> d) \<and>
      (\<forall>v. present (entry s e (dir_idx v)) \<longrightarrow> pte s' e v = pte s e v)"
    and "kernel_directory s' = kernel_directory s"
    and "\<exists>T. taken s' = insert d (taken s) \<union> T \<and> T \<inter> insert d (taken s) = {} \<and>
      card T = card {i \<in> {0..<768}. present (entry s (kernel_directory s) (of_nat i))}"
proof -
  obtain s0 T where f: "fresh_dir s s0 d" and T: "copied (kernel_directory s) (\<lambda>e. e) s0 s' d 0 768 T"
    using create_cases [OF assms] .
  have ok: "space_ok s (kernel_directory s)" using K by (simp add: kernel_ok_def)
  note k = fresh_dir_space [OF f ok]
  have d: "d \<notin> taken s" "aligned d" "taken s0 = insert d (taken s)" using f by (auto simp: fresh_dir_def)
  then show "d \<notin> taken s" "aligned d" by simp_all
  show "d \<in> taken s'" "frame_ok (frames s')" "kernel_directory s' = kernel_directory s"
    using T d f unfolding copied_def fresh_dir_def by auto
  have z: "entry s0 d (dir_idx v) = 0" for v
    using f index_of_dir [of v] unfolding fresh_dir_def by metis
  show "\<not> dir_no v < 768 \<Longrightarrow> entry s' d (dir_idx v) = 0"
    using copied_outside [OF T, of v] z by simp
  then have out: "get_physical_address s' d v = 0" if "\<not> dir_no v < 768"
    using that assms(3) by (simp add: get_physical_address_pte)
  have kpte: "pte s0 (kernel_directory s) v = pte s (kernel_directory s) v"
    if "present (entry s (kernel_directory s) (dir_idx v))"
    using k(3,5) [of "dir_idx v"] that f by (simp add: pte_def fresh_dir_def table_of_slot)
  have "get_physical_address s' d v = get_physical_address s (kernel_directory s) v" if "dir_no v < 768"
    using copied_inside [OF T _ z, of v] that k(3) kpte assms(3) ok
    by (auto simp: get_physical_address_pte space_ok_def)
  then show "get_physical_address s' d v =
      (if dir_no v < 768 then get_physical_address s (kernel_directory s) v else 0)" using out by simp
  show "table_of (entry s' d (dir_idx v)) \<in> taken s' \<and> table_of (entry s' d (dir_idx v)) \<noteq> d"
    if "dir_no v < 768" "present (entry s' d (dir_idx v))"
  proof -
    have "present (entry s0 (kernel_directory s) (dir_idx v))"
      using copied_inside(1) [OF T _ z] that by simp
    then have "table_of (entry s' d (dir_idx v)) \<in> T"
      using copiedD(2) [OF T, of "dir_no v"] that(1) by (simp add: index_of_dir(1))
    then show ?thesis using T d(3) unfolding copied_def by auto
  qed
  show "space_ok s' e \<and> d \<noteq> e \<and> (\<forall>i < 1024. entry s' e i = entry s e i) \<and>
      (\<forall>i < 1024. present (entry s e i) \<longrightarrow> table_of (entry s e i) \<noteq> d) \<and>
      (\<forall>v. present (entry s e (dir_idx v)) \<longrightarrow> pte s' e v = pte s e v)" if e: "space_ok s e"
  proof -
    note fe = fresh_dir_space [OF f e]
    have "table_of (entry s0 e i) \<noteq> d" if "i < 1024" "present (entry s0 e i)" for i
      using fe(3,5) that by simp
    note ce = copied_other [OF T fe(1) fe(2) this]
    have "pte s0 e v = pte s e v" if "present (entry s e (dir_idx v))" for v
      using fe(3,5) [of "dir_idx v"] that f by (simp add: pte_def fresh_dir_def table_of_slot)
    then show ?thesis using ce fe(2,3,5) by simp
  qed
  have "{i \<in> {0..<768}. present (entry s0 (kernel_directory s) (of_nat i))} =
      {i \<in> {0..<768}. present (entry s (kernel_directory s) (of_nat i))}"
    using k(3) of_nat_index by auto
  then show "\<exists>T. taken s' = insert d (taken s) \<union> T \<and> T \<inter> insert d (taken s) = {} \<and>
      card T = card {i \<in> {0..<768}. present (entry s (kernel_directory s) (of_nat i))}"
    using T d(3) unfolding copied_def by (intro exI [of _ T]) auto
qed

lemma dir_idx_onto: "i < 1024 \<Longrightarrow> \<exists>v. dir_idx v = i"
proof (intro exI)
  assume i: "i < 1024"
  have b: "\<not> bit i n" if "10 \<le> n" for n
  proof -
    have "i = take_bit 10 i"
      using i by (simp add: take_bit_eq_mod word_less_nat_alt word_unat_eq_iff unat_mod)
    then show ?thesis using that bit_take_bit_iff [of 10 i n] by auto
  qed
  show "dir_idx (push_bit 22 i) = i"
    unfolding dir_idx_def by (rule bit_word_eqI) (use b in \<open>auto simp: bit_simps not_less [symmetric]\<close>)
qed

section \<open>A small concrete memory\<close>

text \<open>
  Blocks 0 to 4 are in use: the kernel directory at 0x1000 with one table at 0x2000, and a
  user directory at 0x3000 whose slot 768 points to the table at 0x4000.
\<close>

definition small_vmm :: vmm where
  "small_vmm = \<lparr>frames = \<lparr>bitmap = 0x200000, bm = (\<lambda>i. if i = 0 then 31 else 0), max_blocks = 32, used_blocks = 5\<rparr>,
     ram = (\<lambda>a. if a = 0x1000 then 0x2003 else if a = 0x2000 then 0x7003
                else if a = 0x3C00 then 0x4007 else if a = 0x4000 then 0x6607 else 0),
     page_directory = 0x1000, kernel_directory = 0x1000, aslr_seed = 0x12345678, cr0 = 0, cr3 = 0x3000\<rparr>"

lemma small_vmm_taken: "frame_ok (frames small_vmm)" "taken small_vmm = {0, 0x1000, 0x2000, 0x3000, 0x4000}"
proof -
  let ?p = "frames small_vmm"
  have used: "used_set ?p = {0, 1, 2, 3, 4}"
  proof (rule set_eqI)
    fix b :: u32
    have m: "(31 :: u32) = mask 5" by (simp add: mask_eq_exp_minus_1)
    have "bit (31 :: u32) n \<longleftrightarrow> n < 5" if "n < 32" for n
      unfolding m using that by (simp only: bit_mask_iff) simp
    then have "test_block ?p b \<longleftrightarrow> unat b < 5"
      by (auto simp: test_block_iff small_vmm_def word_less_nat_alt)
    also have "\<dots> \<longleftrightarrow> b \<in> {0, 1, 2, 3, 4}"
    proof -
      have "unat b < 5 \<longleftrightarrow> unat b = 0 \<or> unat b = 1 \<or> unat b = 2 \<or> unat b = 3 \<or> unat b = 4" by linarith
      then show ?thesis by (simp add: word_unat_eq_iff)
    qed
    finally show "b \<in> used_set ?p \<longleftrightarrow> b \<in> {0, 1, 2, 3, 4}" by (simp add: used_set_def)
  qed
  show "taken small_vmm = {0, 0x1000, 0x2000, 0x3000, 0x4000}"
    by (simp add: frame_taken_def used)
  have "0 \<in> used_set ?p" by (simp add: used)
  then have "test_block ?p 0" by (simp add: used_set_def)
  moreover have "counts ?p" unfolding counts_def used by (simp add: small_vmm_def)
  ultimately show "frame_ok ?p" by (simp add: frame_ok_def pmm_ok_def) (simp add: small_vmm_def)
qed

lemma small_vmm_entry:
  assumes "i < 1024"
  shows "entry small_vmm 0x1000 i = (if i = 0 then 0x2003 else 0)"
    and "entry small_vmm 0x3000 i = (if i = 768 then 0x4007 else 0)"
proof -
  have al: "aligned 0x1000" "aligned 0x2000" "aligned 0x3000" "aligned 0x4000"
    by (simp_all add: aligned_def)
  have s: "slot 0x1000 0 = 0x1000" "slot 0x2000 0 = 0x2000" "slot 0x3000 768 = 0x3C00" "slot 0x4000 0 = 0x4000"
    by (simp_all add: slot_def)
  have lt: "(0 :: u32) < 1024" "(768 :: u32) < 1024" by simp_all
  show "entry small_vmm 0x1000 i = (if i = 0 then 0x2003 else 0)"
    using slot_inj [OF al(1,1) assms lt(1)] slot_inj [OF al(1,2) assms lt(1)]
      slot_inj [OF al(1,3) assms lt(2)] slot_inj [OF al(1,4) assms lt(1)]
    by (simp add: entry_def s) (simp add: small_vmm_def)
  show "entry small_vmm 0x3000 i = (if i = 768 then 0x4007 else 0)"
    using slot_inj [OF al(3,1) assms lt(1)] slot_inj [OF al(3,2) assms lt(1)]
      slot_inj [OF al(3,3) assms lt(2)] slot_inj [OF al(3,4) assms lt(1)]
    by (simp add: entry_def s) (simp add: small_vmm_def)
qed

lemma small_vmm_ok: "kernel_ok small_vmm" "space_ok small_vmm 0x3000"
proof -
  have k: "kernel_directory small_vmm = 0x1000" by (simp add: small_vmm_def)
  have tb: "table_of 0x2003 = 0x2000" "table_of 0x4007 = 0x4000" by (simp_all add: table_of_def)
  show "kernel_ok small_vmm" "space_ok small_vmm 0x3000"
    unfolding kernel_ok_def k space_ok_def
    using small_vmm_taken by (auto simp: small_vmm_entry aligned_def tb)
qed

lemma copy_tables_skip:
  "(\<And>j. j \<in> {i..<i + k} \<Longrightarrow> \<not> present (entry s src (of_nat j))) \<Longrightarrow>
     copy_tables fill src s d i k = (s, True)"
  by (induction k arbitrary: i) (auto simp: Let_def)

abbreviation small_frames :: pmm where
  "small_frames \<equiv> frames small_vmm"

lemma small_frames_alloc:
  "allocate_block small_frames = (set_block small_frames 5, 0x5000)"
  "allocate_block (set_block small_frames 5) = (set_block (set_block small_frames 5) 6, 0x6000)"
  "allocate_block (set_block (set_block small_frames 5) 6) =
     (set_block (set_block (set_block small_frames 5) 6) 7, 0x7000)"
proof -
  have f: "bitmap small_frames \<noteq> 0" "max_blocks small_frames = 32" by (simp_all add: small_vmm_def)
  have "first_free_block small_frames = 5" "first_free_block (set_block small_frames 5) = 6"
    "first_free_block (set_block (set_block small_frames 5) 6) = 7" by code_simp+
  then show "allocate_block small_frames = (set_block small_frames 5, 0x5000)"
    "allocate_block (set_block small_frames 5) = (set_block (set_block small_frames 5) 6, 0x6000)"
    "allocate_block (set_block (set_block small_frames 5) 6) =
       (set_block (set_block (set_block small_frames 5) 6) 7, 0x7000)"
    using f by (simp_all add: allocate_block_def BLOCK_SIZE_def word_le_nat_alt)
qed

lemma small_create:
  obtains s1 where "create_address_space small_vmm = (s1, 0x5000)" "snd (alloc_frame s1) = 0x7000"
proof -
  let ?s0 = "small_vmm\<lparr>frames := set_block small_frames 5, ram := zero_page (ram small_vmm) 0x5000\<rparr>"
  let ?s1 = "?s0\<lparr>frames := set_block (set_block small_frames 5) 6,
      ram := (copy_page (ram ?s0) 0x6000 0x2000)(slot 0x5000 0 := 0x6003)\<rparr>"
  have al: "aligned 0x1000" "aligned 0x5000" "aligned 0x6000" by (simp_all add: aligned_def)
  have e0: "entry ?s0 0x1000 i = (if i = 0 then 0x2003 else 0)" if "i < 1024" for i
    using small_vmm_entry(1) [OF that] al that by (simp add: entry_def zero_page_apply table_of_slot)
  have e1: "\<not> present (entry ?s1 0x1000 (of_nat j))" if j: "1 \<le> j" "j < 1024" for j
  proof -
    have "slot 0x1000 (of_nat j) \<noteq> slot 0x5000 0"
      using slot_inj [OF al(1,2) of_nat_index [OF j(2)], of 0] by simp
    then have "entry ?s1 0x1000 (of_nat j) = entry ?s0 0x1000 (of_nat j)"
      using al of_nat_index [OF j(2)] by (simp add: entry_def copy_page_apply table_of_slot)
    moreover have "(of_nat j :: u32) \<noteq> 0" using of_nat_index_inj [OF j(2), of 0] j by simp
    ultimately show ?thesis using e0 of_nat_index [OF j(2)] by simp
  qed
  have k: "kernel_directory ?s0 = 0x1000" "kernel_directory small_vmm = 0x1000" by (simp_all add: small_vmm_def)
  have "alloc_frame ?s0 = (?s0\<lparr>frames := set_block (set_block small_frames 5) 6\<rparr>, 0x6000)"
    by (simp add: alloc_frame_def small_frames_alloc)
  then have "copy_tables copy_page 0x1000 ?s0 0x5000 0 (Suc 767) = copy_tables copy_page 0x1000 ?s1 0x5000 1 767"
    unfolding copy_tables.simps(2) using e0 [of 0] by (simp add: present_def table_of_def)
  also have "\<dots> = (?s1, True)" by (rule copy_tables_skip) (use e1 in simp)
  finally have run: "copy_kernel ?s0 0x5000 0 768 = (?s1, True)"
    by (simp only: copy_kernel_tables k) simp
  have "alloc_frame small_vmm = (small_vmm\<lparr>frames := set_block small_frames 5\<rparr>, 0x5000)"
    by (simp add: alloc_frame_def small_frames_alloc)
  then have "create_address_space small_vmm = (?s1, 0x5000)"
    using run k(2) by (simp add: create_address_space_def KERNEL_SPACE_ENTRIES_def)
  moreover have "snd (alloc_frame ?s1) = 0x7000" by (simp add: alloc_frame_def small_frames_alloc)
  ultimately show thesis by (rule that)
qed

section \<open>Properties of the address spaces\<close>

text \<open>C1. Mapping a page: on a well-formed directory, when the page table exists or can be
  allocated, the page translates to the given frame, every other address translates as before
  and the directory stays well-formed; when the table cannot be allocated nothing changes.\<close>

theorem map_page_translates:
  assumes ok: "space_ok s d" and v: "v AND 0xFFF = 0" and p: "pa AND 0xFFF = 0"
  shows "let s' = map_page_in_space s d v pa user rw ex in
    if present (entry s d (dir_idx v)) \<or> snd (alloc_frame s) \<noteq> 0
    then space_ok s' d \<and> (\<forall>v'. get_physical_address s' d v' =
           (if table_of v' = v then pa OR (v' AND 0xFFF) else get_physical_address s d v'))
    else s' = s"
proof -
  have d: "d \<noteq> 0" "frame_ok (frames s)" using ok by (auto simp: space_ok_def)
  have tv: "table_of v = v" "table_of pa = pa"
    using v p by (simp_all add: table_of_aligned aligned_def)
  define f :: u32 where "f = (if user then 7 else 3) AND (if rw then NOT 0 else NOT 2)"
  have f: "f AND 0xFFF = f" "present f" by (auto simp: f_def present_def)
  note parts = entry_parts [OF _ f(1), of pa]
  have pte: "table_of (pa OR f) = pa" "present (pa OR f)"
    using parts p f(2) by (simp_all add: aligned_def)
  show ?thesis
  proof (cases "present (entry s d (dir_idx v))")
    case True
    then have "map_page_in_space s d v pa user rw ex =
        s\<lparr>ram := (ram s)(slot (table_of (entry s d (dir_idx v))) (table_idx v) := pa OR f)\<rparr>"
      using d v p tv by (simp add: f_def map_page_in_space_def PAGE_TABLE_ENTRIES_def entry_def Let_def)
    then show ?thesis
      using True write_pte(1,3) [where e = "pa OR f", OF ok True] pte tv by (simp add: Let_def)
  next
    case False
    show ?thesis
      using d(2)
    proof (cases rule: alloc_frame_cases)
      case fail
      then have "map_page_in_space s d v pa user rw ex = s"
        using False d v p by (simp add: f_def map_page_in_space_def PAGE_TABLE_ENTRIES_def entry_def Let_def)
      then show ?thesis using False fail by simp
    next
      case (got q t)
      define g :: u32 where "g = (if user then 7 else 3)"
      let ?s2 = "s\<lparr>frames := q, ram := (zero_page (ram s) t)(slot d (dir_idx v) := t OR g)\<rparr>"
      have g: "g AND 0xFFF = g" "present g" by (auto simp: g_def present_def)
      note add = add_table [OF ok False got g]
      have e: "present (entry ?s2 d (dir_idx v))" "table_of (entry ?s2 d (dir_idx v)) = t"
        using add(2) entry_parts [OF got(3) g(1)] g(2) by simp_all
      have "map_page_in_space s d v pa user rw ex =
          ?s2\<lparr>ram := (ram ?s2)(slot t (table_idx v) := pa OR f)\<rparr>"
        using False d v p tv got by (simp add: f_def g_def map_page_in_space_def PAGE_TABLE_ENTRIES_def entry_def Let_def)
      then show ?thesis
        using got write_pte(1,3) [where e = "pa OR f", OF add(1) e(1)] e(2) add(3) pte tv by (simp add: Let_def)
    qed
  qed
qed

theorem map_page_translates_witness:
  "get_physical_address (map_page_in_space small_vmm 0x3000 0xC0001000 0x9000 True False False) 0x3000 0xC0001234 = 0x9234"
proof -
  have "present (entry small_vmm 0x3000 (dir_idx 0xC0001000))"
    by (simp add: small_vmm_entry dir_idx_def present_def)
  then show ?thesis
    using map_page_translates [OF small_vmm_ok(2), of "0xC0001000" "0x9000" True False False]
    by (simp add: Let_def table_of_def)
qed

text \<open>A new address space translates the low three gigabytes exactly as the kernel
  directory does and maps nothing above; destroying it gives its directory frame back but not
  the page tables: exactly one frame per present kernel table stays taken for ever.\<close>

lemma create_destroy_leaks:
  assumes "kernel_ok s" and "create_address_space s = (s', d)" and "d \<noteq> 0"
  shows "(\<forall>v. get_physical_address s' d v =
      (if dir_no v < 768 then get_physical_address s (kernel_directory s) v else 0)) \<and>
    taken s \<subseteq> taken (destroy_address_space s' d) \<and>
    card (taken (destroy_address_space s' d) - taken s) =
      card {i \<in> {0..<768}. present (entry s (kernel_directory s) (of_nat i))}"
proof -
  note c = create_facts [OF assms]
  obtain T where T: "taken s' = insert d (taken s) \<union> T" "T \<inter> insert d (taken s) = {}"
    "card T = card {i \<in> {0..<768}. present (entry s (kernel_directory s) (of_nat i))}"
    using c(10) by blast
  have ok: "space_ok s (kernel_directory s)" using assms(1) by (simp add: kernel_ok_def)
  have dk: "d \<noteq> kernel_directory s'" using c(8) [OF ok] c(9) by simp
  have "\<not> present (ram s' (slot d (of_nat j)))" if j: "768 \<le> j" "j < 1024" for j
  proof -
    obtain v where v: "dir_idx v = of_nat j" using dir_idx_onto [OF of_nat_index [OF j(2)]] by blast
    have "unat (of_nat j :: u32) = j" by (rule unat_of_nat_u32) (use j in simp)
    then show ?thesis using c(6) [of v] v j by (simp add: entry_def)
  qed
  then have "free_tables s' d 768 256 = s'" by (intro free_tables_empty) simp
  then have "destroy_address_space s' d = s'\<lparr>frames := free_block (frames s') d\<rparr>"
    using assms(3) dk by (simp add: destroy_address_space_def KERNEL_SPACE_ENTRIES_def PAGE_TABLE_ENTRIES_def)
  moreover have "d mod 4096 = 0" using c(2) by (simp add: aligned_def and_page_mask)
  ultimately have "taken (destroy_address_space s' d) = taken s' - {d}"
    using pmm.release_taken [OF c(4) assms(3)] by simp
  moreover have "\<dots> - taken s = T" using T c(1) by auto
  ultimately show ?thesis using c(1,5) T by auto
qed

lemma create_destroy_leaks_example:
  "\<exists>s' d. create_address_space small_vmm = (s', d) \<and> d \<noteq> 0 \<and>
    card (taken (destroy_address_space s' d) - taken small_vmm) =
      card {i \<in> {0..<768}. present (entry small_vmm (kernel_directory small_vmm) (of_nat i))}"
proof -
  obtain s' where r: "create_address_space small_vmm = (s', 0x5000)" using small_create by blast
  have "(0x5000 :: u32) \<noteq> 0" by simp
  with r show ?thesis using create_destroy_leaks [OF small_vmm_ok(1) r] by blast
qed

lemma cow_entry_facts:
  "present (cow_entry x) \<longleftrightarrow> present x" "present x \<Longrightarrow> table_of (cow_entry x) = table_of x"
proof -
  define fl where "fl = (x AND 0xFFF AND NOT 2) OR push_bit 9 1"
  have ce: "cow_entry x = (if present x then table_of x OR fl else 0)"
    by (simp only: cow_entry_def fl_def)
  have "fl AND 0xFFF = fl" "present fl \<longleftrightarrow> present x"
    by (simp_all add: fl_def present_def bit.conj_disj_distrib2 and.assoc)
  then show "present (cow_entry x) \<longleftrightarrow> present x" "present x \<Longrightarrow> table_of (cow_entry x) = table_of x"
    using entry_parts [of "table_of x" fl] ce by auto
qed


lemma small_clone: "snd (clone_address_space small_vmm 0x3000) = 20480"
proof -
  obtain s1 where c: "create_address_space small_vmm = (s1, 0x5000)" "snd (alloc_frame s1) = 0x7000"
    using small_create .
  define d :: u32 where d: "d = 20480"
  have r: "create_address_space small_vmm = (s1, d)" using c(1) by (simp add: d)
  obtain s2 where a: "alloc_frame s1 = (s2, 28672)" using c(2) by (cases "alloc_frame s1") simp
  have nz: "d \<noteq> 0" by (simp add: d)
  note f = create_facts(8) [OF small_vmm_ok(1) r nz small_vmm_ok(2)]
  have e1: "entry s1 0x3000 i = (if i = 768 then 0x4007 else 0)" if "i < 1024" for i
    using f that small_vmm_entry(2) [OF that] by simp
  have ram2: "ram s2 = ram s1" using a by (auto simp: alloc_frame_def split: prod.splits)
  let ?s3 = "s2\<lparr>ram := (cow_table (ram s2) 28672 0x4000)(slot d 768 := 28679)\<rparr>"
  have al: "aligned 28672" "aligned 0x4000" "aligned 0x3000" "aligned d" by (simp_all add: aligned_def d)
  note fill = fillsD(1) [OF fills_cow_table al(1,2)]
  have e3: "\<not> present (entry ?s3 0x3000 (of_nat j))" if j: "769 \<le> j" "j < 1024" for j
  proof -
    have "slot 0x3000 (of_nat j) \<noteq> slot d 768"
      using slot_inj [OF al(3,4) of_nat_index [OF j(2)], of 768] by (simp add: d)
    then have "entry ?s3 0x3000 (of_nat j) = entry s1 0x3000 (of_nat j)"
      using fill [of "slot 0x3000 (of_nat j)" "ram s2"] of_nat_index [OF j(2)] al
      by (simp add: entry_def table_of_slot ram2)
    moreover have "(of_nat j :: u32) \<noteq> 768"
      using of_nat_index_inj [OF j(2), of 768] j by simp
    ultimately show ?thesis using e1 of_nat_index [OF j(2)] by simp
  qed
  have "copy_tables cow_table 0x3000 s1 d 768 (Suc 255) = copy_tables cow_table 0x3000 ?s3 d 769 255"
    unfolding copy_tables.simps(2) using e1 [of 768] a by (simp add: present_def table_of_def)
  also have "\<dots> = (?s3, True)" by (rule copy_tables_skip) (use e3 in simp)
  finally have "clone_user s1 0x3000 d 768 256 = (?s3, True)" by (simp add: clone_user_tables)
  moreover have "kernel_directory small_vmm \<noteq> 0x3000" by (simp add: small_vmm_def)
  ultimately show ?thesis
    using r nz d by (simp add: clone_address_space_def KERNEL_SPACE_ENTRIES_def PAGE_TABLE_ENTRIES_def)
qed


text \<open>The flags the fault leaves in the entry, and the state it leaves.\<close>

definition own_flags :: "u32 \<Rightarrow> u32" where
  "own_flags e = ((e AND 0xFFF) AND NOT (push_bit 9 1)) OR 2"

lemma own_flags:
  assumes "present e" and "aligned t"
  shows "own_flags e AND 0xFFF = own_flags e" and "present (own_flags e)"
    and "bit (t OR own_flags e) 1" and "\<not> bit (t OR own_flags e) 9"
proof -
  show "own_flags e AND 0xFFF = own_flags e" "present (own_flags e)"
    using assms(1) unfolding own_flags_def page_mask present_bit
    by (auto simp: bit_simps numeral_2_eq_2 intro!: bit_word_eqI)
  have "t AND 0xFFF = 0" using assms(2) by (simp add: aligned_def)
  then have "\<not> bit t 9" using bit_and_iff [of t "0xFFF" 9] by (simp add: page_mask bit_simps)
  then show "bit (t OR own_flags e) 1" "\<not> bit (t OR own_flags e) 9"
    by (auto simp: own_flags_def bit_simps numeral_2_eq_2)
qed

lemma cow_fault_state:
  assumes ok: "space_ok s (cr3 s)" and c: "cow_fault s err v = (s', True)"
  defines "e \<equiv> pte s (cr3 s) v" and "T \<equiv> table_of (entry s (cr3 s) (dir_idx v))"
  obtains p t where "present (entry s (cr3 s) (dir_idx v))" and "present e"
    and "t \<noteq> 0" and "aligned t" and "t \<notin> taken s" and "frame_taken p = insert t (taken s)" and "frame_ok p"
    and "s' = s\<lparr>frames := p, ram := (copy_page (ram s) t (table_of e))(slot T (table_idx v) := t OR own_flags e)\<rparr>"
proof -
  have pr: "present (entry s (cr3 s) (dir_idx v))" "present e"
    using c by (auto simp: e_def cow_fault_def entry_def pte_def Let_def split: if_splits)
  have ne: "\<not> alloc_frame s = (s, 0)"
    using c by (auto simp: cow_fault_def Let_def split: if_splits)
  have "frame_ok (frames s)" using ok by (simp add: space_ok_def)
  then show ?thesis
  proof (cases rule: alloc_frame_cases)
    case fail
    then show ?thesis using ne by simp
  next
    case (got p t)
    have "s' = s\<lparr>frames := p, ram := (copy_page (ram s) t (table_of e))(slot T (table_idx v) := t OR own_flags e)\<rparr>"
      using c got(1,2)
      by (auto simp: e_def T_def cow_fault_def entry_def pte_def Let_def own_flags_def or.assoc split: if_splits)
    then show ?thesis using got pr by (intro that [of t p]) simp_all
  qed
qed

text \<open>C3. A handled copy-on-write fault gives the faulting page a frame of its own that was free:
  the page translates to it, every other address as before, its contents are those of the shared
  frame, the rest of memory is untouched, and the entry becomes writable whether or not the page
  was writable before it was shared.\<close>

theorem cow_fault_copies:
  assumes ok: "space_ok s (cr3 s)" and c: "cow_fault s err v = (s', True)"
  shows "\<exists>t. t \<notin> taken s \<and> taken s' = insert t (taken s) \<and> space_ok s' (cr3 s) \<and>
    (\<forall>v'. get_physical_address s' (cr3 s) v' =
       (if table_of v' = table_of v then t OR (v' AND 0xFFF) else get_physical_address s (cr3 s) v')) \<and>
    (\<forall>i < 1024. ram s' (slot t i) = ram s (slot (table_of (pte s (cr3 s) v)) i)) \<and>
    (\<forall>a. table_of a \<noteq> t \<longrightarrow> a \<noteq> slot (table_of (entry s (cr3 s) (dir_idx v))) (table_idx v) \<longrightarrow>
       ram s' a = ram s a) \<and>
    bit (pte s' (cr3 s) v) 1 \<and> \<not> bit (pte s' (cr3 s) v) 9"
proof -
  let ?d = "cr3 s" and ?e = "pte s (cr3 s) v"
  let ?T = "table_of (entry s ?d (dir_idx v))"
  obtain p t where pr: "present (entry s ?d (dir_idx v))" "present ?e"
    and t: "t \<noteq> 0" "aligned t" "t \<notin> taken s" "frame_taken p = insert t (taken s)" "frame_ok p"
    and s'0: "s' = s\<lparr>frames := p, ram := (copy_page (ram s) t (table_of ?e))(slot ?T (table_idx v) := t OR own_flags ?e)\<rparr>"
    using cow_fault_state [OF ok c] .
  let ?m = "copy_page (ram s) t (table_of ?e)"
  let ?s1 = "s\<lparr>frames := p, ram := ?m\<rparr>"
  have s': "s' = ?s1\<lparr>ram := (ram ?s1)(slot ?T (table_idx v) := t OR own_flags ?e)\<rparr>" using s'0 by simp
  have m: "\<forall>a. table_of a \<noteq> t \<longrightarrow> ?m a = ram s a" using t(2) by (simp add: copy_page_apply)
  note fresh = fresh_frame [OF ok t(3,4,5) m]
  have Tt: "?T \<noteq> t" using ok pr(1) t(3) by (auto simp: space_ok_def)
  have pr1: "present (entry ?s1 ?d (dir_idx v))" "table_of (entry ?s1 ?d (dir_idx v)) = ?T"
    using fresh(2) [of "dir_idx v"] pr(1) by simp_all
  note wr = write_pte [where e = "t OR own_flags ?e", OF fresh(1) pr1(1), unfolded pr1(2)]
  note fl = own_flags [OF pr(2) t(2)]
  note parts = entry_parts [OF t(2) fl(1)]
  have "ram s' (slot t i) = ram s (slot (table_of ?e) i)" if "i < 1024" for i
    using that slot_inj [of t ?T i "table_idx v"] t(2) Tt by (simp add: s' copy_page_slot)
  moreover have "ram s' a = ram s a" if "table_of a \<noteq> t" "a \<noteq> slot ?T (table_idx v)" for a
    using that m by (simp add: s')
  moreover have "pte s' ?d v = t OR own_flags ?e" using wr(2) fresh(2) by (simp add: pte_def s')
  moreover have "\<forall>v'. get_physical_address s' ?d v' =
     (if table_of v' = table_of v then t OR (v' AND 0xFFF) else get_physical_address s ?d v')"
    using wr(3) fresh(3) parts fl(2) by (simp add: s')
  moreover have "space_ok s' ?d" using wr(1) by (simp add: s')
  ultimately show ?thesis using t(3,4) fl(3,4) by (intro exI [of _ t]) (simp add: s')
qed

theorem cow_fault_copies_witness:
  "\<exists>s' t. cow_fault small_vmm 7 0xC0000123 = (s', True) \<and> t \<notin> taken small_vmm \<and>
    taken s' = insert t (taken small_vmm)"
proof -
  obtain s' ok where r: "cow_fault small_vmm 7 0xC0000123 = (s', ok)"
    by (cases "cow_fault small_vmm 7 0xC0000123")
  moreover have "snd (cow_fault small_vmm 7 0xC0000123)" by code_simp
  ultimately have r: "cow_fault small_vmm 7 0xC0000123 = (s', True)" by simp
  have c: "cr3 small_vmm = 0x3000" by (simp add: small_vmm_def)
  show ?thesis using cow_fault_copies [of small_vmm, unfolded c, OF small_vmm_ok(2) r] r by blast
qed

end
