(* ===== verification/Ports.thy ===== *)
theory Ports
  imports Prelude
begin

text \<open>
  Port input and output, \<open>kernel/arch/i386/io_port.hpp\<close>. The kernel's view of a device is
  the list of values its future reads return and the trace of what was written; drivers are
  functions of this state. A read when no value is left returns all ones, as a port without
  a device does.
\<close>

datatype io = Out8 u16 u8 | Out16 u16 u16 | Out32 u16 u32 | In8 u16 | In16 u16 | In32 u16

record ports =
  inputs :: "u32 list"
  trace :: "io list"

definition next_input :: "ports \<Rightarrow> u32" where
  "next_input s = (case inputs s of [] \<Rightarrow> 0xFFFFFFFF | x # _ \<Rightarrow> x)"

definition outb :: "u16 \<Rightarrow> u8 \<Rightarrow> ports \<Rightarrow> ports" where
  "outb port val s = s\<lparr>trace := trace s @ [Out8 port val]\<rparr>"

definition outw :: "u16 \<Rightarrow> u16 \<Rightarrow> ports \<Rightarrow> ports" where
  "outw port val s = s\<lparr>trace := trace s @ [Out16 port val]\<rparr>"

definition outl :: "u16 \<Rightarrow> u32 \<Rightarrow> ports \<Rightarrow> ports" where
  "outl port val s = s\<lparr>trace := trace s @ [Out32 port val]\<rparr>"

definition inb :: "u16 \<Rightarrow> ports \<Rightarrow> u8 \<times> ports" where
  "inb port s = (ucast (next_input s), s\<lparr>inputs := tl (inputs s), trace := trace s @ [In8 port]\<rparr>)"

definition inw :: "u16 \<Rightarrow> ports \<Rightarrow> u16 \<times> ports" where
  "inw port s = (ucast (next_input s), s\<lparr>inputs := tl (inputs s), trace := trace s @ [In16 port]\<rparr>)"

definition inl :: "u16 \<Rightarrow> ports \<Rightarrow> u32 \<times> ports" where
  "inl port s = (next_input s, s\<lparr>inputs := tl (inputs s), trace := trace s @ [In32 port]\<rparr>)"

definition outputs :: "ports \<Rightarrow> io list" where
  "outputs s = filter (\<lambda>e. case e of Out8 _ _ \<Rightarrow> True | Out16 _ _ \<Rightarrow> True | Out32 _ _ \<Rightarrow> True | _ \<Rightarrow> False) (trace s)"

lemma outputs_simps [simp]:
  "outputs (outb p v s) = outputs s @ [Out8 p v]"
  "outputs (outw p w s) = outputs s @ [Out16 p w]"
  "outputs (outl p d s) = outputs s @ [Out32 p d]"
  "outputs (snd (inb p s)) = outputs s" "outputs (snd (inw p s)) = outputs s" "outputs (snd (inl p s)) = outputs s"
  by (simp_all add: outputs_def outb_def outw_def outl_def inb_def inw_def inl_def)

lemma inputs_simps [simp]:
  "inputs (outb p v s) = inputs s" "inputs (outw p w s) = inputs s" "inputs (outl p d s) = inputs s"
  "inputs (snd (inb p s)) = tl (inputs s)" "inputs (snd (inw p s)) = tl (inputs s)"
  "inputs (snd (inl p s)) = tl (inputs s)"
  by (simp_all add: outb_def outw_def outl_def inb_def inw_def inl_def)

lemma fst_in_simps [simp]:
  "fst (inb p s) = ucast (next_input s)" "fst (inw p s) = ucast (next_input s)" "fst (inl p s) = next_input s"
  by (simp_all add: inb_def inw_def inl_def)

lemma next_input_out [simp]:
  "next_input (outb p v s) = next_input s" "next_input (outw p w s) = next_input s"
  "next_input (outl p d s) = next_input s"
  by (simp_all add: next_input_def)

lemma outputs_in:
  "inb p s = (v, s1) \<Longrightarrow> outputs s1 = outputs s"
  "inw p s = (w, s1) \<Longrightarrow> outputs s1 = outputs s"
  "inl p s = (d, s1) \<Longrightarrow> outputs s1 = outputs s"
  by (auto simp: inb_def inw_def inl_def outputs_def)

end
