(* ===== verification/Scheduler.thy ===== *)
theory Scheduler
  imports Ports
begin

text \<open>
  The process list and the round-robin scheduler, \<open>kernel/scheduler.cpp\<close>, and the
  interrupt dispatch that drives it, \<open>irq_handler\<close> of \<open>kernel/arch/i386/isr.cpp\<close>.
  Process blocks live in a heap indexed by their address and are linked by \<open>nxt\<close>, newest
  first; the addresses \<open>kmalloc\<close> returns are arguments. The abstract view is the list of
  addresses on the chain and the running one.
\<close>

section \<open>State and operations\<close>

datatype process_state = READY | RUNNING | SUSPENDED | TERMINATED

record registers =
  ds :: u32
  edi :: u32
  esi :: u32
  ebp :: u32
  esp :: u32
  ebx :: u32
  edx :: u32
  ecx :: u32
  eax :: u32
  int_no :: u32
  err_code :: u32
  eip :: u32
  cs :: u32
  eflags :: u32

definition zero_registers :: registers where
  "zero_registers = \<lparr>ds = 0, edi = 0, esi = 0, ebp = 0, esp = 0, ebx = 0, edx = 0, ecx = 0, eax = 0,
     int_no = 0, err_code = 0, eip = 0, cs = 0, eflags = 0\<rparr>"

definition SIZEOF_REGISTERS :: u32 where "SIZEOF_REGISTERS = 56"

record process =
  pid :: u32
  name :: "u8 list"
  pstate :: process_state
  stack_ptr :: u32
  nxt :: u32

record sched =
  procs :: "u32 \<Rightarrow> process"
  stacks :: "u32 \<Rightarrow> registers"
  process_list :: u32
  current_process :: u32
  next_pid :: u32

text \<open>
  \<open>add_process\<close> copies the name into a 32-byte array without a bound; a longer name
  overruns the process block, which is \<open>None\<close>.
\<close>

definition add_process :: "u32 \<Rightarrow> u32 \<Rightarrow> sched \<Rightarrow> u8 list \<Rightarrow> u32 \<Rightarrow> sched option" where
  "add_process proc stack s nm entry_point =
     (if length nm \<ge> 32 then None
      else let sp = stack + 8192 - SIZEOF_REGISTERS in
        Some (s\<lparr>procs := (procs s)(proc := \<lparr>pid = next_pid s, name = nm, pstate = READY,
                  stack_ptr = sp, nxt = process_list s\<rparr>),
                stacks := (stacks s)(sp := zero_registers\<lparr>eip := entry_point, cs := 0x08, ds := 0x10,
                  eflags := 0x202\<rparr>),
                process_list := proc, next_pid := next_pid s + 1\<rparr>))"

definition sched_initialize :: "u32 \<Rightarrow> u32 \<Rightarrow> sched \<Rightarrow> sched option" where
  "sched_initialize proc stack s =
     (case add_process proc stack (s\<lparr>process_list := 0, current_process := 0, next_pid := 0\<rparr>) (bytes ''kernel'') 0 of
        None \<Rightarrow> None
      | Some s1 \<Rightarrow> let c = process_list s1 in
          Some (s1\<lparr>current_process := c, procs := (procs s1)(c := (procs s1 c)\<lparr>pstate := RUNNING\<rparr>)\<rparr>))"

definition schedule :: "sched \<Rightarrow> u32 \<Rightarrow> sched \<times> u32" where
  "schedule s current_stack =
     (if current_process s = 0 then (s, current_stack)
      else let c = current_process s;
               p1 = (procs s)(c := (procs s c)\<lparr>stack_ptr := current_stack, pstate := READY\<rparr>);
               n = nxt (p1 c);
               c' = (if n = 0 then process_list s else n);
               p2 = p1(c' := (p1 c')\<lparr>pstate := RUNNING\<rparr>)
           in (s\<lparr>procs := p2, current_process := c'\<rparr>, stack_ptr (p2 c')))"

definition get_current :: "sched \<Rightarrow> u32" where "get_current s = current_process s"
definition get_process_list :: "sched \<Rightarrow> u32" where "get_process_list s = process_list s"

text \<open>
  The interrupt dispatch: end of interrupt to the slave controller for the upper eight lines
  and to the master always, the registered handler, and a stack switch on the timer only.
\<close>

definition irq_handler ::
  "(u32 \<Rightarrow> (registers \<Rightarrow> 'd \<Rightarrow> 'd) option) \<Rightarrow> registers \<Rightarrow> 'd \<Rightarrow> sched \<Rightarrow> ports \<Rightarrow> u32 \<Rightarrow> 'd \<times> sched \<times> ports \<times> u32" where
  "irq_handler handlers regs dev s io esp0 =
     (let io1 = (if int_no regs \<ge> 40 then outb 0xA0 0x20 io else io);
          io2 = outb 0x20 0x20 io1;
          dev' = (case handlers (int_no regs) of Some h \<Rightarrow> h regs dev | None \<Rightarrow> dev)
      in if int_no regs = 32 then let (s', e) = schedule s esp0 in (dev', s', io2, e)
         else (dev', s, io2, esp0))"

section \<open>The chain of processes\<close>

fun chain :: "(u32 \<Rightarrow> process) \<Rightarrow> u32 \<Rightarrow> u32 list \<Rightarrow> bool" where
  "chain h p [] \<longleftrightarrow> p = 0"
| "chain h p (x # xs) \<longleftrightarrow> p = x \<and> x \<noteq> 0 \<and> chain h (nxt (h x)) xs"

definition sched_ok :: "sched \<Rightarrow> u32 list \<Rightarrow> bool" where
  "sched_ok s xs \<longleftrightarrow> chain (procs s) (process_list s) xs \<and> distinct xs \<and> current_process s \<in> set xs \<and>
     (\<forall>p \<in> set xs. pstate (procs s p) = (if p = current_process s then RUNNING else READY))"

lemma chain_nonzero: "chain h p xs \<Longrightarrow> 0 \<notin> set xs"
  by (induction xs arbitrary: p) auto

lemma chain_cong:
  "chain h p xs \<Longrightarrow> (\<And>x. x \<in> set xs \<Longrightarrow> nxt (h' x) = nxt (h x)) \<Longrightarrow> chain h' p xs"
  by (induction xs arbitrary: p) auto

text \<open>The abstract scheduler: the process behind the running one, the first after the last.\<close>

definition succ_in :: "'a list \<Rightarrow> nat \<Rightarrow> 'a" where
  "succ_in xs i = xs ! (Suc i mod length xs)"

lemma chain_next:
  "chain h p xs \<Longrightarrow> i < length xs \<Longrightarrow>
     nxt (h (xs ! i)) = (if Suc i < length xs then xs ! Suc i else 0)"
proof (induction xs arbitrary: p i)
  case Nil
  then show ?case by simp
next
  case (Cons x xs)
  then show ?case by (cases i; cases xs) auto
qed

lemma chain_head: "chain h p xs \<Longrightarrow> xs \<noteq> [] \<Longrightarrow> p = xs ! 0"
  by (cases xs) auto

lemma schedule_step:
  assumes ok: "sched_ok s xs" and i: "i < length xs" "current_process s = xs ! i"
  shows "sched_ok (fst (schedule s e)) xs"
    and "current_process (fst (schedule s e)) = succ_in xs i"
    and "snd (schedule s e) = stack_ptr (procs (fst (schedule s e)) (succ_in xs i))"
    and "stack_ptr (procs (fst (schedule s e)) p) = (if p = xs ! i then e else stack_ptr (procs s p))"
proof -
  have ch: "chain (procs s) (process_list s) xs" and d: "distinct xs" using ok by (auto simp: sched_ok_def)
  have nz: "current_process s \<noteq> 0" using chain_nonzero [OF ch] i by (metis nth_mem)
  let ?c = "current_process s"
  have n: "(if nxt (procs s ?c) = 0 then process_list s else nxt (procs s ?c)) = succ_in xs i"
  proof (cases "Suc i < length xs")
    case True
    then have "xs ! Suc i \<noteq> 0" using chain_nonzero [OF ch] by (metis nth_mem)
    then show ?thesis using chain_next [OF ch i(1)] True i(2) by (simp add: succ_in_def)
  next
    case False
    then have "Suc i = length xs" using i(1) by simp
    then have "Suc i mod length xs = 0" by simp
    moreover have "xs \<noteq> []" using i(1) by auto
    ultimately show ?thesis
      using chain_next [OF ch i(1)] chain_head [OF ch] False i(2) by (simp add: succ_in_def)
  qed
  let ?p1 = "(procs s)(?c := (procs s ?c)\<lparr>stack_ptr := e, pstate := READY\<rparr>)"
  let ?n = "succ_in xs i"
  have keep: "nxt (r\<lparr>stack_ptr := e, pstate := READY\<rparr>) = nxt r" for r by simp
  have sch: "schedule s e = (s\<lparr>procs := ?p1(?n := (?p1 ?n)\<lparr>pstate := RUNNING\<rparr>), current_process := ?n\<rparr>,
      stack_ptr ((?p1(?n := (?p1 ?n)\<lparr>pstate := RUNNING\<rparr>)) ?n))"
    by (simp only: schedule_def Let_def nz if_False fun_upd_same keep n)
  then show "current_process (fst (schedule s e)) = succ_in xs i"
    and "snd (schedule s e) = stack_ptr (procs (fst (schedule s e)) (succ_in xs i))"
    and "stack_ptr (procs (fst (schedule s e)) p) = (if p = xs ! i then e else stack_ptr (procs s p))"
    using i(2) by simp_all
  have "?n \<in> set xs" unfolding succ_in_def using i(1) by (intro nth_mem mod_less_divisor) auto
  moreover have "chain (procs (fst (schedule s e))) (process_list s) xs"
    by (rule chain_cong [OF ch]) (simp add: sch)
  ultimately show "sched_ok (fst (schedule s e)) xs"
    using ok d by (auto simp: sched_ok_def sch)
qed

section \<open>Runs\<close>

datatype event = Tick u32 | Spawn u32 u32 "u8 list" u32

text \<open>The steps of the system: a timer tick, or a new process in memory that no process uses.\<close>

inductive sched_step :: "sched \<times> u32 list \<Rightarrow> event \<Rightarrow> sched \<times> u32 list \<Rightarrow> bool" where
  tick: "sched_step (s, xs) (Tick e) (fst (schedule s e), xs)"
| spawn: "p \<noteq> 0 \<Longrightarrow> p \<notin> set xs \<Longrightarrow> add_process p stk s nm entry_point = Some s' \<Longrightarrow>
    sched_step (s, xs) (Spawn p stk nm entry_point) (s', p # xs)"

inductive_cases tickE: "sched_step (s, xs) (Tick e) y"
inductive_cases spawnE: "sched_step (s, xs) (Spawn p stk nm ep) y"

inductive sched_reachable :: "sched \<times> u32 list \<Rightarrow> bool" where
  boot: "p \<noteq> 0 \<Longrightarrow> sched_initialize p stk s = Some s' \<Longrightarrow> sched_reachable (s', [p])"
| step: "sched_reachable x \<Longrightarrow> sched_step x ev y \<Longrightarrow> sched_reachable y"

lemma add_process_ok:
  assumes "sched_ok s xs" and "p \<noteq> 0" and "p \<notin> set xs" and "add_process p stk s nm ep = Some s'"
  shows "sched_ok s' (p # xs)"
proof -
  have ch: "chain (procs s) (process_list s) xs" using assms(1) by (simp add: sched_ok_def)
  have "chain (procs s') (process_list s) xs"
    by (rule chain_cong [OF ch]) (use assms(3,4) in \<open>auto simp: add_process_def Let_def split: if_splits\<close>)
  moreover have "current_process s \<noteq> p" using assms(1,3) by (auto simp: sched_ok_def)
  ultimately show ?thesis
    using assms by (auto simp: sched_ok_def add_process_def Let_def split: if_splits)
qed

lemma sched_reachable_ok:
  assumes "sched_reachable x"
  shows "sched_ok (fst x) (snd x)"
  using assms
proof (induction rule: sched_reachable.induct)
  case (boot p stk s s')
  then show ?case
    by (auto simp: sched_initialize_def add_process_def sched_ok_def Let_def split: if_splits option.splits)
next
  case (step x ev y)
  from step.hyps(2) step.IH show ?case
  proof (cases rule: sched_step.cases)
    case (tick s xs e)
    then obtain i where "i < length xs" "current_process s = xs ! i"
      using step.IH by (auto simp: sched_ok_def in_set_conv_nth)
    then show ?thesis using tick step.IH schedule_step(1) [of s xs i e] by simp
  next
    case (spawn p xs stk s nm ep s')
    then show ?thesis using step.IH add_process_ok by simp
  qed
qed

fun ticks :: "sched \<Rightarrow> u32 list \<Rightarrow> sched" where
  "ticks s [] = s"
| "ticks s (e # es) = ticks (fst (schedule s e)) es"

lemma ticks_round_robin:
  assumes "sched_ok s xs" and "i < length xs" and "current_process s = xs ! i"
  shows "current_process (ticks s es) = xs ! ((i + length es) mod length xs)"
  using assms
proof (induction es arbitrary: s i)
  case Nil
  then show ?case by simp
next
  case (Cons e es)
  let ?i = "Suc i mod length xs"
  have "?i < length xs" using Cons.prems(2) by (intro mod_less_divisor) auto
  then have "current_process (ticks (fst (schedule s e)) es) = xs ! ((?i + length es) mod length xs)"
    using Cons.IH [OF schedule_step(1) [OF Cons.prems]] schedule_step(2) [OF Cons.prems, of e]
    by (simp add: succ_in_def)
  moreover have "(?i + length es) mod length xs = (i + length (e # es)) mod length xs"
    by (simp add: mod_add_left_eq)
  ultimately show ?case by simp
qed

section \<open>A small run\<close>

definition empty_process :: process where
  "empty_process = \<lparr>pid = 0, name = [], pstate = READY, stack_ptr = 0, nxt = 0\<rparr>"

definition sched0 :: sched where
  "sched0 = \<lparr>procs = (\<lambda>_. empty_process), stacks = (\<lambda>_. zero_registers), process_list = 0,
     current_process = 0, next_pid = 0\<rparr>"

definition booted :: sched where
  "booted = the (sched_initialize 0x1000 0x2000 sched0)"

definition two_procs :: sched where
  "two_procs = the (add_process 0x5000 0x6000 booted (bytes ''shell'') 0x100400)"

lemma two_procs_reachable: "sched_reachable (two_procs, [0x5000, 0x1000])"
proof (rule sched_reachable.step)
  show "sched_reachable (booted, [0x1000])"
    by (rule sched_reachable.boot [where stk = "0x2000" and s = sched0])
      (simp_all add: booted_def sched_initialize_def add_process_def Let_def)
  show "sched_step (booted, [0x1000]) (Spawn 0x5000 0x6000 (bytes ''shell'') 0x100400)
      (two_procs, [0x5000, 0x1000])"
    by (rule sched_step.spawn) (simp_all add: two_procs_def add_process_def Let_def)
qed

section \<open>Properties of the scheduler\<close>

text \<open>C4. In every state the kernel can reach by booting, spawning processes and timer ticks,
  the process list is a proper chain without repetition, exactly one process on it is running,
  and that one is the current process; all others are ready.\<close>

theorem scheduler_invariant:
  assumes "sched_reachable (s, xs)"
  shows "chain (procs s) (process_list s) xs \<and> distinct xs \<and> current_process s \<in> set xs \<and>
    {p \<in> set xs. pstate (procs s p) = RUNNING} = {current_process s} \<and>
    (\<forall>p \<in> set xs. pstate (procs s p) \<in> {READY, RUNNING})"
  using sched_reachable_ok [OF assms] by (auto simp: sched_ok_def split: if_splits)

theorem scheduler_invariant_witness:
  "{p \<in> set [0x5000, 0x1000]. pstate (procs two_procs p) = RUNNING} = {current_process two_procs}"
  using scheduler_invariant [OF two_procs_reachable] by simp

text \<open>C5. Round robin: from any reachable state, whatever stack pointers the ticks save, the
  running process after a number of ticks is that many places further on the chain, so every
  process runs within as many ticks as there are processes.\<close>

theorem scheduler_fair:
  assumes "sched_reachable (s, xs)" and "p \<in> set xs"
  shows "\<exists>k < length xs. \<forall>es. length es = k \<longrightarrow> current_process (ticks s es) = p"
proof -
  have ok: "sched_ok s xs" using sched_reachable_ok [OF assms(1)] by simp
  then obtain i where i: "i < length xs" "current_process s = xs ! i"
    by (auto simp: sched_ok_def in_set_conv_nth)
  obtain j where j: "j < length xs" "p = xs ! j" using assms(2) by (auto simp: in_set_conv_nth)
  let ?n = "length xs"
  let ?k = "(j + (?n - i)) mod ?n"
  have "(i + ?k) mod ?n = (i + (j + (?n - i))) mod ?n" by (simp add: mod_add_right_eq)
  also have "\<dots> = j" using i(1) j(1) by simp
  finally have "\<forall>es. length es = ?k \<longrightarrow> current_process (ticks s es) = p"
    using ticks_round_robin [OF ok i] j(2) by simp
  moreover have "?k < ?n" using i(1) by (intro mod_less_divisor) auto
  ultimately show ?thesis by blast
qed

theorem scheduler_fair_witness:
  "\<exists>k < 2. \<forall>es. length es = k \<longrightarrow> current_process (ticks two_procs es) = 0x5000"
  using scheduler_fair [OF two_procs_reachable, of "0x5000"] by (simp add: numeral_2_eq_2)

text \<open>A process that is switched out and later switched in again resumes with the stack
  pointer it was interrupted with: \<open>schedule\<close> saves the one it is given for the current process,
  keeps every other process's, and returns the saved one of the process it picks.\<close>

lemma schedule_saves_stacks:
  assumes "sched_reachable (s, xs)"
  shows "(\<forall>p. stack_ptr (procs (fst (schedule s e)) p) =
      (if p = current_process s then e else stack_ptr (procs s p))) \<and>
    snd (schedule s e) = stack_ptr (procs (fst (schedule s e)) (current_process (fst (schedule s e))))"
proof -
  have ok: "sched_ok s xs" using sched_reachable_ok [OF assms] by simp
  then obtain i where i: "i < length xs" "current_process s = xs ! i"
    by (auto simp: sched_ok_def in_set_conv_nth)
  show ?thesis using schedule_step(2,3,4) [OF ok i] i(2) by simp
qed

lemma schedule_saves_stacks_example:
  "stack_ptr (procs (fst (schedule two_procs 0x2F00)) 0x1000) =
    (if 0x1000 = current_process two_procs then 0x2F00 else stack_ptr (procs two_procs 0x1000))"
  using schedule_saves_stacks [OF two_procs_reachable, of "0x2F00"] by blast


end
