(* ===== verification/Arch.thy ===== *)
theory Arch
  imports Ports
begin

text \<open>
  Processor tables and clocks: the segment descriptors of \<open>kernel/arch/i386/gdt.cpp\<close>, the
  interrupt gates and the controller set-up of \<open>kernel/arch/i386/idt.cpp\<close>, the interval
  timer \<open>kernel/drivers/pit.cpp\<close> and the real-time clock \<open>kernel/drivers/rtc.cpp\<close>. The
  addresses of the assembly stubs are arguments; loading the tables into the processor
  (\<open>gdt_flush\<close>, \<open>idt_flush\<close>) is assembly and has no counterpart.
\<close>

unbundle bit_operations_syntax

section \<open>Global descriptor table\<close>

record gdt_entry =
  limit_low :: u16
  base_low :: u16
  base_middle :: u8
  access :: u8
  granularity :: u8
  base_high :: u8

definition zero_gdt :: gdt_entry where
  "zero_gdt = \<lparr>limit_low = 0, base_low = 0, base_middle = 0, access = 0, granularity = 0, base_high = 0\<rparr>"

definition gdt_gate :: "u32 \<Rightarrow> u32 \<Rightarrow> u8 \<Rightarrow> u8 \<Rightarrow> gdt_entry" where
  "gdt_gate base limit acc gran =
     \<lparr>limit_low = ucast (limit AND 0xFFFF), base_low = ucast (base AND 0xFFFF),
      base_middle = ucast (drop_bit 16 base AND 0xFF), access = acc,
      granularity = ucast (drop_bit 16 limit AND 0x0F) OR (gran AND 0xF0),
      base_high = ucast (drop_bit 24 base AND 0xFF)\<rparr>"

definition gdt_set_gate :: "gdt_entry list \<Rightarrow> nat \<Rightarrow> u32 \<Rightarrow> u32 \<Rightarrow> u8 \<Rightarrow> u8 \<Rightarrow> gdt_entry list" where
  "gdt_set_gate es num base limit acc gran = es[num := gdt_gate base limit acc gran]"

text \<open>The limit of the table pointer and the five entries.\<close>

definition gdt_initialize :: "gdt_entry list \<Rightarrow> u16 \<times> gdt_entry list" where
  "gdt_initialize es =
     (8 * 5 - 1,
      gdt_set_gate (gdt_set_gate (gdt_set_gate (gdt_set_gate (gdt_set_gate es 0 0 0 0 0)
        1 0 0xFFFFFFFF 0x9A 0xCF) 2 0 0xFFFFFFFF 0x92 0xCF) 3 0 0xFFFFFFFF 0xFA 0xCF) 4 0 0xFFFFFFFF 0xF2 0xCF)"

text \<open>What the processor reads out of a descriptor.\<close>

definition gdt_base :: "gdt_entry \<Rightarrow> u32" where
  "gdt_base e = ucast (base_low e) OR push_bit 16 (ucast (base_middle e)) OR push_bit 24 (ucast (base_high e))"

definition gdt_limit :: "gdt_entry \<Rightarrow> u32" where
  "gdt_limit e = ucast (limit_low e) OR push_bit 16 (ucast (granularity e AND 0x0F))"

definition gdt_flags :: "gdt_entry \<Rightarrow> u8" where
  "gdt_flags e = granularity e AND 0xF0"

section \<open>Interrupt descriptor table\<close>

record idt_entry =
  idt_base_low :: u16
  selector :: u16
  zero_byte :: u8
  flags :: u8
  idt_base_high :: u16

definition zero_idt :: idt_entry where
  "zero_idt = \<lparr>idt_base_low = 0, selector = 0, zero_byte = 0, flags = 0, idt_base_high = 0\<rparr>"

definition idt_gate :: "u32 \<Rightarrow> u16 \<Rightarrow> u8 \<Rightarrow> idt_entry" where
  "idt_gate base sel fl = \<lparr>idt_base_low = ucast (base AND 0xFFFF), selector = sel, zero_byte = 0,
     flags = fl, idt_base_high = ucast (drop_bit 16 base AND 0xFFFF)\<rparr>"

definition idt_set_gate :: "u8 \<Rightarrow> u32 \<Rightarrow> u16 \<Rightarrow> u8 \<Rightarrow> idt_entry list \<Rightarrow> idt_entry list" where
  "idt_set_gate num base sel fl es = es[unat num := idt_gate base sel fl]"

definition remap_pic :: "ports \<Rightarrow> ports" where
  "remap_pic s = fold (\<lambda>(p, v). outb p v)
     [(0x20, 0x11), (0xA0, 0x11), (0x21, 0x20), (0xA1, 0x28), (0x21, 0x04), (0xA1, 0x02),
      (0x21, 0x01), (0xA1, 0x01), (0x21, 0x0), (0xA1, 0x0)] s"

text \<open>\<open>isr\<close> and \<open>irq\<close> give the addresses of the assembly stubs.\<close>

definition idt_initialize ::
  "(nat \<Rightarrow> u32) \<Rightarrow> (nat \<Rightarrow> u32) \<Rightarrow> u32 \<Rightarrow> ports \<Rightarrow> u16 \<times> idt_entry list \<times> ports" where
  "idt_initialize isr irq syscall_handler io =
     (let e0 = replicate 256 zero_idt;
          e1 = fold (\<lambda>n. idt_set_gate (of_nat n) (isr n) 0x08 0x8E) [0..<32] e0;
          e2 = fold (\<lambda>n. idt_set_gate (of_nat (32 + n)) (irq n) 0x08 0x8E) [0..<16] e1;
          e3 = idt_set_gate 128 syscall_handler 0x08 0xEE e2
      in (8 * 256 - 1, e3, remap_pic io))"

definition idt_base :: "idt_entry \<Rightarrow> u32" where
  "idt_base e = ucast (idt_base_low e) OR push_bit 16 (ucast (idt_base_high e))"

section \<open>Interval timer\<close>

text \<open>A zero frequency is a division trap.\<close>

definition pit_initialize :: "u32 \<Rightarrow> ports \<Rightarrow> ports option" where
  "pit_initialize frequency s =
     (if frequency = 0 then None
      else let divisor = 1193180 div frequency in
        Some (outb 0x40 (ucast (drop_bit 8 divisor AND 0xFF))
          (outb 0x40 (ucast (divisor AND 0xFF)) (outb 0x43 0x36 s))))"

definition pit_callback :: "u32 \<Rightarrow> u32" where "pit_callback ticks = ticks + 1"

section \<open>Real-time clock\<close>

record rtc_time =
  second :: u8
  minute :: u8
  hour :: u8
  day :: u8
  month :: u8
  year :: u32

definition get_update_in_progress_flag :: "ports \<Rightarrow> u8 \<times> ports" where
  "get_update_in_progress_flag s = (let (v, s1) = inb 0x71 (outb 0x70 0x0A s) in (v AND 0x80, s1))"

definition read_register :: "u8 \<Rightarrow> ports \<Rightarrow> u8 \<times> ports" where
  "read_register reg s = inb 0x71 (outb 0x70 reg s)"

text \<open>
  The wait for the update to finish. Once the scripted inputs are exhausted the port reads all
  ones for ever, the flag stays set and the loop does not end: \<open>None\<close>.
\<close>

function wait_update :: "ports \<Rightarrow> ports option" where
  "wait_update s =
     (if inputs s = [] then None
      else let (f, s1) = get_update_in_progress_flag s in if f \<noteq> 0 then wait_update s1 else Some s1)"
  by pat_completeness auto
termination
  by (relation "measure (\<lambda>s. length (inputs s))")
    (auto simp: get_update_in_progress_flag_def inb_def outb_def Let_def)

declare wait_update.simps [simp del]

definition from_bcd :: "u8 \<Rightarrow> u8" where
  "from_bcd x = (x AND 0x0F) + (x div 16) * 10"

definition from_bcd_hour :: "u8 \<Rightarrow> u8" where
  "from_bcd_hour x = ((x AND 0x0F) + ((x AND 0x70) div 16) * 10) OR (x AND 0x80)"

definition rtc_get_time :: "ports \<Rightarrow> (rtc_time \<times> ports) option" where
  "rtc_get_time s =
     (case wait_update s of
        None \<Rightarrow> None
      | Some s0 \<Rightarrow>
          let (sec, s1) = read_register 0x00 s0; (mi, s2) = read_register 0x02 s1;
              (ho, s3) = read_register 0x04 s2; (da, s4) = read_register 0x07 s3;
              (mo, s5) = read_register 0x08 s4; (ye, s6) = read_register 0x09 s5;
              (registerB, s7) = read_register 0x0B s6;
              bcd = (registerB AND 0x04 = 0);
              ho1 = (if bcd then from_bcd_hour ho else ho);
              ho2 = (if registerB AND 0x02 = 0 \<and> ho1 AND 0x80 \<noteq> 0
                     then ((ho1 AND 0x7F) + 12) mod 24 else ho1);
              ye32 = (if bcd then (ucast ye AND 0x0F) + (ucast ye div 16) * 10 else ucast ye)
          in Some (\<lparr>second = (if bcd then from_bcd sec else sec), minute = (if bcd then from_bcd mi else mi),
                hour = ho2, day = (if bcd then from_bcd da else da), month = (if bcd then from_bcd mo else mo),
                year = ye32 + 2000\<rparr>, s7))"

section \<open>Lemmas\<close>

lemma wait_update_ready:
  "inputs s = x # rest \<Longrightarrow> (ucast x :: u8) AND 0x80 = 0 \<Longrightarrow>
     wait_update s = Some (snd (inb 0x71 (outb 0x70 0x0A s)))"
  by (subst wait_update.simps)
    (auto simp: get_update_in_progress_flag_def inb_def next_input_def outb_def)

definition bcd :: "nat \<Rightarrow> u32" where
  "bcd n = of_nat (n div 10 * 16 + n mod 10)"

lemma from_bcd_bcd: "n < 100 \<Longrightarrow> from_bcd (ucast (bcd n)) = of_nat n"
proof -
  have "\<forall>n \<in> set [0..<100]. from_bcd (ucast (bcd n)) = of_nat n" by code_simp
  then show "n < 100 \<Longrightarrow> from_bcd (ucast (bcd n)) = of_nat n" by simp
qed

lemma from_bcd_hour_bcd:
  "n < 24 \<Longrightarrow> from_bcd_hour (ucast (bcd n)) = of_nat n"
proof -
  have "\<forall>n \<in> set [0..<24]. from_bcd_hour (ucast (bcd n)) = of_nat n" by code_simp
  then show "n < 24 \<Longrightarrow> from_bcd_hour (ucast (bcd n)) = of_nat n" by simp
qed

lemma bcd_year: "n < 100 \<Longrightarrow> ((ucast (ucast (bcd n) :: u8) :: u32) AND 0x0F) +
    (ucast (ucast (bcd n) :: u8) :: u32) div 16 * 10 = of_nat n"
proof -
  have "\<forall>n \<in> set [0..<100]. ((ucast (ucast (bcd n) :: u8) :: u32) AND 0x0F) +
    (ucast (ucast (bcd n) :: u8) :: u32) div 16 * 10 = of_nat n" by code_simp
  then show "n < 100 \<Longrightarrow> ((ucast (ucast (bcd n) :: u8) :: u32) AND 0x0F) +
    (ucast (ucast (bcd n) :: u8) :: u32) div 16 * 10 = of_nat n" by simp
qed

section \<open>Properties\<close>

text \<open>A segment descriptor encodes its arguments without loss: the processor reads back
  the base, the low 20 bits of the limit, the flag nibble and the access byte; and an interrupt
  gate reads back its handler address.\<close>

lemma descriptors_roundtrip:
  "gdt_base (gdt_gate base limit acc gran) = base \<and>
   gdt_limit (gdt_gate base limit acc gran) = take_bit 20 limit \<and>
   gdt_flags (gdt_gate base limit acc gran) = gran AND 0xF0 \<and>
   access (gdt_gate base limit acc gran) = acc \<and>
   idt_base (idt_gate handler sel fl) = handler"
proof -
  have m: "(0xFFFF :: u32) = mask 16" "(0xFF :: u32) = mask 8" "(0x0F :: u32) = mask 4"
    "(0x0F :: u8) = mask 4" "(0xF0 :: u8) = NOT (mask 4)"
    by (simp_all add: mask_eq_exp_minus_1)
  have "gdt_base (gdt_gate base limit acc gran) = base"
  proof (rule bit_word_eqI)
    fix n assume "n < LENGTH(32)"
    then consider "n < 16" | "16 \<le> n" "n < 24" | "24 \<le> n" "n < 32" by fastforce
    then show "bit (gdt_base (gdt_gate base limit acc gran)) n = bit base n"
      unfolding gdt_base_def gdt_gate_def m by cases (auto simp: bit_simps)
  qed
  moreover have "gdt_limit (gdt_gate base limit acc gran) = take_bit 20 limit"
    unfolding gdt_limit_def gdt_gate_def m
    by (rule bit_word_eqI) (auto simp: bit_simps not_less)
  moreover have "gdt_flags (gdt_gate base limit acc gran) = gran AND 0xF0"
    unfolding gdt_flags_def gdt_gate_def m
    by (rule bit_word_eqI) (auto simp: bit_simps not_less)
  moreover have "idt_base (idt_gate handler sel fl) = handler"
    unfolding idt_base_def idt_gate_def m
    by (rule bit_word_eqI) (auto simp: bit_simps not_less)
  ultimately show ?thesis by (simp add: gdt_gate_def)
qed

text \<open>The clock in its usual mode (BCD, 24 hours): whatever date and time it holds,
  \<open>get_time\<close> returns it, the two-digit year counted from 2000.\<close>

lemma rtc_reads_bcd:
  assumes "sec < 60" and "mi < 60" and "ho < 24" and "da < 32" and "mo < 13" and "ye < 100"
    and "inputs s = [0, bcd sec, bcd mi, bcd ho, bcd da, bcd mo, bcd ye, 0x02]"
  shows "map_option fst (rtc_get_time s) = Some \<lparr>second = of_nat sec, minute = of_nat mi,
    hour = of_nat ho, day = of_nat da, month = of_nat mo, year = 2000 + of_nat ye\<rparr>"
proof -
  have w: "wait_update s = Some (snd (inb 0x71 (outb 0x70 0x0A s)))"
    using wait_update_ready [OF assms(7)] by simp
  show ?thesis
    unfolding rtc_get_time_def w
    using assms(1-6) by (simp add: Let_def read_register_def inb_def outb_def next_input_def assms(7)
        from_bcd_bcd from_bcd_hour_bcd bcd_year)
qed

lemma rtc_reads_bcd_example:
  "map_option fst (rtc_get_time \<lparr>inputs = [0, 0x59, 0x30, 0x23, 0x31, 0x12, 0x25, 0x02], trace = []\<rparr>) =
     Some \<lparr>second = 59, minute = 30, hour = 23, day = 31, month = 12, year = 2025\<rparr>"
  using rtc_reads_bcd [of 59 30 23 31 12 25 "\<lparr>inputs = [0, 0x59, 0x30, 0x23, 0x31, 0x12, 0x25, 0x02], trace = []\<rparr>"]
  by (simp add: bcd_def)

text \<open>In the 12-hour mode noon and midnight come out wrong: 12 PM is reported as hour 0 and
  12 AM as hour 12, while 1 to 11 are converted correctly in both halves of the day.\<close>

lemma rtc_twelve_hour:
  assumes "1 \<le> h" and "h \<le> 12" and "inputs s = [0, 0, 0, bcd h OR (if pm then 0x80 else 0), 0, 0, 0, 0]"
  shows "map_option (\<lambda>r. hour (fst r)) (rtc_get_time s) =
    Some (of_nat (if h = 12 then (if pm then 0 else 12) else h + (if pm then 12 else 0)))"
proof -
  have w: "wait_update s = Some (snd (inb 0x71 (outb 0x70 0x0A s)))"
    using wait_update_ready [OF assms(3)] by simp
  have run: "map_option (\<lambda>r. hour (fst r)) (rtc_get_time s) =
      (let b = from_bcd_hour (ucast (bcd h OR (if pm then 0x80 else 0)))
       in Some (if b AND 0x80 \<noteq> 0 then ((b AND 0x7F) + 12) mod 24 else b))"
    unfolding rtc_get_time_def w
    by (simp add: Let_def read_register_def inb_def outb_def next_input_def assms(3))
  have "\<forall>pm \<in> {True, False}. \<forall>h \<in> set [1..<13].
      (let b = from_bcd_hour (ucast (bcd h OR (if pm then 0x80 else 0)))
       in (if b AND 0x80 \<noteq> 0 then ((b AND 0x7F) + 12) mod 24 else b)) =
      of_nat (if h = 12 then (if pm then 0 else 12) else h + (if pm then 12 else 0))"
    by code_simp
  then have "(let b = from_bcd_hour (ucast (bcd h OR (if pm then 0x80 else 0)))
       in (if b AND 0x80 \<noteq> 0 then ((b AND 0x7F) + 12) mod 24 else b)) =
      of_nat (if h = 12 then (if pm then 0 else 12) else h + (if pm then 12 else 0))"
    using assms(1,2) by (cases pm) auto
  then show ?thesis unfolding run Let_def by simp
qed

lemma rtc_twelve_hour_example:
  "map_option (\<lambda>r. hour (fst r)) (rtc_get_time \<lparr>inputs = [0, 0, 0, 0x92, 0, 0, 0, 0], trace = []\<rparr>) = Some 0"
  using rtc_twelve_hour [of 12 "\<lparr>inputs = [0, 0, 0, 0x92, 0, 0, 0, 0], trace = []\<rparr>" True]
  by (simp add: bcd_def)

end
