(* ===== verification/PCI.thy ===== *)
theory PCI
  imports Prelude
begin

text \<open>
  The PCI bus, \<open>kernel/drivers/pci.cpp\<close>, and the detection loops that use its device table
  in \<open>kernel/drivers/usb.cpp\<close> and \<open>kernel/drivers/audio.cpp\<close>. The configuration space is
  a function from the value written to the address port to the double word read back.
\<close>

unbundle bit_operations_syntax

section \<open>Configuration space\<close>

type_synonym cfg = "u32 \<Rightarrow> u32"

record pci_device =
  bus_no :: u8
  slot_no :: u8
  func_no :: u8
  vendor_id :: u16
  device_id :: u16
  class_id :: u16
  subclass_id :: u16
  interrupt_line :: u8

definition pci_address :: "u8 \<Rightarrow> u8 \<Rightarrow> u8 \<Rightarrow> u8 \<Rightarrow> u32" where
  "pci_address b slot func offset =
     push_bit 16 (ucast b) OR push_bit 11 (ucast slot) OR push_bit 8 (ucast func)
       OR (ucast offset AND 0xFC) OR 0x80000000"

definition word_shift :: "u8 \<Rightarrow> nat" where
  "word_shift offset = unat (offset AND 2) * 8"

definition config_read_word :: "cfg \<Rightarrow> u8 \<Rightarrow> u8 \<Rightarrow> u8 \<Rightarrow> u8 \<Rightarrow> u16" where
  "config_read_word c b slot func offset =
     ucast (drop_bit (word_shift offset) (c (pci_address b slot func offset)) AND 0xFFFF)"

definition config_read_dword :: "cfg \<Rightarrow> u8 \<Rightarrow> u8 \<Rightarrow> u8 \<Rightarrow> u8 \<Rightarrow> u32" where
  "config_read_dword c b slot func offset = c (pci_address b slot func offset)"

definition config_write_word :: "cfg \<Rightarrow> u8 \<Rightarrow> u8 \<Rightarrow> u8 \<Rightarrow> u8 \<Rightarrow> u16 \<Rightarrow> cfg" where
  "config_write_word c b slot func offset val =
     (let a = pci_address b slot func offset in
      c(a := (c a AND NOT (push_bit (word_shift offset) 0xFFFF)) OR push_bit (word_shift offset) (ucast val)))"

definition config_write_dword :: "cfg \<Rightarrow> u8 \<Rightarrow> u8 \<Rightarrow> u8 \<Rightarrow> u8 \<Rightarrow> u32 \<Rightarrow> cfg" where
  "config_write_dword c b slot func offset val = c(pci_address b slot func offset := val)"

definition enable_bus_mastering :: "cfg \<Rightarrow> pci_device \<Rightarrow> cfg" where
  "enable_bus_mastering c dev =
     (let command = config_read_word c (bus_no dev) (slot_no dev) (func_no dev) 0x04 in
      if command AND 0x0004 = 0
      then config_write_word c (bus_no dev) (slot_no dev) (func_no dev) 0x04 (command OR 0x0004)
      else c)"

section \<open>Enumeration\<close>

definition pci_entry :: "cfg \<Rightarrow> u8 \<Rightarrow> u8 \<Rightarrow> u8 \<Rightarrow> pci_device" where
  "pci_entry c b slot func =
     (let class_info = config_read_word c b slot func 10 in
      \<lparr>bus_no = b, slot_no = slot, func_no = func, vendor_id = config_read_word c b slot func 0,
       device_id = config_read_word c b slot func 2, class_id = drop_bit 8 class_info,
       subclass_id = class_info AND 0xFF,
       interrupt_line = ucast (config_read_word c b slot func 0x3C AND 0xFF)\<rparr>)"

fun scan_funcs :: "cfg \<Rightarrow> u8 \<Rightarrow> u8 \<Rightarrow> nat list \<Rightarrow> pci_device list \<Rightarrow> pci_device list" where
  "scan_funcs c b slot [] devs = devs"
| "scan_funcs c b slot (func # fs) devs =
     (let vendor = config_read_word c b slot (of_nat func) 0 in
      if vendor = 0xFFFF then (if func = 0 then devs else scan_funcs c b slot fs devs)
      else let devs' = (if length devs < 32 then devs @ [pci_entry c b slot (of_nat func)] else devs) in
        if func = 0 \<and> (config_read_word c b slot 0 14 AND 0xFF) AND 0x80 = 0 then devs'
        else scan_funcs c b slot fs devs')"

definition pci_scan :: "cfg \<Rightarrow> pci_device list" where
  "pci_scan c = fold (\<lambda>b. fold (\<lambda>slot. scan_funcs c (of_nat b) (of_nat slot) [0..<8]) [0..<32]) [0..<4] []"

section \<open>Controllers found by the scan\<close>

definition is_usb :: "pci_device \<Rightarrow> bool" where
  "is_usb d \<longleftrightarrow> class_id d = 0x0C03 \<or> (vendor_id d = 0x8086 \<and> device_id d = 0x265C)"

definition is_audio :: "pci_device \<Rightarrow> bool" where
  "is_audio d \<longleftrightarrow> class_id d = 0x0401 \<or> class_id d = 0x0403 \<or> (vendor_id d = 0x8086 \<and> device_id d = 0x2415)"

section \<open>What the scan finds\<close>

text \<open>The functions of one slot: all present ones when function 0 is multi-function, else it alone.\<close>

definition present_func :: "cfg \<Rightarrow> u8 \<Rightarrow> u8 \<Rightarrow> nat \<Rightarrow> bool" where
  "present_func c b slot f \<longleftrightarrow> config_read_word c b slot (of_nat f) 0 \<noteq> 0xFFFF"

definition slot_devices :: "cfg \<Rightarrow> u8 \<Rightarrow> u8 \<Rightarrow> pci_device list" where
  "slot_devices c b slot =
     (if \<not> present_func c b slot 0 then []
      else map (\<lambda>f. pci_entry c b slot (of_nat f))
        (if bit (config_read_word c b slot 0 14) 7 then filter (present_func c b slot) [0..<8] else [0]))"

lemma scan_funcs_above:
  "0 \<notin> set fs \<Longrightarrow> length devs \<le> 32 \<Longrightarrow> scan_funcs c b slot fs devs =
     take 32 (devs @ map (\<lambda>f. pci_entry c b slot (of_nat f)) (filter (present_func c b slot) fs))"
proof (induction fs arbitrary: devs)
  case Nil
  then show ?case by simp
next
  case (Cons f fs)
  then have "f \<noteq> 0" by auto
  then show ?case using Cons by (auto simp: present_func_def Let_def take_Cons')
qed

lemma multi_bit: "(w AND 0xFF) AND 0x80 = 0 \<longleftrightarrow> \<not> bit (w :: u16) 7"
proof -
  have "(w AND 0xFF) AND 0x80 = w AND 2 ^ 7" by (simp add: and.assoc)
  then show ?thesis by (simp only: and_exp_eq_0_iff_not_bit)
qed

lemma scan_slot:
  assumes "length devs \<le> 32"
  shows "scan_funcs c b slot [0..<8] devs = take 32 (devs @ slot_devices c b slot)"
proof -
  have up: "[0..<8] = 0 # [1..<8]" by (simp add: upt_rec)
  have nz: "0 \<notin> set [1..<(8 :: nat)]" by simp
  show ?thesis
  proof (cases "present_func c b slot 0")
    case False
    then show ?thesis using assms unfolding up by (simp add: present_func_def slot_devices_def)
  next
    case True
    let ?d = "if length devs < 32 then devs @ [pci_entry c b slot 0] else devs"
    have d: "?d = take 32 (devs @ [pci_entry c b slot 0])" "length ?d \<le> 32" using assms by auto
    show ?thesis
    proof (cases "bit (config_read_word c b slot 0 14) 7")
      case single: False
      then have "scan_funcs c b slot [0..<8] devs = ?d"
        using True unfolding up by (simp add: present_func_def multi_bit)
      then show ?thesis using True single d(1) by (simp add: slot_devices_def)
    next
      case multi: True
      have "scan_funcs c b slot [0..<8] devs = scan_funcs c b slot [1..<8] ?d"
        using True multi unfolding up by (simp add: present_func_def multi_bit)
      also have "\<dots> = take 32 (?d @ map (\<lambda>f. pci_entry c b slot (of_nat f))
          (filter (present_func c b slot) [1..<8]))"
        by (rule scan_funcs_above [OF nz d(2)])
      also have "\<dots> = take 32 (devs @ slot_devices c b slot)"
        using True multi assms unfolding slot_devices_def up by (cases "length devs < 32") auto
      finally show ?thesis .
    qed
  qed
qed

lemma scan_slots:
  "length devs \<le> 32 \<Longrightarrow> fold (\<lambda>slot. scan_funcs c b (of_nat slot) [0..<8]) ss devs =
     take 32 (devs @ concat (map (\<lambda>slot. slot_devices c b (of_nat slot)) ss))"
proof (induction ss arbitrary: devs)
  case Nil
  then show ?case by simp
next
  case (Cons s ss)
  have "length (take 32 (devs @ slot_devices c b (of_nat s))) \<le> 32" by simp
  from Cons.IH [OF this] Cons.prems show ?case
    by (simp add: scan_slot take_add) (auto simp: min_def take_Cons' not_le)
qed

lemma scan_buses:
  "length devs \<le> 32 \<Longrightarrow> fold (\<lambda>b. fold (\<lambda>slot. scan_funcs c (of_nat b) (of_nat slot) [0..<8]) [0..<32]) bs devs =
      take 32 (devs @ concat (map (\<lambda>b. concat (map (\<lambda>slot. slot_devices c (of_nat b) (of_nat slot)) [0..<32])) bs))"
proof (induction bs arbitrary: devs)
  case Nil
  then show ?case by simp
next
  case (Cons b bs)
  let ?d = "take 32 (devs @ concat (map (\<lambda>slot. slot_devices c (of_nat b) (of_nat slot)) [0..<32]))"
  have "length ?d \<le> 32" by simp
  have tk: "take n (take n xs @ ys) = take n (xs @ ys)" for n and xs ys :: "'x list"
    by (simp add: take_add) (auto simp: min_def)
  have "fold (\<lambda>b. fold (\<lambda>slot. scan_funcs c (of_nat b) (of_nat slot) [0..<8]) [0..<32]) (b # bs) devs =
      fold (\<lambda>b. fold (\<lambda>slot. scan_funcs c (of_nat b) (of_nat slot) [0..<8]) [0..<32]) bs ?d"
    using scan_slots [OF Cons.prems, of c "of_nat b" "[0..<32]"] by (simp only: fold.simps comp_apply)
  also have "\<dots> = take 32 (?d @ concat (map (\<lambda>b. concat (map (\<lambda>slot.
      slot_devices c (of_nat b) (of_nat slot)) [0..<32])) bs))"
    by (rule Cons.IH) (rule \<open>length ?d \<le> 32\<close>)
  also have "\<dots> = take 32 ((devs @ concat (map (\<lambda>slot. slot_devices c (of_nat b) (of_nat slot)) [0..<32])) @
      concat (map (\<lambda>b. concat (map (\<lambda>slot. slot_devices c (of_nat b) (of_nat slot)) [0..<32])) bs))"
    by (rule tk)
  finally show ?case by (simp only: append_assoc list.map concat.simps)
qed

section \<open>Properties\<close>

text \<open>C32. \<open>scan\<close> enumerates exactly the functions the configuration space has on buses 0 to 3,
  in bus, slot and function order, the functions 1 to 7 of a slot only when its function 0 is
  present and multi-function, and keeps the first 32.\<close>

theorem pci_scan_complete:
  "pci_scan c = take 32 (concat (map (\<lambda>b. concat (map (\<lambda>slot. slot_devices c (of_nat b) (of_nat slot)) [0..<32])) [0..<4]))"
  using scan_buses [of "[]" c "[0..<4]"] by (simp add: pci_scan_def)

text \<open>The class code the scan stores is the 8-bit base class, so comparing it with a class
  and subclass pair never succeeds: a device counts as a USB or audio controller only through
  the one vendor and device number each driver also accepts.\<close>

lemma pci_class_never_matches:
  "\<forall>d \<in> set (pci_scan c). class_id d < 256 \<and>
     (is_usb d \<longleftrightarrow> vendor_id d = 0x8086 \<and> device_id d = 0x265C) \<and>
     (is_audio d \<longleftrightarrow> vendor_id d = 0x8086 \<and> device_id d = 0x2415)"
proof
  fix d assume "d \<in> set (pci_scan c)"
  then obtain b slot f where d: "d = pci_entry c b slot f"
    unfolding pci_scan_def scan_buses [of "[]", simplified] using set_take_subset by (fastforce simp: slot_devices_def split: if_splits)
  have "unat (config_read_word c b slot 10 10) div 256 < 256" for b slot
    using unat_u16_lt by (simp add: div_less_iff_less_mult)
  have "unat (drop_bit 8 w :: u16) < 256" for w :: u16
    using unat_u16_lt [of w] by (simp add: drop_bit_eq_div unat_div div_less_iff_less_mult)
  then have "class_id d < 256" unfolding d by (simp add: pci_entry_def Let_def word_less_nat_alt)
  then show "class_id d < 256 \<and>
     (is_usb d \<longleftrightarrow> vendor_id d = 0x8086 \<and> device_id d = 0x265C) \<and>
     (is_audio d \<longleftrightarrow> vendor_id d = 0x8086 \<and> device_id d = 0x2415)"
    by (auto simp: is_usb_def is_audio_def word_less_nat_alt)
qed

lemma pci_class_never_matches_example:
  "class_id (hd (pci_scan (\<lambda>a. if a = 0x80000000 then 0x12345678 else if a = 0x80000008 then 0x0C032000 else if a = 0x8000000C then 0 else 0xFFFFFFFF))) < 256"
proof -
  let ?c = "\<lambda>a. if a = 0x80000000 then 0x12345678 else if a = 0x80000008 then 0x0C032000 else if a = 0x8000000C then 0 else 0xFFFFFFFF :: u32"
  have "slot_devices ?c (of_nat 0) (of_nat 0) \<noteq> []"
    by (simp add: slot_devices_def present_func_def config_read_word_def pci_address_def word_shift_def)
  then have "pci_scan ?c \<noteq> []"
    unfolding pci_scan_def scan_buses [of "[]", simplified] by (fastforce simp: upt_rec [of 0])
  then show ?thesis using pci_class_never_matches [of ?c] by simp
qed

end
