(* ===== verification/Crypto.thy ===== *)
theory Crypto
  imports CString
begin

text \<open>
  The cryptography of the file system, \<open>kernel/fs/crypto.cpp\<close>: AES-128 on 16-byte blocks,
  the buffer encryption that is in use instead of it, SHA-256, the keyed hash and the key
  manager. Blocks and keys are byte lists; a buffer handed to the hash is the memory that
  starts there, since the code reads 64 bytes of it whatever its size is.
\<close>

unbundle bit_operations_syntax

section \<open>AES-128\<close>

definition s_box :: "u8 list" where
  "s_box =
     [0x63, 0x7c, 0x77, 0x7b, 0xf2, 0x6b, 0x6f, 0xc5, 0x30, 0x01, 0x67, 0x2b, 0xfe, 0xd7, 0xab, 0x76,
      0xca, 0x82, 0xc9, 0x7d, 0xfa, 0x59, 0x47, 0xf0, 0xad, 0xd4, 0xa2, 0xaf, 0x9c, 0xa4, 0x72, 0xc0,
      0xb7, 0xfd, 0x93, 0x26, 0x36, 0x3f, 0xf7, 0xcc, 0x34, 0xa5, 0xe5, 0xf1, 0x71, 0xd8, 0x31, 0x15,
      0x04, 0xc7, 0x23, 0xc3, 0x18, 0x96, 0x05, 0x9a, 0x07, 0x12, 0x80, 0xe2, 0xeb, 0x27, 0xb2, 0x75,
      0x09, 0x83, 0x2c, 0x1a, 0x1b, 0x6e, 0x5a, 0xa0, 0x52, 0x3b, 0xd6, 0xb3, 0x29, 0xe3, 0x2f, 0x84,
      0x53, 0xd1, 0x00, 0xed, 0x20, 0xfc, 0xb1, 0x5b, 0x6a, 0xcb, 0xbe, 0x39, 0x4a, 0x4c, 0x58, 0xcf,
      0xd0, 0xef, 0xaa, 0xfb, 0x43, 0x4d, 0x33, 0x85, 0x45, 0xf9, 0x02, 0x7f, 0x50, 0x3c, 0x9f, 0xa8,
      0x51, 0xa3, 0x40, 0x8f, 0x92, 0x9d, 0x38, 0xf5, 0xbc, 0xb6, 0xda, 0x21, 0x10, 0xff, 0xf3, 0xd2,
      0xcd, 0x0c, 0x13, 0xec, 0x5f, 0x97, 0x44, 0x17, 0xc4, 0xa7, 0x7e, 0x3d, 0x64, 0x5d, 0x19, 0x73,
      0x60, 0x81, 0x4f, 0xdc, 0x22, 0x2a, 0x90, 0x88, 0x46, 0xee, 0xb8, 0x14, 0xde, 0x5e, 0x0b, 0xdb,
      0xe0, 0x32, 0x3a, 0x0a, 0x49, 0x06, 0x24, 0x5c, 0xc2, 0xd3, 0xac, 0x62, 0x91, 0x95, 0xe4, 0x79,
      0xe7, 0xc8, 0x37, 0x6d, 0x8d, 0xd5, 0x4e, 0xa9, 0x6c, 0x56, 0xf4, 0xea, 0x65, 0x7a, 0xae, 0x08,
      0xba, 0x78, 0x25, 0x2e, 0x1c, 0xa6, 0xb4, 0xc6, 0xe8, 0xdd, 0x74, 0x1f, 0x4b, 0xbd, 0x8b, 0x8a,
      0x70, 0x3e, 0xb5, 0x66, 0x48, 0x03, 0xf6, 0x0e, 0x61, 0x35, 0x57, 0xb9, 0x86, 0xc1, 0x1d, 0x9e,
      0xe1, 0xf8, 0x98, 0x11, 0x69, 0xd9, 0x8e, 0x94, 0x9b, 0x1e, 0x87, 0xe9, 0xce, 0x55, 0x28, 0xdf,
      0x8c, 0xa1, 0x89, 0x0d, 0xbf, 0xe6, 0x42, 0x68, 0x41, 0x99, 0x2d, 0x0f, 0xb0, 0x54, 0xbb, 0x16]"

definition inv_s_box :: "u8 list" where
  "inv_s_box =
     [0x52, 0x09, 0x6a, 0xd5, 0x30, 0x36, 0xa5, 0x38, 0xbf, 0x40, 0xa3, 0x9e, 0x81, 0xf3, 0xd7, 0xfb,
      0x7c, 0xe3, 0x39, 0x82, 0x9b, 0x2f, 0xff, 0x87, 0x34, 0x8e, 0x43, 0x44, 0xc4, 0xde, 0xe9, 0xcb,
      0x54, 0x7b, 0x94, 0x32, 0xa6, 0xc2, 0x23, 0x3d, 0xee, 0x4c, 0x95, 0x0b, 0x42, 0xfa, 0xc3, 0x4e,
      0x08, 0x2e, 0xa1, 0x66, 0x28, 0xd9, 0x24, 0xb2, 0x76, 0x5b, 0xa2, 0x49, 0x6d, 0x8b, 0xd1, 0x25,
      0x72, 0xf8, 0xf6, 0x64, 0x86, 0x68, 0x98, 0x16, 0xd4, 0xa4, 0x5c, 0xcc, 0x5d, 0x65, 0xb6, 0x92,
      0x6c, 0x70, 0x48, 0x50, 0xfd, 0xed, 0xb9, 0xda, 0x5e, 0x15, 0x46, 0x57, 0xa7, 0x8d, 0x9d, 0x84,
      0x90, 0xd8, 0xab, 0x00, 0x8c, 0xbc, 0xd3, 0x0a, 0xf7, 0xe4, 0x58, 0x05, 0xb8, 0xb3, 0x45, 0x06,
      0xd0, 0x2c, 0x1e, 0x8f, 0xca, 0x3f, 0x0f, 0x02, 0xc1, 0xaf, 0xbd, 0x03, 0x01, 0x13, 0x8a, 0x6b,
      0x3a, 0x91, 0x11, 0x41, 0x4f, 0x67, 0xdc, 0xea, 0x97, 0xf2, 0xcf, 0xce, 0xf0, 0xb4, 0xe6, 0x73,
      0x96, 0xac, 0x74, 0x22, 0xe7, 0xad, 0x35, 0x85, 0xe2, 0xf9, 0x37, 0xe8, 0x1c, 0x75, 0xdf, 0x6e,
      0x47, 0xf1, 0x1a, 0x71, 0x1d, 0x29, 0xc5, 0x89, 0x6f, 0xb7, 0x62, 0x0e, 0xaa, 0x18, 0xbe, 0x1b,
      0xfc, 0x56, 0x3e, 0x4b, 0xc6, 0xd2, 0x79, 0x20, 0x9a, 0xdb, 0xc0, 0xfe, 0x78, 0xcd, 0x5a, 0xf4,
      0x1f, 0xdd, 0xa8, 0x33, 0x88, 0x07, 0xc7, 0x31, 0xb1, 0x12, 0x10, 0x59, 0x27, 0x80, 0xec, 0x5f,
      0x60, 0x51, 0x7f, 0xa9, 0x19, 0xb5, 0x4a, 0x0d, 0x2d, 0xe5, 0x7a, 0x9f, 0x93, 0xc9, 0x9c, 0xef,
      0xa0, 0xe0, 0x3b, 0x4d, 0xae, 0x2a, 0xf5, 0xb0, 0xc8, 0xeb, 0xbb, 0x3c, 0x83, 0x53, 0x99, 0x61,
      0x17, 0x2b, 0x04, 0x7e, 0xba, 0x77, 0xd6, 0x26, 0xe1, 0x69, 0x14, 0x63, 0x55, 0x21, 0x0c, 0x7d]"

definition xtime :: "u8 \<Rightarrow> u8" where
  "xtime x = push_bit 1 x XOR (if x AND 0x80 \<noteq> 0 then 0x1B else 0x00)"

fun multiply_loop :: "nat \<Rightarrow> u8 \<Rightarrow> u8 \<Rightarrow> u8 \<Rightarrow> u8" where
  "multiply_loop 0 result temp y = result"
| "multiply_loop (Suc n) result temp y =
     multiply_loop n (if y AND 1 \<noteq> 0 then result XOR temp else result) (xtime temp) (drop_bit 1 y)"

definition multiply :: "u8 \<Rightarrow> u8 \<Rightarrow> u8" where
  "multiply x y = multiply_loop 8 0 x y"

definition add_round_key :: "u8 list \<Rightarrow> u8 list \<Rightarrow> u8 list" where
  "add_round_key round_key state = map2 (XOR) state round_key"

definition sub_bytes :: "u8 list \<Rightarrow> u8 list" where
  "sub_bytes state = map (\<lambda>b. s_box ! unat b) state"

definition inv_sub_bytes :: "u8 list \<Rightarrow> u8 list" where
  "inv_sub_bytes state = map (\<lambda>b. inv_s_box ! unat b) state"

text \<open>The row shifts as the code's chains of assignments through \<open>temp\<close>.\<close>

definition shift_rows :: "u8 list \<Rightarrow> u8 list" where
  "shift_rows s =
     (let temp = s ! 1; s = s[1 := s ! 5]; s = s[5 := s ! 9]; s = s[9 := s ! 13]; s = s[13 := temp];
          temp = s ! 2; s = s[2 := s ! 10]; s = s[10 := temp];
          temp = s ! 6; s = s[6 := s ! 14]; s = s[14 := temp];
          temp = s ! 3; s = s[3 := s ! 15]; s = s[15 := s ! 11]; s = s[11 := s ! 7]; s = s[7 := temp]
      in s)"

definition inv_shift_rows :: "u8 list \<Rightarrow> u8 list" where
  "inv_shift_rows s =
     (let temp = s ! 13; s = s[13 := s ! 9]; s = s[9 := s ! 5]; s = s[5 := s ! 1]; s = s[1 := temp];
          temp = s ! 2; s = s[2 := s ! 10]; s = s[10 := temp];
          temp = s ! 6; s = s[6 := s ! 14]; s = s[14 := temp];
          temp = s ! 7; s = s[7 := s ! 11]; s = s[11 := s ! 15]; s = s[15 := s ! 3]; s = s[3 := temp]
      in s)"

definition mix_column :: "nat \<Rightarrow> u8 list \<Rightarrow> u8 list" where
  "mix_column i s =
     (let s0 = s ! (i * 4); s1 = s ! (i * 4 + 1); s2 = s ! (i * 4 + 2); s3 = s ! (i * 4 + 3) in
      s[i * 4 := multiply s0 2 XOR multiply s1 3 XOR s2 XOR s3,
        i * 4 + 1 := s0 XOR multiply s1 2 XOR multiply s2 3 XOR s3,
        i * 4 + 2 := s0 XOR s1 XOR multiply s2 2 XOR multiply s3 3,
        i * 4 + 3 := multiply s0 3 XOR s1 XOR s2 XOR multiply s3 2])"

definition mix_columns :: "u8 list \<Rightarrow> u8 list" where
  "mix_columns s = fold mix_column [0..<4] s"

definition inv_mix_column :: "nat \<Rightarrow> u8 list \<Rightarrow> u8 list" where
  "inv_mix_column i s =
     (let s0 = s ! (i * 4); s1 = s ! (i * 4 + 1); s2 = s ! (i * 4 + 2); s3 = s ! (i * 4 + 3) in
      s[i * 4 := multiply s0 0x0E XOR multiply s1 0x0B XOR multiply s2 0x0D XOR multiply s3 0x09,
        i * 4 + 1 := multiply s0 0x09 XOR multiply s1 0x0E XOR multiply s2 0x0B XOR multiply s3 0x0D,
        i * 4 + 2 := multiply s0 0x0D XOR multiply s1 0x09 XOR multiply s2 0x0E XOR multiply s3 0x0B,
        i * 4 + 3 := multiply s0 0x0B XOR multiply s1 0x0D XOR multiply s2 0x09 XOR multiply s3 0x0E])"

definition inv_mix_columns :: "u8 list \<Rightarrow> u8 list" where
  "inv_mix_columns s = fold inv_mix_column [0..<4] s"

text \<open>
  The key schedule: the 176-byte array is filled from the front, so it is a growing list. The
  round constant is the shifted bit truncated to a byte.
\<close>

definition rcon :: "nat \<Rightarrow> u8" where
  "rcon n = ucast (push_bit (n - 1) 1 :: u32)"

definition schedule_with :: "(nat \<Rightarrow> u8) \<Rightarrow> u8 list \<Rightarrow> u8 list" where
  "schedule_with rc rk =
     (let i = length rk;
          temp = [rk ! (i - 4), rk ! (i - 3), rk ! (i - 2), rk ! (i - 1)];
          temp = (if i mod 16 = 0
                  then let r = [temp ! 1, temp ! 2, temp ! 3, temp ! 0];
                           q = map (\<lambda>b. s_box ! unat b) r
                       in q[0 := q ! 0 XOR rc (i div 16)]
                  else temp)
      in rk @ [rk ! (i - 16) XOR temp ! 0, rk ! (i - 15) XOR temp ! 1,
               rk ! (i - 14) XOR temp ! 2, rk ! (i - 13) XOR temp ! 3])"

definition schedule_word :: "u8 list \<Rightarrow> u8 list" where
  "schedule_word rk = schedule_with rcon rk"

definition key_expansion :: "u8 list \<Rightarrow> u8 list" where
  "key_expansion key = (schedule_word ^^ 40) (take 16 key)"

definition round_key :: "u8 list \<Rightarrow> nat \<Rightarrow> u8 list" where
  "round_key rks r = take 16 (drop (r * 16) rks)"

definition encrypt_round :: "u8 list \<Rightarrow> nat \<Rightarrow> u8 list \<Rightarrow> u8 list" where
  "encrypt_round rks r s = add_round_key (round_key rks r) (mix_columns (shift_rows (sub_bytes s)))"

definition decrypt_round :: "u8 list \<Rightarrow> nat \<Rightarrow> u8 list \<Rightarrow> u8 list" where
  "decrypt_round rks r s = inv_mix_columns (add_round_key (round_key rks r) (inv_sub_bytes (inv_shift_rows s)))"

definition encrypt_block :: "u8 list \<Rightarrow> u8 list \<Rightarrow> u8 list" where
  "encrypt_block key block =
     (let rks = key_expansion key;
          s = add_round_key (round_key rks 0) block;
          s = fold (encrypt_round rks) [1..<10] s
      in add_round_key (round_key rks 10) (shift_rows (sub_bytes s)))"

definition decrypt_block :: "u8 list \<Rightarrow> u8 list \<Rightarrow> u8 list" where
  "decrypt_block key block =
     (let rks = key_expansion key;
          s = add_round_key (round_key rks 10) block;
          s = fold (decrypt_round rks) (rev [1..<10]) s
      in add_round_key (round_key rks 0) (inv_sub_bytes (inv_shift_rows s)))"

text \<open>What the file system uses today: the buffer XORed with the repeated key.\<close>

definition encrypt_buffer :: "u8 list \<Rightarrow> u8 list \<Rightarrow> u8 list" where
  "encrypt_buffer key buffer = map (\<lambda>i. buffer ! i XOR key ! (i mod 16)) [0..<length buffer]"

definition decrypt_buffer :: "u8 list \<Rightarrow> u8 list \<Rightarrow> u8 list" where
  "decrypt_buffer key buffer = encrypt_buffer key buffer"

section \<open>Keys\<close>

record key_manager =
  master_key :: "u8 list"
  hmac_key :: "u8 list"
  key_ready :: bool

definition key_manager0 :: key_manager where
  "key_manager0 = \<lparr>master_key = replicate 16 0, hmac_key = replicate 32 0, key_ready = False\<rparr>"

definition mix_key :: "nat \<Rightarrow> u8 list \<Rightarrow> u8 list" where
  "mix_key n password =
     fold (\<lambda>(i, c) k. let x = k ! (i mod n) XOR c in k[i mod n := (x * 7 + 13) AND 0xFF])
       (enumerate 0 password) (replicate n 0)"

definition derive_key :: "u8 list \<Rightarrow> u8 list" where
  "derive_key password = mix_key 16 password"

definition km_initialize :: "key_manager \<Rightarrow> key_manager" where
  "km_initialize k =
     (if \<not> key_ready k
      then k\<lparr>master_key := derive_key (bytes ''MesaOS_Encrypted''), key_ready := True\<rparr> else k)"

definition get_master_key :: "key_manager \<Rightarrow> key_manager \<times> u8 list" where
  "get_master_key k = (let k1 = (if \<not> key_ready k then km_initialize k else k) in (k1, master_key k1))"

definition get_hmac_key :: "key_manager \<Rightarrow> key_manager \<times> u8 list" where
  "get_hmac_key k = (let k1 = (if \<not> key_ready k then km_initialize k else k) in (k1, hmac_key k1))"

definition derive_keys_from_password :: "u8 list \<Rightarrow> key_manager \<Rightarrow> key_manager" where
  "derive_keys_from_password password k =
     (if \<not> key_ready k
      then let combined = mix_key 48 password
           in \<lparr>master_key = take 16 combined, hmac_key = take 32 (drop 16 combined), key_ready = True\<rparr>
      else k)"

section \<open>SHA-256 and the keyed hash\<close>

definition sha256_k :: "u32 list" where
  "sha256_k =
     [0x428A2F98, 0x71374491, 0xB5C0FBCF, 0xE9B5DBA5, 0x3956C25B, 0x59F111F1, 0x923F82A4, 0xAB1C5ED5,
      0xD807AA98, 0x12835B01, 0x243185BE, 0x550C7DC3, 0x72BE5D74, 0x80DEB1FE, 0x9BDC06A7, 0xC19BF174,
      0xE49B69C1, 0xEFBE4786, 0x0FC19DC6, 0x240CA1CC, 0x2DE92C6F, 0x4A7484AA, 0x5CB0A9DC, 0x76F988DA,
      0x983E5152, 0xA831C66D, 0xB00327C8, 0xBF597FC7, 0xC6E00BF3, 0xD5A79147, 0x06CA6351, 0x14292967,
      0x27B70A85, 0x2E1B2138, 0x4D2C6DFC, 0x53380D13, 0x650A7354, 0x766A0ABB, 0x81C2C92E, 0x92722C85,
      0xA2BFE8A1, 0xA81A664B, 0xC24B8B70, 0xC76C51A3, 0xD192E819, 0xD6990624, 0xF40E3585, 0x106AA070,
      0x19A4C116, 0x1E376C08, 0x2748774C, 0x34B0BCB5, 0x391C0CB3, 0x4ED8AA4A, 0x5B9CCA4F, 0x682E6FF3,
      0x748F82EE, 0x78A5636F, 0x84C87814, 0x8CC70208, 0x90BEFFFA, 0xA4506CEB, 0xBEF9A3F7, 0xC67178F2]"

definition sha256_init :: "u32 list" where
  "sha256_init = [0x6A09E667, 0xBB67AE85, 0x3C6EF372, 0xA54FF53A, 0x510E527F, 0x9B05688C, 0x1F83D9AB, 0x5BE0CD19]"

definition rotr32 :: "nat \<Rightarrow> u32 \<Rightarrow> u32" where
  "rotr32 n x = drop_bit n x OR push_bit (32 - n) x"

definition be32 :: "mem \<Rightarrow> nat \<Rightarrow> u32" where
  "be32 m i = push_bit 24 (ucast (m i)) OR push_bit 16 (ucast (m (i + 1)))
      OR push_bit 8 (ucast (m (i + 2))) OR ucast (m (i + 3))"

definition extend_schedule :: "u32 list \<Rightarrow> u32 list" where
  "extend_schedule w =
     (let i = length w;
          x = w ! (i - 15); y = w ! (i - 2);
          s0 = rotr32 7 x XOR rotr32 18 x XOR drop_bit 3 x;
          s1 = rotr32 17 y XOR rotr32 19 y XOR drop_bit 10 y
      in w @ [w ! (i - 16) + s0 + w ! (i - 7) + s1])"

definition message_schedule :: "mem \<Rightarrow> u32 list" where
  "message_schedule data = (extend_schedule ^^ 48) (map (\<lambda>i. be32 data (i * 4)) [0..<16])"

definition sha256_step :: "u32 \<times> u32 \<Rightarrow> u32 list \<Rightarrow> u32 list" where
  "sha256_step kw v =
     (let a = v ! 0; b = v ! 1; c = v ! 2; d = v ! 3; e = v ! 4; f = v ! 5; g = v ! 6; h = v ! 7;
          s1 = rotr32 6 e XOR rotr32 11 e XOR rotr32 25 e;
          ch = (e AND f) XOR (NOT e AND g);
          temp1 = h + s1 + ch + fst kw + snd kw;
          s0 = rotr32 2 a XOR rotr32 13 a XOR rotr32 22 a;
          maj = (a AND b) XOR (a AND c) XOR (b AND c);
          temp2 = s0 + maj
      in [temp1 + temp2, a, b, c, d + temp1, e, f, g])"

definition sha256_transform :: "u32 list \<Rightarrow> mem \<Rightarrow> u32 list" where
  "sha256_transform state data =
     map2 (+) state (fold sha256_step (zip sha256_k (message_schedule data)) state)"

definition be32_bytes :: "u32 \<Rightarrow> u8 list" where
  "be32_bytes w = [ucast (drop_bit 24 w AND 0xFF), ucast (drop_bit 16 w AND 0xFF),
     ucast (drop_bit 8 w AND 0xFF), ucast (w AND 0xFF)]"

definition sha256_padding :: "u64 \<Rightarrow> u8 list" where
  "sha256_padding total_len =
     (let bit_len = total_len * 8 in
      [0x80] @ replicate 55 0 @ map (\<lambda>i. ucast (drop_bit (56 - i * 8) bit_len AND 0xFF)) [0..<8] @ replicate 64 0)"

definition sha256_final :: "u32 list \<Rightarrow> u64 \<Rightarrow> u8 list" where
  "sha256_final state total_len =
     concat (map be32_bytes (sha256_transform state (mem_of (sha256_padding total_len))))"

text \<open>
  \<open>stack\<close> is what lies behind the 32-byte \<open>inner_hash\<close> on the stack: the second transform
  reads 64 bytes from it.
\<close>

definition pad_key :: "u8 list \<Rightarrow> u8 \<Rightarrow> u8 list" where
  "pad_key key x =
     (let k = (if length key \<le> 64 then key else take 32 key)
      in map (\<lambda>b. b XOR x) (k @ replicate (64 - length k) 0))"

definition hmac_compute :: "u8 list \<Rightarrow> u8 list \<Rightarrow> mem \<Rightarrow> nat \<Rightarrow> u8 list" where
  "hmac_compute stack key data data_len =
     (let s1 = sha256_transform sha256_init (mem_of (pad_key key 0x36));
          s2 = sha256_transform s1 data;
          inner_hash = sha256_final s2 (64 + of_nat data_len);
          s3 = sha256_transform sha256_init (mem_of (pad_key key 0x5C));
          s4 = sha256_transform s3 (mem_of (inner_hash @ stack))
      in sha256_final s4 (64 + 32))"

definition hmac_verify :: "u8 list \<Rightarrow> u8 list \<Rightarrow> mem \<Rightarrow> nat \<Rightarrow> u8 list \<Rightarrow> bool" where
  "hmac_verify stack key data data_len expected \<longleftrightarrow>
     memcmp (hmac_compute stack key data data_len) expected 32 = Some 0"

text \<open>\<open>rest\<close> is the memory behind the buffer.\<close>

definition auth_encrypt :: "u8 list \<Rightarrow> key_manager \<Rightarrow> mem \<Rightarrow> u8 list \<Rightarrow> u8 list \<Rightarrow> u8 list \<times> u8 list" where
  "auth_encrypt stack k rest key buffer =
     (let c = encrypt_buffer key buffer
      in (c, hmac_compute stack (snd (get_hmac_key k))
            (\<lambda>i. if i < length c then c ! i else rest (i - length c)) (length c)))"

definition auth_decrypt :: "u8 list \<Rightarrow> key_manager \<Rightarrow> mem \<Rightarrow> u8 list \<Rightarrow> u8 list \<Rightarrow> u8 list \<Rightarrow> u8 list option" where
  "auth_decrypt stack k rest key buffer expected =
     (if \<not> hmac_verify stack (snd (get_hmac_key k))
            (\<lambda>i. if i < length buffer then buffer ! i else rest (i - length buffer)) (length buffer) expected
      then None else Some (decrypt_buffer key buffer))"

section \<open>The steps of a round are invertible\<close>

lemma inv_s_box_table: "map (\<lambda>b. inv_s_box ! unat b) s_box = map of_nat [0..<256]"
  by code_simp

lemma length_s_box: "length s_box = 256"
  by (simp add: s_box_def)

lemma inv_s_box_s_box: "inv_s_box ! unat (s_box ! unat b) = b"
proof -
  have "inv_s_box ! unat (s_box ! unat b) = map (\<lambda>b. inv_s_box ! unat b) s_box ! unat b"
    by (simp add: length_s_box)
  also have "\<dots> = of_nat (unat b)" unfolding inv_s_box_table by simp
  finally show ?thesis by simp
qed

lemma inv_sub_sub: "inv_sub_bytes (sub_bytes s) = s"
  by (simp add: sub_bytes_def inv_sub_bytes_def inv_s_box_s_box comp_def)

lemma length_16:
  assumes "length s = 16"
  obtains a0 a1 a2 a3 a4 a5 a6 a7 a8 a9 a10 a11 a12 a13 a14 a15 where
    "s = [a0, a1, a2, a3, a4, a5, a6, a7, a8, a9, a10, a11, a12, a13, a14, a15]"
  using assms by (auto simp: eval_nat_numeral length_Suc_conv)

lemma inv_shift_shift: "length s = 16 \<Longrightarrow> inv_shift_rows (shift_rows s) = s"
  by (erule length_16) (simp add: shift_rows_def inv_shift_rows_def Let_def)

lemma add_add_round_key:
  "length s = 16 \<Longrightarrow> length k = 16 \<Longrightarrow> add_round_key k (add_round_key k s) = s"
  by (rule nth_equalityI) (simp_all add: add_round_key_def xor.assoc)

lemma length_round [simp]:
  "length (sub_bytes s) = length s" "length (inv_sub_bytes s) = length s"
  "length (shift_rows s) = length s" "length (inv_shift_rows s) = length s"
  "length (add_round_key k s) = min (length s) (length k)"
  by (simp_all add: sub_bytes_def inv_sub_bytes_def shift_rows_def inv_shift_rows_def add_round_key_def Let_def)

lemma xtime_xor: "xtime (a XOR b) = xtime a XOR xtime b"
proof -
  have b7: "x AND 0x80 = 0 \<longleftrightarrow> \<not> bit x 7" for x :: u8
    using and_exp_eq_0_iff_not_bit [of x 7] by simp
  have "bit (a XOR b) 7 \<longleftrightarrow> bit a 7 \<noteq> bit b 7" by (simp add: bit_xor_iff)
  then show ?thesis
    unfolding xtime_def b7 by (auto simp: push_bit_xor ac_simps)
qed

lemma multiply_unfold:
  "multiply x y = multiply_loop (Suc (Suc (Suc (Suc (Suc (Suc (Suc (Suc 0)))))))) 0 x y"
  by (simp add: multiply_def eval_nat_numeral)

lemma multiply_consts:
  "multiply x 2 = xtime x"
  "multiply x 3 = x XOR xtime x"
  "multiply x 0x09 = x XOR xtime (xtime (xtime x))"
  "multiply x 0x0B = x XOR xtime x XOR xtime (xtime (xtime x))"
  "multiply x 0x0D = x XOR xtime (xtime x) XOR xtime (xtime (xtime x))"
  "multiply x 0x0E = xtime x XOR xtime (xtime x) XOR xtime (xtime (xtime x))"
  by (simp_all add: multiply_unfold xor.assoc)

lemma mix_columns_eq:
  "mix_columns [a0, a1, a2, a3, a4, a5, a6, a7, a8, a9, a10, a11, a12, a13, a14, a15] =
     (let m = (\<lambda>s0 s1 s2 s3. [multiply s0 2 XOR multiply s1 3 XOR s2 XOR s3,
        s0 XOR multiply s1 2 XOR multiply s2 3 XOR s3, s0 XOR s1 XOR multiply s2 2 XOR multiply s3 3,
        multiply s0 3 XOR s1 XOR s2 XOR multiply s3 2])
      in m a0 a1 a2 a3 @ m a4 a5 a6 a7 @ m a8 a9 a10 a11 @ m a12 a13 a14 a15)"
  by (simp add: mix_columns_def mix_column_def Let_def upt_rec)

lemma inv_mix_columns_eq:
  "inv_mix_columns [a0, a1, a2, a3, a4, a5, a6, a7, a8, a9, a10, a11, a12, a13, a14, a15] =
     (let m = (\<lambda>s0 s1 s2 s3.
        [multiply s0 0x0E XOR multiply s1 0x0B XOR multiply s2 0x0D XOR multiply s3 0x09,
         multiply s0 0x09 XOR multiply s1 0x0E XOR multiply s2 0x0B XOR multiply s3 0x0D,
         multiply s0 0x0D XOR multiply s1 0x09 XOR multiply s2 0x0E XOR multiply s3 0x0B,
         multiply s0 0x0B XOR multiply s1 0x0D XOR multiply s2 0x09 XOR multiply s3 0x0E])
      in m a0 a1 a2 a3 @ m a4 a5 a6 a7 @ m a8 a9 a10 a11 @ m a12 a13 a14 a15)"
  by (simp add: inv_mix_columns_def inv_mix_column_def Let_def upt_rec)

lemma xor_cancel: "a XOR (a XOR b) = (b :: u8)"
  by (simp flip: xor.assoc)

lemma inv_mix_one:
  fixes s0 s1 s2 s3 :: u8
  defines "r0 \<equiv> multiply s0 2 XOR multiply s1 3 XOR s2 XOR s3"
    and "r1 \<equiv> s0 XOR multiply s1 2 XOR multiply s2 3 XOR s3"
    and "r2 \<equiv> s0 XOR s1 XOR multiply s2 2 XOR multiply s3 3"
    and "r3 \<equiv> multiply s0 3 XOR s1 XOR s2 XOR multiply s3 2"
  shows "multiply r0 0x0E XOR multiply r1 0x0B XOR multiply r2 0x0D XOR multiply r3 0x09 = s0"
    and "multiply r0 0x09 XOR multiply r1 0x0E XOR multiply r2 0x0B XOR multiply r3 0x0D = s1"
    and "multiply r0 0x0D XOR multiply r1 0x09 XOR multiply r2 0x0E XOR multiply r3 0x0B = s2"
    and "multiply r0 0x0B XOR multiply r1 0x0D XOR multiply r2 0x09 XOR multiply r3 0x0E = s3"
  unfolding assms multiply_consts xtime_xor
  by (simp_all add: xor.assoc xor.commute xor.left_commute xor_cancel)

lemma inv_mix_mix: "length s = 16 \<Longrightarrow> inv_mix_columns (mix_columns s) = s"
  by (erule length_16) (simp add: mix_columns_eq inv_mix_columns_eq Let_def inv_mix_one)

lemma length_mix [simp]: "length (mix_columns s) = length s" "length (inv_mix_columns s) = length s"
proof -
  have "length (fold mix_column js s) = length s" "length (fold inv_mix_column js s) = length s" for js
    by (induction js arbitrary: s) (simp_all add: mix_column_def inv_mix_column_def Let_def)
  then show "length (mix_columns s) = length s" "length (inv_mix_columns s) = length s"
    by (simp_all add: mix_columns_def inv_mix_columns_def)
qed

lemma length_key_expansion: "16 \<le> length key \<Longrightarrow> length (key_expansion key) = 176"
proof -
  have "length ((schedule_word ^^ n) k) = length k + 4 * n" for n k
    by (induction n) (simp_all add: schedule_word_def schedule_with_def Let_def)
  then show "16 \<le> length key \<Longrightarrow> length (key_expansion key) = 176"
    by (simp add: key_expansion_def)
qed

section \<open>The interface of a round cipher\<close>

text \<open>
  A cipher built of rounds: each decryption round undoes the encryption round of the same
  number on well-formed states, so running them in the opposite order undoes the whole.
\<close>

locale round_cipher =
  fixes enc :: "nat \<Rightarrow> 'a \<Rightarrow> 'a" and dec :: "nat \<Rightarrow> 'a \<Rightarrow> 'a" and wf :: "'a \<Rightarrow> bool"
  assumes enc_wf: "wf s \<Longrightarrow> wf (enc r s)"
    and dec_enc: "wf s \<Longrightarrow> dec r (enc r s) = s"
begin

lemma rounds_wf: "wf s \<Longrightarrow> wf (fold enc rs s)"
  by (induction rs arbitrary: s) (simp_all add: enc_wf)

lemma rounds_inverse: "wf s \<Longrightarrow> fold dec (rev rs) (fold enc rs s) = s"
  by (induction rs arbitrary: s) (simp_all add: enc_wf dec_enc)

end

text \<open>
  The code's rounds undo one another with the roles of the outer steps shifted: a decryption
  round starts with the byte substitution that the encryption round before it ended with.
\<close>

definition enc_step :: "u8 list \<Rightarrow> nat \<Rightarrow> u8 list \<Rightarrow> u8 list" where
  "enc_step rks r s = (if r < 11 then encrypt_round rks r s else s)"

definition dec_step :: "u8 list \<Rightarrow> nat \<Rightarrow> u8 list \<Rightarrow> u8 list" where
  "dec_step rks r s =
     (if r < 11 then inv_sub_bytes (inv_shift_rows (inv_mix_columns (add_round_key (round_key rks r) s))) else s)"

interpretation aes: round_cipher "enc_step (key_expansion key)" "dec_step (key_expansion key)"
  "\<lambda>s. length s = 16 \<and> 16 \<le> length key" for key
proof (unfold_locales, goal_cases)
  case (1 s r)
  then show ?case by (simp add: enc_step_def encrypt_round_def round_key_def length_key_expansion)
next
  case (2 s r)
  then have "length (round_key (key_expansion key) r) = 16" if "r < 11"
    using that by (simp add: round_key_def length_key_expansion)
  then show ?case
    using 2 by (simp add: enc_step_def dec_step_def encrypt_round_def add_add_round_key inv_mix_mix
        inv_shift_shift inv_sub_sub)
qed

lemma decrypt_rounds:
  "\<forall>r \<in> set rs. r < 11 \<Longrightarrow>
     inv_sub_bytes (inv_shift_rows (fold (decrypt_round rks) rs s)) =
     fold (dec_step rks) rs (inv_sub_bytes (inv_shift_rows s))"
  by (induction rs arbitrary: s) (simp_all add: decrypt_round_def dec_step_def)

lemma encrypt_rounds: "\<forall>r \<in> set rs. r < 11 \<Longrightarrow> fold (encrypt_round rks) rs s = fold (enc_step rks) rs s"
  by (induction rs arbitrary: s) (simp_all add: enc_step_def)

section \<open>Properties of the cipher\<close>

text \<open>C22. \<open>decrypt_block\<close> undoes \<open>encrypt_block\<close> for every block and every 16-byte key.\<close>

theorem aes_roundtrip:
  assumes "length block = 16" and "length key = 16"
  shows "decrypt_block key (encrypt_block key block) = block"
proof -
  let ?rks = "key_expansion key" and ?n = "[1..<10] :: nat list"
  have k: "length (round_key ?rks r) = 16" if "r < 11" for r
    using that assms(2) by (simp add: round_key_def length_key_expansion)
  let ?x = "add_round_key (round_key ?rks 0) block"
  have x: "length ?x = 16 \<and> 16 \<le> length key" using k [of 0] assms by simp
  let ?y = "fold (enc_step ?rks) ?n ?x"
  have y: "length ?y = 16" using aes.rounds_wf [OF x] by blast
  have enc: "encrypt_block key block = add_round_key (round_key ?rks 10) (shift_rows (sub_bytes ?y))"
    using encrypt_rounds [of ?n ?rks ?x] by (simp add: encrypt_block_def Let_def)
  have "decrypt_block key (encrypt_block key block) =
      add_round_key (round_key ?rks 0) (inv_sub_bytes (inv_shift_rows
        (fold (decrypt_round ?rks) (rev ?n) (add_round_key (round_key ?rks 10) (encrypt_block key block)))))"
    by (simp only: decrypt_block_def Let_def)
  also have "\<dots> = add_round_key (round_key ?rks 0) (fold (dec_step ?rks) (rev ?n)
      (inv_sub_bytes (inv_shift_rows (add_round_key (round_key ?rks 10) (encrypt_block key block)))))"
    by (subst decrypt_rounds) simp_all
  also have "\<dots> = add_round_key (round_key ?rks 0) (fold (dec_step ?rks) (rev ?n) ?y)"
    unfolding enc using y k [of 10] by (simp add: add_add_round_key inv_shift_shift inv_sub_sub)
  also have "\<dots> = add_round_key (round_key ?rks 0) ?x"
    using aes.rounds_inverse [OF x, of ?n] by simp
  also have "\<dots> = block" using assms(1) k [of 0] by (simp add: add_add_round_key)
  finally show ?thesis .
qed

theorem aes_roundtrip_witness:
  "decrypt_block (replicate 16 1) (encrypt_block (replicate 16 1) (replicate 16 2)) = replicate 16 2"
  by (rule aes_roundtrip) simp_all

text \<open>The key schedule of the standard: the same steps with the constants of the field.\<close>

definition standard_rcon :: "nat \<Rightarrow> u8" where
  "standard_rcon n = (xtime ^^ (n - 1)) 1"

definition standard_schedule :: "u8 list \<Rightarrow> u8 list" where
  "standard_schedule key = (schedule_with standard_rcon ^^ 40) (take 16 key)"

lemma rcon_table:
  "map rcon [1..<11] = [0x01, 0x02, 0x04, 0x08, 0x10, 0x20, 0x40, 0x80, 0x00, 0x00]"
  "map standard_rcon [1..<11] = [0x01, 0x02, 0x04, 0x08, 0x10, 0x20, 0x40, 0x80, 0x1B, 0x36]"
  by code_simp+

lemma rcon_agree: "1 \<le> n \<Longrightarrow> n \<le> 8 \<Longrightarrow> rcon n = standard_rcon n"
proof -
  have "\<forall>n \<in> set [1..<9]. rcon n = standard_rcon n" by code_simp
  then show "1 \<le> n \<Longrightarrow> n \<le> 8 \<Longrightarrow> rcon n = standard_rcon n" by simp
qed

lemma length_schedule [simp]: "length ((schedule_with rc ^^ n) k) = length k + 4 * n"
  by (induction n) (simp_all add: schedule_with_def Let_def)

lemma schedule_prefix: "m \<le> n \<Longrightarrow> i < length k + 4 * m \<Longrightarrow>
    (schedule_with rc ^^ n) k ! i = (schedule_with rc ^^ m) k ! i"
proof (induction n)
  case 0
  then show ?case by simp
next
  case (Suc n)
  show ?case
  proof (cases "m = Suc n")
    case False
    then have "m \<le> n" using Suc.prems(1) by simp
    moreover have "(schedule_with rc ^^ Suc n) k ! i = (schedule_with rc ^^ n) k ! i"
      using Suc.prems(2) \<open>m \<le> n\<close> by (simp add: schedule_with_def Let_def nth_append)
    ultimately show ?thesis using Suc by simp
  qed simp
qed

lemma schedule_with_cong:
  "rc (length rk div 16) = rc' (length rk div 16) \<Longrightarrow> schedule_with rc rk = schedule_with rc' rk"
  by (simp only: schedule_with_def Let_def)

lemma schedule_agree:
  assumes "length k = 16" and "n \<le> 32"
  shows "(schedule_with rcon ^^ n) k = (schedule_with standard_rcon ^^ n) k"
  using assms(2)
proof (induction n)
  case (Suc n)
  have i: "length ((schedule_with standard_rcon ^^ n) k) = 16 + 4 * n" using assms(1) by simp
  have "1 \<le> (16 + 4 * n) div 16" "(16 + 4 * n) div 16 \<le> 8" using Suc.prems by linarith+
  then have "rcon ((16 + 4 * n) div 16) = standard_rcon ((16 + 4 * n) div 16)" by (rule rcon_agree)
  then have "schedule_with rcon ((schedule_with standard_rcon ^^ n) k) =
      schedule_with standard_rcon ((schedule_with standard_rcon ^^ n) k)"
    unfolding i [symmetric] by (rule schedule_with_cong)
  then show ?case using Suc by simp
qed simp



section \<open>Properties of the buffer encryption and the keyed hash\<close>

lemma length_encrypt_buffer [simp]: "length (encrypt_buffer key buffer) = length buffer"
  by (simp add: encrypt_buffer_def)

lemma decrypt_encrypt_buffer: "decrypt_buffer key (encrypt_buffer key buffer) = buffer"
  by (rule nth_equalityI) (simp_all add: decrypt_buffer_def encrypt_buffer_def xor.assoc)

lemma be32_cong:
  assumes "\<forall>j < 64. m j = m' j" and "i < 16"
  shows "be32 m (i * 4) = be32 m' (i * 4)"
  using assms by (simp add: be32_def)

lemma sha256_transform_cong:
  "\<forall>j < 64. m j = m' j \<Longrightarrow> sha256_transform s m = sha256_transform s m'"
proof -
  assume "\<forall>j < 64. m j = m' j"
  then have "map (\<lambda>i. be32 m (i * 4)) [0..<16] = map (\<lambda>i. be32 m' (i * 4)) [0..<16]"
    by (simp add: be32_cong)
  then show ?thesis by (simp only: sha256_transform_def message_schedule_def)
qed

lemma length_sha256_transform: "length s = 8 \<Longrightarrow> length (sha256_transform s m) = 8"
proof -
  have "length (fold sha256_step xs v) = 8" if "length v = 8" for xs v
    using that by (induction xs arbitrary: v) (simp_all add: sha256_step_def Let_def)
  then show "length s = 8 \<Longrightarrow> length (sha256_transform s m) = 8" by (simp add: sha256_transform_def)
qed

lemma length_sha256_final: "length state = 8 \<Longrightarrow> length (sha256_final state n) = 32"
proof -
  have "length (concat (map be32_bytes ws)) = 4 * length ws" for ws
    by (induction ws) (simp_all add: be32_bytes_def)
  then show "length state = 8 \<Longrightarrow> length (sha256_final state n) = 32"
    by (simp add: sha256_final_def length_sha256_transform)
qed

lemma memcmp_self: "n \<le> length x \<Longrightarrow> memcmp x x n = Some 0"
  using memcmp_total [of n x x] memcmp_zero_iff [of x x n] by auto

lemma length_hmac: "length (hmac_compute stack key data n) = 32"
  unfolding hmac_compute_def Let_def
  by (intro length_sha256_final length_sha256_transform) (simp add: sha256_init_def)

text \<open>The keyed hash sees only the first 64 bytes of the data and its length: two buffers of
  the same length that agree there have the same hash under every key, so a change behind them is
  not detected; and it reads 64 bytes even of a shorter buffer.\<close>

lemma hmac_covers_64_bytes:
  assumes "take 64 a = take 64 b" and "length a = length b" and "64 \<le> length a"
  shows "hmac_compute stack key (mem_of a) (length a) = hmac_compute stack key (mem_of b) (length b) \<and>
    hmac_verify stack key (mem_of b) (length b) (hmac_compute stack key (mem_of a) (length a))"
proof -
  have "\<forall>j < 64. mem_of a j = mem_of b j"
  proof (intro allI impI)
    fix j :: nat assume j: "j < 64"
    then have "take 64 a ! j = take 64 b ! j" using assms(1) by simp
    then show "mem_of a j = mem_of b j" using j assms(2,3) by simp
  qed
  then have eq: "hmac_compute stack key (mem_of a) (length a) = hmac_compute stack key (mem_of b) (length b)"
    using assms(2) sha256_transform_cong by (metis hmac_compute_def)
  show ?thesis using eq by (simp add: hmac_verify_def length_hmac memcmp_self)
qed

lemma hmac_covers_64_bytes_example:
  "hmac_verify [] [1] (mem_of (replicate 64 0 @ [2])) 65 (hmac_compute [] [1] (mem_of (replicate 64 0 @ [3])) 65)"
  using hmac_covers_64_bytes [THEN conjunct2, of "replicate 64 0 @ [3]" "replicate 64 0 @ [2]" "[]" "[1]"] by simp


end
