(* ===== verification/IDE.thy ===== *)
theory IDE
  imports Ports
begin

text \<open>
  The disk driver, \<open>kernel/drivers/ide.cpp\<close>, as a program on the device ports, and the block
  device it makes of a drive: the driver transmits the low 28 bits of a sector number, so the
  disk the file system sees is a map from these to 512-byte sectors. The interface the file
  system relies on is the locale \<open>block_device\<close>, interpreted on that disk.
\<close>

unbundle bit_operations_syntax

section \<open>The port program\<close>

definition STATUS_BSY :: u8 where "STATUS_BSY = 0x80"
definition STATUS_DRQ :: u8 where "STATUS_DRQ = 0x08"

definition ide_initialize :: "ports \<Rightarrow> ports" where
  "ide_initialize s = outb 0x1F6 0xA0 s"

text \<open>A port without scripted input reads all ones: busy for ever, and data ready at once.\<close>

function wait_bsy :: "ports \<Rightarrow> ports option" where
  "wait_bsy s =
     (if inputs s = [] then None
      else let (v, s1) = inb 0x1F7 s in if v AND STATUS_BSY \<noteq> 0 then wait_bsy s1 else Some s1)"
  by pat_completeness auto
termination
  by (relation "measure (\<lambda>s. length (inputs s))") (auto simp: inb_def)

declare wait_bsy.simps [simp del]

function wait_drq :: "ports \<Rightarrow> ports" where
  "wait_drq s =
     (if inputs s = [] then snd (inb 0x1F7 s)
      else let (v, s1) = inb 0x1F7 s in if v AND STATUS_DRQ = 0 then wait_drq s1 else s1)"
  by pat_completeness auto
termination
  by (relation "measure (\<lambda>s. length (inputs s))") (auto simp: inb_def)

declare wait_drq.simps [simp del]

definition ide_command :: "u32 \<Rightarrow> u8 \<Rightarrow> ports \<Rightarrow> ports" where
  "ide_command lba cmd s =
     outb 0x1F7 cmd
       (outb 0x1F5 (ucast (drop_bit 16 lba))
         (outb 0x1F4 (ucast (drop_bit 8 lba))
           (outb 0x1F3 (ucast lba)
             (outb 0x1F2 1
               (outb 0x1F6 (0xE0 OR ucast (drop_bit 24 lba AND 0x0F)) s)))))"

fun read_words :: "nat \<Rightarrow> ports \<Rightarrow> u16 list \<times> ports" where
  "read_words 0 s = ([], s)"
| "read_words (Suc n) s = (let (w, s1) = inw 0x1F0 s; (ws, s2) = read_words n s1 in (w # ws, s2))"

definition write_words :: "u16 list \<Rightarrow> ports \<Rightarrow> ports" where
  "write_words ws s = fold (outw 0x1F0) ws s"

definition read_sector :: "u32 \<Rightarrow> ports \<Rightarrow> (u8 list \<times> ports) option" where
  "read_sector lba s =
     (case wait_bsy s of None \<Rightarrow> None
      | Some s1 \<Rightarrow>
        (case wait_bsy (ide_command lba 0x20 s1) of None \<Rightarrow> None
         | Some s2 \<Rightarrow> let (ws, s3) = read_words 256 (wait_drq s2) in Some (concat (map le16_bytes ws), s3)))"

definition sector_words :: "u8 list \<Rightarrow> u16 list" where
  "sector_words buffer = map (\<lambda>i. le16 (mem_of buffer) (2 * i)) [0..<256]"

definition write_sector :: "u32 \<Rightarrow> u8 list \<Rightarrow> ports \<Rightarrow> ports option" where
  "write_sector lba buffer s =
     (case wait_bsy s of None \<Rightarrow> None
      | Some s1 \<Rightarrow>
        (case wait_bsy (ide_command lba 0x30 s1) of None \<Rightarrow> None
         | Some s2 \<Rightarrow> Some (write_words (sector_words buffer) (wait_drq s2))))"

section \<open>What reaches the drive\<close>

text \<open>The sector number a drive in LBA mode assembles from the registers written.\<close>

definition drive_lba :: "u8 \<Rightarrow> u8 \<Rightarrow> u8 \<Rightarrow> u8 \<Rightarrow> u32" where
  "drive_lba head high mid low =
     push_bit 24 (ucast (head AND 0x0F)) OR push_bit 16 (ucast high) OR push_bit 8 (ucast mid) OR ucast low"

definition lba28 :: "u32 \<Rightarrow> u32" where
  "lba28 lba = lba AND 0x0FFFFFFF"

lemma drive_lba_command:
  "drive_lba (0xE0 OR ucast (drop_bit 24 lba AND 0x0F)) (ucast (drop_bit 16 lba)) (ucast (drop_bit 8 lba)) (ucast lba)
     = lba28 lba"
proof -
  have m: "(0x0FFFFFFF :: u32) = mask 28" "(0x0F :: u32) = mask 4" "(0x0F :: u8) = mask 4"
    "(0xE0 :: u8) = push_bit 5 (mask 3)"
    by (simp_all add: mask_eq_exp_minus_1)
  show ?thesis
  proof (rule bit_word_eqI)
    fix n assume "n < LENGTH(32)"
    then consider "n < 8" | "8 \<le> n" "n < 16" | "16 \<le> n" "n < 24" | "24 \<le> n" "n < 28" | "28 \<le> n" "n < 32"
      by fastforce
    then show "bit (drive_lba (0xE0 OR ucast (drop_bit 24 lba AND 0x0F)) (ucast (drop_bit 16 lba))
        (ucast (drop_bit 8 lba)) (ucast lba)) n = bit (lba28 lba) n"
      unfolding drive_lba_def lba28_def m by cases (auto simp: bit_simps)
  qed
qed

lemma outputs_wait_bsy: "wait_bsy s = Some s' \<Longrightarrow> outputs s' = outputs s"
proof (induction s rule: wait_bsy.induct)
  case (1 s)
  then show ?case
    by (subst (asm) (2) wait_bsy.simps) (auto simp: outputs_in split: if_splits prod.splits)
qed

lemma outputs_wait_drq: "outputs (wait_drq s) = outputs s"
proof (induction s rule: wait_drq.induct)
  case (1 s)
  obtain v s1 where i: "inb 0x1F7 s = (v, s1)" by (cases "inb 0x1F7 s")
  have "outputs s1 = outputs s" using outputs_simps(4) [of "0x1F7" s] i by simp
  then show ?case using 1 [OF _ i [symmetric]] i by (subst wait_drq.simps) (auto simp: Let_def)
qed

lemma outputs_read_words: "outputs (snd (read_words n s)) = outputs s"
proof (induction n arbitrary: s)
  case (Suc n)
  obtain w s1 where i: "inw 0x1F0 s = (w, s1)" by (cases "inw 0x1F0 s")
  have "outputs s1 = outputs s" using outputs_simps(5) [of "0x1F0" s] i by simp
  then show ?case using Suc [of s1] i by (cases "read_words n s1") simp
qed simp

lemma outputs_write_words: "outputs (write_words ws s) = outputs s @ map (Out16 0x1F0) ws"
  by (induction ws arbitrary: s) (simp_all add: write_words_def)

lemma sector_words_bytes: "length buffer = 512 \<Longrightarrow> concat (map le16_bytes (sector_words buffer)) = buffer"
proof -
  assume l: "length buffer = 512"
  have two: "le16_bytes (le16 m i) = [m i, m (i + 1)]" for m i
  proof -
    have "ucast (le16 m i) = m i" unfolding le16_def
      by (rule bit_word_eqI) (auto simp: bit_simps)
    moreover have "ucast (drop_bit 8 (le16 m i)) = m (i + 1)" unfolding le16_def
      by (rule bit_word_eqI) (auto simp: bit_simps dest: bit_imp_le_length)
    ultimately show ?thesis by (simp add: le16_bytes_def)
  qed
  have "concat (map le16_bytes (map (\<lambda>i. le16 (mem_of xs) (2 * i)) [0..<n])) = take (2 * n) xs"
    if "2 * n \<le> length xs" for n and xs :: "u8 list"
    using that
  proof (induction n)
    case (Suc n)
    then have "2 * n + 1 < length xs" by simp
    then show ?case using Suc two [of "mem_of xs" "2 * n"] by (simp add: take_Suc_conv_app_nth)
  qed simp
  from this [of 256 buffer] show ?thesis by (simp add: sector_words_def l)
qed

section \<open>The block device\<close>

type_synonym disk = "u32 \<Rightarrow> u8 list"

definition disk_read :: "disk \<Rightarrow> u32 \<Rightarrow> u8 list" where
  "disk_read d lba = d (lba28 lba)"

definition disk_write :: "disk \<Rightarrow> u32 \<Rightarrow> u8 list \<Rightarrow> disk" where
  "disk_write d lba buffer = d(lba28 lba := buffer)"

definition disk_ok :: "disk \<Rightarrow> bool" where
  "disk_ok d \<longleftrightarrow> (\<forall>lba. length (d lba) = 512)"

text \<open>What the file system relies on, for sectors below a limit of the device.\<close>

locale block_device =
  fixes rd :: "'d \<Rightarrow> u32 \<Rightarrow> u8 list" and wr :: "'d \<Rightarrow> u32 \<Rightarrow> u8 list \<Rightarrow> 'd"
    and ok :: "'d \<Rightarrow> bool" and limit :: nat
  assumes limit_small: "limit \<le> 4294967296"
    and rd_length: "ok d \<Longrightarrow> length (rd d l) = 512"
    and wr_ok: "ok d \<Longrightarrow> length b = 512 \<Longrightarrow> ok (wr d l b)"
    and rd_wr: "ok d \<Longrightarrow> unat l < limit \<Longrightarrow> unat l' < limit \<Longrightarrow> rd (wr d l b) l' = (if l' = l then b else rd d l')"

lemma lba28_small: "unat l < 268435456 \<Longrightarrow> lba28 l = l"
proof -
  assume "unat l < 268435456"
  moreover have "lba28 l = take_bit 28 l"
    by (simp add: lba28_def take_bit_eq_mask mask_eq_exp_minus_1)
  ultimately show "lba28 l = l" by (simp add: take_bit_eq_mod word_unat_eq_iff unat_mod)
qed

interpretation ide: block_device disk_read disk_write disk_ok 268435456
  by unfold_locales (auto simp: disk_read_def disk_write_def disk_ok_def lba28_small)

section \<open>Property\<close>

text \<open>What it takes for a sector write to return: the drive is seen idle, then idle again after the
  command.\<close>

lemma wait_bsy_returns:
  assumes "inputs s = busy @ idle # rest" and "\<forall>b \<in> set busy. ucast b AND STATUS_BSY \<noteq> 0"
    and "ucast idle AND STATUS_BSY = 0"
  shows "\<exists>s'. wait_bsy s = Some s' \<and> inputs s' = rest"
  using assms(1,2)
proof (induction busy arbitrary: s)
  case Nil
  then show ?case using assms(3) by (subst wait_bsy.simps) (simp add: inb_def next_input_def)
next
  case (Cons b busy)
  let ?s1 = "snd (inb 0x1F7 s)"
  have "inputs ?s1 = busy @ idle # rest" using Cons.prems(1) by simp
  from Cons.IH [OF this] Cons.prems show ?case
    by (subst wait_bsy.simps) (simp add: next_input_def inb_def)
qed

lemma inputs_ide_command [simp]: "inputs (ide_command lba cmd s) = inputs s"
  by (simp add: ide_command_def)



end
