(* ===== verification/VFS.thy ===== *)
theory VFS
  imports CString
begin

text \<open>
  The virtual file system, \<open>kernel/fs/vfs.cpp\<close>: nodes with the operations their back end
  installed, dispatch through them, and path lookup. Node pointers are indices into a heap of
  nodes; the null pointer is \<open>None\<close>. The contract a back end gives its clients is the locale
  \<open>file_store\<close>: a file is a byte sequence that writes patch and reads cut out.
\<close>

section \<open>Nodes\<close>

datatype backend = RamBackend | MesaBackend

record fs_node =
  nname :: "u8 list"
  nmask :: u32
  nuid :: u32
  ngid :: u32
  nflags :: u32
  ninode :: u32
  nlength :: u32
  read_op :: "backend option"
  write_op :: "backend option"
  readdir_op :: "backend option"
  finddir_op :: "backend option"

definition FS_FILE :: u32 where "FS_FILE = 0x01"
definition FS_DIRECTORY :: u32 where "FS_DIRECTORY = 0x02"

definition zero_node :: fs_node where
  "zero_node = \<lparr>nname = [], nmask = 0, nuid = 0, ngid = 0, nflags = 0, ninode = 0, nlength = 0,
     read_op = None, write_op = None, readdir_op = None, finddir_op = None\<rparr>"

record vfs =
  nodes :: "fs_node list"

definition is_directory :: "fs_node \<Rightarrow> bool" where
  "is_directory n \<longleftrightarrow> nflags n AND 0x07 = FS_DIRECTORY"

section \<open>Dispatch\<close>

text \<open>The operations a back end provides, as the function pointers of its nodes.\<close>

definition read_fs :: "(backend \<Rightarrow> 's vfs_scheme \<Rightarrow> nat \<Rightarrow> u32 \<Rightarrow> u32 \<Rightarrow> u8 list option) \<Rightarrow>
    's vfs_scheme \<Rightarrow> nat \<Rightarrow> u32 \<Rightarrow> u32 \<Rightarrow> u8 list option" where
  "read_fs ops s n offset sz =
     (case read_op (nodes s ! n) of Some b \<Rightarrow> ops b s n offset sz | None \<Rightarrow> Some [])"

definition write_fs :: "(backend \<Rightarrow> 's vfs_scheme \<Rightarrow> nat \<Rightarrow> u32 \<Rightarrow> u8 list \<Rightarrow> ('s vfs_scheme \<times> u32) option) \<Rightarrow>
    's vfs_scheme \<Rightarrow> nat \<Rightarrow> u32 \<Rightarrow> u8 list \<Rightarrow> ('s vfs_scheme \<times> u32) option" where
  "write_fs ops s n offset data =
     (case write_op (nodes s ! n) of Some b \<Rightarrow> ops b s n offset data | None \<Rightarrow> Some (s, 0))"

definition readdir_fs :: "(backend \<Rightarrow> 's vfs_scheme \<Rightarrow> nat \<Rightarrow> u32 \<Rightarrow> (u8 list \<times> u32) option) \<Rightarrow>
    's vfs_scheme \<Rightarrow> nat \<Rightarrow> u32 \<Rightarrow> (u8 list \<times> u32) option" where
  "readdir_fs ops s n index =
     (if is_directory (nodes s ! n)
      then (case readdir_op (nodes s ! n) of Some b \<Rightarrow> ops b s n index | None \<Rightarrow> None)
      else None)"

definition finddir_fs :: "(backend \<Rightarrow> 's vfs_scheme \<Rightarrow> nat \<Rightarrow> u8 list \<Rightarrow> 's vfs_scheme \<times> nat option) \<Rightarrow>
    's vfs_scheme \<Rightarrow> nat \<Rightarrow> u8 list \<Rightarrow> 's vfs_scheme \<times> nat option" where
  "finddir_fs ops s n name =
     (if is_directory (nodes s ! n)
      then (case finddir_op (nodes s ! n) of Some b \<Rightarrow> ops b s n name | None \<Rightarrow> (s, None))
      else (s, None))"

section \<open>Path lookup\<close>

abbreviation slash :: u8 where "slash \<equiv> 0x2F"

definition component :: "u8 list \<Rightarrow> u8 list" where
  "component p = take 31 (takeWhile (\<lambda>c. c \<noteq> slash) p)"

function find_path_fs ::
  "('s \<Rightarrow> nat \<Rightarrow> u8 list \<Rightarrow> 's \<times> nat option) \<Rightarrow> 's \<Rightarrow> nat \<Rightarrow> u8 list \<Rightarrow> 's \<times> nat option" where
  "find_path_fs fd s root path =
     (if path = [] then (s, Some root)
      else if path = [slash] then (s, Some root)
      else let p = (if hd path = slash then tl path else path);
               name = component p;
               rest = drop (length name) p
           in case fd s root name of
                (s', None) \<Rightarrow> (s', None)
              | (s', Some next) \<Rightarrow>
                  if rest \<noteq> [] \<and> hd rest = slash then find_path_fs fd s' next (tl rest)
                  else (s', Some next))"
  by pat_completeness auto
termination
proof (relation "measure (\<lambda>(fd, s, root, path). length path)", goal_cases)
  case 1
  show ?case by simp
next
  case (2 fd s root path p name rest x s' n)
  then have "path \<noteq> []" "length p \<le> length path" "rest \<noteq> []" "length rest \<le> length p" by auto
  then have "length (tl rest) < length path" by (cases rest) auto
  then show ?case by simp
qed

declare find_path_fs.simps [simp del]

text \<open>The specification: walk the components one directory at a time.\<close>

fun walk :: "('s \<Rightarrow> nat \<Rightarrow> u8 list \<Rightarrow> 's \<times> nat option) \<Rightarrow> 's \<Rightarrow> nat \<Rightarrow> u8 list list \<Rightarrow> 's \<times> nat option" where
  "walk fd s root [] = (s, Some root)"
| "walk fd s root (c # cs) =
     (case fd s root c of (s', None) \<Rightarrow> (s', None) | (s', Some next) \<Rightarrow> walk fd s' next cs)"

definition good_component :: "u8 list \<Rightarrow> bool" where
  "good_component c \<longleftrightarrow> c \<noteq> [] \<and> slash \<notin> set c \<and> length c \<le> 31"

definition join :: "u8 list list \<Rightarrow> u8 list" where
  "join cs = concat (map (\<lambda>c. slash # c) cs)"

lemma component_good:
  assumes "good_component c" and "rest = [] \<or> hd rest = slash"
  shows "component (c @ rest) = c"
proof -
  have "takeWhile (\<lambda>c. c \<noteq> slash) (c @ rest) = c"
    using assms by (cases rest) (auto simp: good_component_def takeWhile_append)
  then show ?thesis using assms(1) by (simp add: component_def good_component_def)
qed

lemma find_path_components:
  "\<forall>c \<in> set (c # cs). good_component c \<Longrightarrow> path = c @ join cs \<or> path = slash # c @ join cs \<Longrightarrow>
     find_path_fs fd s root path = walk fd s root (c # cs)"
proof (induction cs arbitrary: c s root path)
  case Nil
  then have c: "good_component c" by simp
  then have "hd c \<noteq> slash" "c \<noteq> []" by (cases c; auto simp: good_component_def)+
  then have p: "path \<noteq> []" "path \<noteq> [slash]" "(if hd path = slash then tl path else path) = c"
    using Nil.prems(2) by (auto simp: join_def)
  show ?case
    using p component_good [OF c, of "[]"]
    by (subst find_path_fs.simps) (auto simp: Let_def split: prod.splits option.splits)
next
  case (Cons c2 cs)
  then have c: "good_component c" and c2: "\<forall>c \<in> set (c2 # cs). good_component c" by auto
  then have h: "hd c \<noteq> slash" "c \<noteq> []" by (cases c; auto simp: good_component_def)+
  let ?rest = "join (c2 # cs)"
  have rest: "?rest = slash # c2 @ join cs" by (simp add: join_def)
  have p: "path \<noteq> []" "path \<noteq> [slash]" "(if hd path = slash then tl path else path) = c @ ?rest"
    using Cons.prems(2) h by (cases c; auto)+
  have comp: "component (c @ ?rest) = c" by (rule component_good [OF c]) (simp add: rest)
  have IH: "find_path_fs fd s' n (c2 @ join cs) = walk fd s' n (c2 # cs)" for s' n
    by (rule Cons.IH [OF c2]) simp
  show ?case
    unfolding find_path_fs.simps [of fd s root path]
    using p comp IH by (auto simp: Let_def rest split: prod.splits option.splits)
qed

section \<open>The contract of a file store\<close>

definition patch :: "u8 list \<Rightarrow> nat \<Rightarrow> u8 list \<Rightarrow> u8 list" where
  "patch xs off data = take off xs @ data @ drop (off + length data) xs"

lemma length_patch [simp]: "off \<le> length xs \<Longrightarrow> length (patch xs off data) = max (length xs) (off + length data)"
  by (simp add: patch_def)

lemma cut_patch: "off \<le> length xs \<Longrightarrow> take (length data) (drop off (patch xs off data)) = data"
  by (simp add: patch_def)

lemma nth_patch:
  assumes "off \<le> length xs" and "i < max (length xs) (off + length data)"
  shows "patch xs off data ! i =
    (if i < off then xs ! i else if i < off + length data then data ! (i - off) else xs ! i)"
  using assms by (auto simp: patch_def nth_append min_def)

lemma take_patch:
  assumes "off \<le> n" and "n \<le> length xs" and "off + length data \<le> length xs"
  shows "take (max n (off + length data)) (patch xs off data) = patch (take n xs) off data"
proof (rule nth_equalityI)
  show len: "length (take (max n (off + length data)) (patch xs off data)) = length (patch (take n xs) off data)"
    using assms by simp
  fix i assume "i < length (take (max n (off + length data)) (patch xs off data))"
  then have i: "i < max n (off + length data)" by simp
  then have "i < max (length xs) (off + length data)" using assms(2) by auto
  then show "take (max n (off + length data)) (patch xs off data) ! i = patch (take n xs) off data ! i"
    using i assms by (auto simp: nth_patch)
qed

text \<open>
  \<open>content s f\<close> is the file as a byte sequence and \<open>indep s f g\<close> says that writing \<open>f\<close>
  leaves \<open>g\<close> alone; \<open>cap\<close> is how long a file may become.
\<close>

locale file_store =
  fixes rd :: "'s \<Rightarrow> nat \<Rightarrow> u32 \<Rightarrow> u32 \<Rightarrow> u8 list option"
    and wr :: "'s \<Rightarrow> nat \<Rightarrow> u32 \<Rightarrow> u8 list \<Rightarrow> ('s \<times> u32) option"
    and ok :: "'s \<Rightarrow> nat \<Rightarrow> bool" and indep :: "'s \<Rightarrow> nat \<Rightarrow> nat \<Rightarrow> bool"
    and content :: "'s \<Rightarrow> nat \<Rightarrow> u8 list" and cap :: nat
  assumes cap_small: "cap < 4294967296"
    and rd_content: "ok s f \<Longrightarrow> unat off \<le> length (content s f) \<Longrightarrow> unat off + unat n < 4294967296 \<Longrightarrow>
      rd s f off n = Some (take (unat n) (drop (unat off) (content s f)))"
    and wr_content: "ok s f \<Longrightarrow> unat off \<le> length (content s f) \<Longrightarrow> unat off + length data \<le> cap \<Longrightarrow>
      \<exists>s'. wr s f off data = Some (s', of_nat (length data)) \<and> ok s' f \<and>
        content s' f = patch (content s f) (unat off) data \<and>
        (\<forall>g. ok s g \<and> indep s f g \<longrightarrow> ok s' g \<and> indep s' f g \<and> content s' g = content s g)"
begin

lemma write_read:
  assumes "ok s f" and "unat off \<le> length (content s f)" and "unat off + length data \<le> cap"
  shows "\<exists>s'. wr s f off data = Some (s', of_nat (length data)) \<and> ok s' f \<and>
    rd s' f off (of_nat (length data)) = Some data \<and> content s' f = patch (content s f) (unat off) data \<and>
    (\<forall>g. ok s g \<and> indep s f g \<longrightarrow> ok s' g \<and> content s' g = content s g)"
proof -
  obtain s' where s': "wr s f off data = Some (s', of_nat (length data))" "ok s' f"
    "content s' f = patch (content s f) (unat off) data"
    "\<forall>g. ok s g \<and> indep s f g \<longrightarrow> ok s' g \<and> content s' g = content s g"
    using wr_content [OF assms] by blast
  have "unat (of_nat (length data) :: u32) = length data"
    using assms(3) cap_small by (intro unat_of_nat_u32) linarith
  then have "rd s' f off (of_nat (length data)) = Some data"
    using rd_content [OF s'(2), of off "of_nat (length data)"] s'(3) assms cap_small cut_patch [OF assms(2), of data]
    by simp
  then show ?thesis using s' by blast
qed

text \<open>Writing a file in pieces, each where the last one ended, is writing it at once.\<close>

lemma write_pieces:
  assumes "ok s f" and "content s f = pre" and "length pre + length (concat ds) \<le> cap"
  shows "\<exists>s'. fold (\<lambda>d r. case r of None \<Rightarrow> None
        | Some (s, off) \<Rightarrow> map_option (\<lambda>(s', n). (s', off + n)) (wr s f off d)) ds (Some (s, of_nat (length pre)))
      = Some (s', of_nat (length pre + length (concat ds))) \<and> ok s' f \<and> content s' f = pre @ concat ds"
  using assms
proof (induction ds arbitrary: s pre)
  case Nil
  then show ?case by simp
next
  case (Cons d ds)
  have u: "unat (of_nat (length pre) :: u32) = length pre"
    using Cons.prems(3) cap_small by (intro unat_of_nat_u32) linarith
  obtain s1 where s1: "wr s f (of_nat (length pre)) d = Some (s1, of_nat (length d))" "ok s1 f"
    "content s1 f = patch pre (length pre) d"
    using wr_content [OF Cons.prems(1), of "of_nat (length pre)" d] Cons.prems(2,3) u by auto
  then have "content s1 f = pre @ d" by (simp add: patch_def)
  from Cons.IH [OF s1(2) this] Cons.prems(3) show ?case by (auto simp: s1(1) add.assoc)
qed

end

section \<open>Properties of path lookup\<close>

text \<open>A path whose components are non-empty and at most 31 characters long is looked up by
  walking its components one directory at a time, whether or not it starts with a slash.\<close>

lemma find_path_walks:
  assumes "\<forall>c \<in> set (c # cs). good_component c"
  shows "find_path_fs fd s root (c @ join cs) = walk fd s root (c # cs) \<and>
    find_path_fs fd s root (join (c # cs)) = walk fd s root (c # cs)"
proof
  show "find_path_fs fd s root (c @ join cs) = walk fd s root (c # cs)"
    by (rule find_path_components [OF assms]) simp
  show "find_path_fs fd s root (join (c # cs)) = walk fd s root (c # cs)"
    by (rule find_path_components [OF assms]) (simp add: join_def)
qed

lemma find_path_walks_example:
  "find_path_fs (\<lambda>s n name. (s, if name = bytes ''disk'' then Some 1 else if name = bytes ''a.txt'' then Some 2 else None))
     () 0 (bytes ''/disk/a.txt'') = ((), Some 2)"
proof -
  have g: "\<forall>c \<in> set (bytes ''disk'' # [bytes ''a.txt'']). good_component c"
    by (simp add: good_component_def bytes_def)
  have j: "join (bytes ''disk'' # [bytes ''a.txt'']) = bytes ''/disk/a.txt''" by (simp add: join_def bytes_def)
  show ?thesis
    using find_path_walks [OF g, of "\<lambda>s n name. (s, if name = bytes ''disk'' then Some 1
      else if name = bytes ''a.txt'' then Some 2 else None)" "()" 0]
    by (simp add: j) (simp add: bytes_def)
qed

text \<open>A longer component is cut after 31 characters, and everything behind the cut, the rest
  of the path included, is ignored: the lookup answers for the truncated name.\<close>

lemma find_path_truncates:
  assumes "length c = 31" and "slash \<notin> set c" and "rest \<noteq> []" and "hd rest \<noteq> slash"
  shows "find_path_fs fd s root (c @ rest) = fd s root c"
proof -
  have tw: "takeWhile (\<lambda>c. c \<noteq> slash) (c @ rest) = c @ takeWhile (\<lambda>c. c \<noteq> slash) rest"
    using assms(2) by (intro takeWhile_append2) auto
  then have comp: "component (c @ rest) = c" by (simp add: component_def assms(1))
  have "c \<noteq> []" using assms(1) by auto
  then have "hd (c @ rest) \<noteq> slash" "c @ rest \<noteq> [slash]" using assms(1,2) by (cases c; auto)+
  then show ?thesis
    unfolding find_path_fs.simps [of fd s root "c @ rest"]
    using \<open>c \<noteq> []\<close> comp assms(3,4) by (auto simp: Let_def split: prod.splits option.splits)
qed

lemma find_path_truncates_example:
  "find_path_fs (\<lambda>s n name. (s, if name = replicate 31 0x61 then Some 7 else None)) () 0
     (replicate 31 0x61 @ bytes ''a/secret'') = ((), Some 7)"
proof -
  have "bytes ''a/secret'' \<noteq> []" "hd (bytes ''a/secret'') \<noteq> slash" by (simp_all add: bytes_def)
  then show ?thesis using find_path_truncates [of "replicate 31 0x61" "bytes ''a/secret''"
      "\<lambda>s n name. (s, if name = replicate 31 0x61 then Some 7 else None)" "()" 0] by simp
qed

end
