(* ===== verification/RamFS.thy ===== *)
theory RamFS
  imports VFS
begin

text \<open>
  The RAM file system, \<open>kernel/fs/ramfs.cpp\<close>: two arrays of 64 slots, one of nodes and one
  of 4 KiB blocks, indexed by a node's inode. Blocks live in a heap; the result of the frame
  allocation is an argument. \<open>None\<close> is a memory fault: a copy that would leave its block or a
  name that does not fit into its field.
\<close>

section \<open>State and operations\<close>

record ramfs = vfs +
  blocks :: "u8 list list"
  files :: "nat list"
  file_contents :: "nat list"
  file_count :: nat

definition MAX_FILES :: nat where "MAX_FILES = 64"
definition FILE_BLOCK :: nat where "FILE_BLOCK = 4096"

definition ramfs0 :: ramfs where
  "ramfs0 = \<lparr>nodes = [], blocks = [], files = replicate MAX_FILES 0, file_contents = replicate MAX_FILES 0,
     file_count = 0\<rparr>"

definition node_at :: "'a vfs_scheme \<Rightarrow> nat \<Rightarrow> fs_node" where
  "node_at s n = nodes s ! n"

definition block_of :: "'a ramfs_scheme \<Rightarrow> nat \<Rightarrow> nat" where
  "block_of s n = file_contents s ! unat (ninode (node_at s n))"

definition ram_read :: "'a ramfs_scheme \<Rightarrow> nat \<Rightarrow> u32 \<Rightarrow> u32 \<Rightarrow> u8 list option" where
  "ram_read s n offset sz =
     (let len = nlength (node_at s n) in
      if offset > len then Some []
      else let sz' = (if offset + sz > len then len - offset else sz);
               b = blocks s ! block_of s n
           in if unat offset + unat sz' \<le> length b
              then Some (take (unat sz') (drop (unat offset) b)) else None)"

definition ram_write :: "'a ramfs_scheme \<Rightarrow> nat \<Rightarrow> u32 \<Rightarrow> u8 list \<Rightarrow> ('a ramfs_scheme \<times> u32) option" where
  "ram_write s n offset data =
     (let sz = of_nat (length data);
          sz' = (if offset + sz > 4096 then 4096 - offset else sz);
          b = blocks s ! block_of s n
      in if unat offset + unat sz' \<le> length b \<and> unat sz' \<le> length data
         then let s1 = s\<lparr>blocks := (blocks s)[block_of s n := patch b (unat offset) (take (unat sz') data)]\<rparr>;
                  node = node_at s n;
                  node' = (if offset + sz' > nlength node then node\<lparr>nlength := offset + sz'\<rparr> else node)
              in Some (s1\<lparr>nodes := (nodes s)[n := node']\<rparr>, sz')
         else None)"

definition ram_readdir :: "'a ramfs_scheme \<Rightarrow> nat \<Rightarrow> u32 \<Rightarrow> (u8 list \<times> u32) option" where
  "ram_readdir s n index =
     (if unat index \<ge> file_count s then None
      else let f = node_at s (files s ! unat index) in Some (nname f, ninode f))"

definition slot_of :: "'a ramfs_scheme \<Rightarrow> u8 list \<Rightarrow> nat option" where
  "slot_of s name = find (\<lambda>i. strcmp name (nname (node_at s (files s ! i))) = Some 0) [0..<file_count s]"

definition ram_finddir :: "'a ramfs_scheme \<Rightarrow> nat \<Rightarrow> u8 list \<Rightarrow> 'a ramfs_scheme \<times> nat option" where
  "ram_finddir s n name = (s, map_option (\<lambda>i. files s ! i) (slot_of s name))"

definition ram_initialize :: "'a ramfs_scheme \<Rightarrow> 'a ramfs_scheme \<times> nat" where
  "ram_initialize s =
     (s\<lparr>nodes := nodes s @ [zero_node\<lparr>nname := bytes ''root'' @ [0], nflags := FS_DIRECTORY,
          readdir_op := Some RamBackend, finddir_op := Some RamBackend\<rparr>],
        file_count := 0\<rparr>, length (nodes s))"

text \<open>Names and contents are C strings: byte lists that end in a zero byte.\<close>

definition create_file ::
  "'a ramfs_scheme \<Rightarrow> u8 list \<Rightarrow> u8 list option \<Rightarrow> bool \<Rightarrow> ('a ramfs_scheme \<times> nat option) option" where
  "create_file s name content frame_available =
     (if file_count s \<ge> MAX_FILES then Some (s, None)
      else if length name > 128 \<or> \<not> frame_available then None
      else let node = zero_node\<lparr>nname := name, nflags := FS_FILE, ninode := of_nat (file_count s),
                 read_op := Some RamBackend, write_op := Some RamBackend\<rparr>;
               zero = replicate FILE_BLOCK 0
           in case (case content of None \<Rightarrow> Some (zero, 0)
                    | Some c \<Rightarrow> if length c > FILE_BLOCK then None
                                else Some (patch zero 0 c, of_nat (length c - 1))) of
                None \<Rightarrow> None
              | Some (buffer, len) \<Rightarrow>
                  Some (s\<lparr>nodes := nodes s @ [node\<lparr>nlength := len\<rparr>], blocks := blocks s @ [buffer],
                          file_contents := (file_contents s)[file_count s := length (blocks s)],
                          files := (files s)[file_count s := length (nodes s)],
                          file_count := file_count s + 1\<rparr>, Some (length (nodes s))))"

definition create_dir :: "'a ramfs_scheme \<Rightarrow> u8 list \<Rightarrow> ('a ramfs_scheme \<times> nat option) option" where
  "create_dir s name =
     (if file_count s \<ge> MAX_FILES then Some (s, None)
      else if length name > 128 then None
      else Some (s\<lparr>nodes := nodes s @ [zero_node\<lparr>nname := name, nflags := FS_DIRECTORY,
                   readdir_op := Some RamBackend, finddir_op := Some RamBackend\<rparr>],
                 files := (files s)[file_count s := length (nodes s)],
                 file_count := file_count s + 1\<rparr>, Some (length (nodes s))))"

definition mount :: "'a ramfs_scheme \<Rightarrow> nat \<Rightarrow> 'a ramfs_scheme" where
  "mount s n =
     (if file_count s < MAX_FILES
      then s\<lparr>files := (files s)[file_count s := n], file_count := file_count s + 1\<rparr> else s)"

definition shift_down :: "nat \<Rightarrow> nat \<Rightarrow> nat list \<Rightarrow> nat list" where
  "shift_down i count xs = fold (\<lambda>j xs. xs[j := xs ! (j + 1)]) [i..<count - 1] xs"

definition delete_file :: "'a ramfs_scheme \<Rightarrow> u8 list \<Rightarrow> 'a ramfs_scheme \<times> bool" where
  "delete_file s name =
     (case slot_of s name of
        None \<Rightarrow> (s, False)
      | Some i \<Rightarrow> (s\<lparr>files := shift_down i (file_count s) (files s),
                     file_contents := shift_down i (file_count s) (file_contents s),
                     file_count := file_count s - 1\<rparr>, True))"

section \<open>RAM files as a file store\<close>

definition ram_content :: "'a ramfs_scheme \<Rightarrow> nat \<Rightarrow> u8 list" where
  "ram_content s n = take (unat (nlength (node_at s n))) (blocks s ! block_of s n)"

definition ram_ok :: "'a ramfs_scheme \<Rightarrow> nat \<Rightarrow> bool" where
  "ram_ok s n \<longleftrightarrow> n < length (nodes s) \<and> block_of s n < length (blocks s) \<and>
     length (blocks s ! block_of s n) = FILE_BLOCK \<and> unat (nlength (node_at s n)) \<le> FILE_BLOCK"

definition ram_indep :: "'a ramfs_scheme \<Rightarrow> nat \<Rightarrow> nat \<Rightarrow> bool" where
  "ram_indep s f g \<longleftrightarrow> f \<noteq> g \<and> block_of s f \<noteq> block_of s g"

lemma ram_content_length: "ram_ok s n \<Longrightarrow> length (ram_content s n) = unat (nlength (node_at s n))"
  by (simp add: ram_ok_def ram_content_def)

lemma ram_read_content:
  assumes ok: "ram_ok s f" and off: "unat off \<le> length (ram_content s f)"
    and nw: "unat off + unat n < 4294967296"
  shows "ram_read s f off n = Some (take (unat n) (drop (unat off) (ram_content s f)))"
proof -
  let ?len = "nlength (node_at s f)" and ?b = "blocks s ! block_of s f"
  have l: "unat off \<le> unat ?len" "unat ?len \<le> 4096" "length ?b = 4096"
    using off ok ram_content_length [OF ok] by (simp_all add: ram_ok_def FILE_BLOCK_def)
  have sum: "unat (off + n) = unat off + unat n" by (rule unat_add_u32) (rule nw)
  define n' where "n' = (if off + n > ?len then ?len - off else n)"
  have n': "unat n' = min (unat n) (unat ?len - unat off)"
    using sum l(1) unat_sub_u32 [of off ?len] by (auto simp: n'_def word_less_nat_alt word_le_nat_alt min_def)
  have "\<not> off > ?len" using l(1) by (simp add: word_less_nat_alt not_less)
  moreover have "unat off + unat n' \<le> length ?b" using n' l by simp
  ultimately have "ram_read s f off n = Some (take (unat n') (drop (unat off) ?b))"
    by (simp add: ram_read_def Let_def n'_def [symmetric])
  also have "take (unat n') (drop (unat off) ?b) = take (unat n) (drop (unat off) (ram_content s f))"
    using n' by (simp add: ram_content_def drop_take min.commute)
  finally show ?thesis .
qed

lemma ram_write_content:
  assumes ok: "ram_ok s f" and off: "unat off \<le> length (ram_content s f)"
    and cap: "unat off + length data \<le> FILE_BLOCK"
  shows "\<exists>s'. ram_write s f off data = Some (s', of_nat (length data)) \<and> ram_ok s' f \<and>
    ram_content s' f = patch (ram_content s f) (unat off) data \<and>
    (\<forall>g. ram_ok s g \<and> ram_indep s f g \<longrightarrow> ram_ok s' g \<and> ram_indep s' f g \<and> ram_content s' g = ram_content s g)"
proof -
  let ?node = "node_at s f" and ?k = "block_of s f" and ?n = "of_nat (length data) :: u32"
  let ?b = "blocks s ! ?k"
  have l: "unat off \<le> unat (nlength ?node)" "unat (nlength ?node) \<le> 4096" "length ?b = 4096"
    "f < length (nodes s)" "?k < length (blocks s)"
    using off ok ram_content_length [OF ok] by (simp_all add: ram_ok_def FILE_BLOCK_def)
  have n: "unat ?n = length data" by (rule unat_of_nat_u32) (use cap in \<open>simp add: FILE_BLOCK_def\<close>)
  have sum: "unat (off + ?n) = unat off + length data"
    using n cap unat_add_u32 [of off ?n] by (simp add: FILE_BLOCK_def)
  have "\<not> off + ?n > 4096" using sum cap by (simp add: word_less_nat_alt FILE_BLOCK_def not_less)
  define node' where "node' = (if off + ?n > nlength ?node then ?node\<lparr>nlength := off + ?n\<rparr> else ?node)"
  define s' where "s' = s\<lparr>blocks := (blocks s)[?k := patch ?b (unat off) data], nodes := (nodes s)[f := node']\<rparr>"
  have wr: "ram_write s f off data = Some (s', ?n)"
    using \<open>\<not> off + ?n > 4096\<close> n l cap
    by (simp add: ram_write_def Let_def s'_def node'_def FILE_BLOCK_def)
  have len': "unat (nlength node') = max (unat (nlength ?node)) (unat off + length data)"
    using sum by (auto simp: node'_def word_less_nat_alt max_def)
  have ino: "ninode node' = ninode ?node" by (simp add: node'_def)
  have node_f: "node_at s' f = node'" using l(4) by (simp add: s'_def node_at_def)
  have node_g: "node_at s' g = node_at s g" if "g \<noteq> f" for g using that by (simp add: s'_def node_at_def)
  have blk: "block_of s' g = block_of s g" for g
    using node_f node_g ino by (cases "g = f") (simp_all add: block_of_def, simp_all add: s'_def)
  have bf: "blocks s' ! ?k = patch ?b (unat off) data" using l(5) by (simp add: s'_def)
  have pl: "length (patch ?b (unat off) data) = 4096"
    using l cap by (simp add: FILE_BLOCK_def)
  have ok': "ram_ok s' f"
    using l cap len' node_f blk bf pl by (simp add: ram_ok_def FILE_BLOCK_def) (simp add: s'_def)
  have "ram_content s' f = take (max (unat (nlength ?node)) (unat off + length data)) (patch ?b (unat off) data)"
    by (simp add: ram_content_def node_f len' blk bf)
  also have "\<dots> = patch (ram_content s f) (unat off) data"
    unfolding ram_content_def using l cap by (intro take_patch) (simp_all add: FILE_BLOCK_def)
  finally have c: "ram_content s' f = patch (ram_content s f) (unat off) data" .
  have other: "ram_ok s' g \<and> ram_indep s' f g \<and> ram_content s' g = ram_content s g"
    if "ram_ok s g" "ram_indep s f g" for g
  proof -
    have g: "g \<noteq> f" "block_of s g \<noteq> ?k" using that(2) by (auto simp: ram_indep_def)
    have "blocks s' ! block_of s g = blocks s ! block_of s g" using g(2) by (simp add: s'_def)
    then show ?thesis
      using that g node_g [OF g(1)] blk
      by (simp add: ram_ok_def ram_indep_def ram_content_def) (simp add: s'_def)
  qed
  show ?thesis using wr ok' c other by blast
qed

interpretation ram: file_store ram_read ram_write ram_ok ram_indep ram_content FILE_BLOCK
proof (unfold_locales, goal_cases)
  case 1
  show ?case by (simp add: FILE_BLOCK_def)
next
  case (2 s f off n)
  then show ?case by (rule ram_read_content)
next
  case (3 s f off data)
  then show ?case by (rule ram_write_content)
qed

section \<open>The directory\<close>

definition dir_ok :: "'a ramfs_scheme \<Rightarrow> bool" where
  "dir_ok s \<longleftrightarrow> file_count s \<le> MAX_FILES \<and> length (files s) = MAX_FILES \<and> length (file_contents s) = MAX_FILES \<and>
     (\<forall>k < file_count s. files s ! k < length (nodes s) \<and> ninode (node_at s (files s ! k)) = of_nat k \<and>
        0 \<in> set (nname (node_at s (files s ! k))) \<and> file_contents s ! k < length (blocks s))"

lemma strcmp_eq: "0 \<in> set a \<Longrightarrow> 0 \<in> set b \<Longrightarrow> strcmp a b = Some 0 \<longleftrightarrow> cstr a = cstr b"
  using strcmp_terminated [of a b] strcmp_zero_iff [of a b] by auto

lemma nth_shift_down:
  assumes "c \<le> length xs"
  shows "shift_down i c xs ! k = (if i \<le> k \<and> k + 1 < c then xs ! (k + 1) else xs ! k)"
    and "length (shift_down i c xs) = length xs"
proof -
  have "\<forall>k. fold (\<lambda>j xs. xs[j := xs ! (j + 1)]) [i..<m] xs ! k =
      (if i \<le> k \<and> k < m then xs ! (k + 1) else xs ! k) \<and>
      length (fold (\<lambda>j xs. xs[j := xs ! (j + 1)]) [i..<m] xs) = length xs" if "m < length xs \<or> m \<le> i" for m
    using that
  proof (induction m)
    case (Suc m)
    show ?case
    proof (cases "i \<le> m")
      case True
      then have "m < length xs" using Suc.prems by auto
      then show ?thesis using Suc True by (auto simp: nth_list_update)
    qed (use Suc in auto)
  qed simp
  from this [of "c - 1"] assms
  show "shift_down i c xs ! k = (if i \<le> k \<and> k + 1 < c then xs ! (k + 1) else xs ! k)"
    "length (shift_down i c xs) = length xs"
    by (cases c; fastforce simp: shift_down_def)+
qed

lemma of_nat_slot: "k < 64 \<Longrightarrow> unat (of_nat k :: u32) = k"
  by (rule unat_of_nat_u32) simp

lemma find_append: "find P (xs @ ys) = (case find P xs of Some i \<Rightarrow> Some i | None \<Rightarrow> find P ys)"
  by (induction xs) auto

lemma find_upt_Suc: "find P [0..<Suc n] = (case find P [0..<n] of Some i \<Rightarrow> Some i | None \<Rightarrow> if P n then Some n else None)"
  by (simp add: find_append split: option.split)

section \<open>Properties of the RAM file system\<close>

text \<open>The state after a file has been created: a node, a block and a slot more.\<close>

definition with_file :: "'a ramfs_scheme \<Rightarrow> u8 list \<Rightarrow> u8 list \<Rightarrow> 'a ramfs_scheme" where
  "with_file s name tx =
     s\<lparr>nodes := nodes s @ [zero_node\<lparr>nname := name, nflags := FS_FILE, ninode := of_nat (file_count s),
           read_op := Some RamBackend, write_op := Some RamBackend, nlength := of_nat (length tx)\<rparr>],
       blocks := blocks s @ [patch (replicate FILE_BLOCK 0) 0 (tx @ [0])],
       file_contents := (file_contents s)[file_count s := length (blocks s)],
       files := (files s)[file_count s := length (nodes s)], file_count := file_count s + 1\<rparr>"

lemma create_file_with_file:
  assumes "file_count s < MAX_FILES" and "length name \<le> 128" and "length tx < FILE_BLOCK"
  shows "create_file s name (Some (tx @ [0])) True = Some (with_file s name tx, Some (length (nodes s)))"
  using assms by (simp add: create_file_def with_file_def Let_def FILE_BLOCK_def MAX_FILES_def)

lemma with_file_old:
  assumes "dir_ok s" and "k < file_count s"
  shows "files (with_file s name tx) ! k = files s ! k" and "files s ! k < length (nodes s)"
    and "node_at (with_file s name tx) (files s ! k) = node_at s (files s ! k)"
    and "ninode (node_at s (files s ! k)) = of_nat k" and "0 \<in> set (nname (node_at s (files s ! k)))"
    and "file_contents (with_file s name tx) ! k = file_contents s ! k" and "file_contents s ! k < length (blocks s)"
  using assms by (auto simp: with_file_def dir_ok_def node_at_def nth_append)

lemma with_file_new:
  assumes "dir_ok s" and "file_count s < MAX_FILES"
  shows "files (with_file s name tx) ! file_count s = length (nodes s)"
    and "file_contents (with_file s name tx) ! file_count s = length (blocks s)"
    and "nname (node_at (with_file s name tx) (length (nodes s))) = name"
    and "ninode (node_at (with_file s name tx) (length (nodes s))) = of_nat (file_count s)"
    and "nlength (node_at (with_file s name tx) (length (nodes s))) = of_nat (length tx)"
  using assms by (simp_all add: with_file_def dir_ok_def node_at_def)

lemma with_file_sizes:
  "file_count (with_file s name tx) = Suc (file_count s)" "length (nodes (with_file s name tx)) = Suc (length (nodes s))"
  "length (blocks (with_file s name tx)) = Suc (length (blocks s))" "length (files (with_file s name tx)) = length (files s)"
  "length (file_contents (with_file s name tx)) = length (file_contents s)"
  by (simp_all add: with_file_def)

lemma with_file_dir_ok:
  assumes "dir_ok s" and "file_count s < MAX_FILES" and "0 \<in> set name"
  shows "dir_ok (with_file s name tx)"
  unfolding dir_ok_def
proof (intro conjI allI impI)
  fix k assume "k < file_count (with_file s name tx)"
  then consider "k < file_count s" | "k = file_count s" by (auto simp: with_file_sizes less_Suc_eq)
  then have all: "files (with_file s name tx) ! k < length (nodes (with_file s name tx)) \<and>
      ninode (node_at (with_file s name tx) (files (with_file s name tx) ! k)) = of_nat k \<and>
      0 \<in> set (nname (node_at (with_file s name tx) (files (with_file s name tx) ! k))) \<and>
      file_contents (with_file s name tx) ! k < length (blocks (with_file s name tx))"
  proof cases
    case 1
    show ?thesis using with_file_old [OF assms(1) 1] by (simp add: with_file_sizes)
  next
    case 2
    show ?thesis using with_file_new [OF assms(1,2), of name tx] assms(3) by (simp add: with_file_sizes 2)
  qed
  from all show "files (with_file s name tx) ! k < length (nodes (with_file s name tx))" by blast
  from all show "ninode (node_at (with_file s name tx) (files (with_file s name tx) ! k)) = of_nat k" by blast
  from all show "0 \<in> set (nname (node_at (with_file s name tx) (files (with_file s name tx) ! k)))" by blast
  from all show "file_contents (with_file s name tx) ! k < length (blocks (with_file s name tx))" by blast
qed (use assms in \<open>simp_all add: with_file_sizes dir_ok_def\<close>)

lemma with_file_slot:
  assumes "dir_ok s" and "file_count s < MAX_FILES"
  shows "slot_of (with_file s name tx) nm = (case slot_of s nm of Some i \<Rightarrow> Some i
    | None \<Rightarrow> if strcmp nm name = Some 0 then Some (file_count s) else None)"
proof -
  have "find (\<lambda>i. strcmp nm (nname (node_at (with_file s name tx) (files (with_file s name tx) ! i))) = Some 0) [0..<file_count s] = slot_of s nm"
    unfolding slot_of_def using with_file_old [OF assms(1)] by (intro find_cong) auto
  then show ?thesis
    using with_file_new(1,3) [OF assms, of name tx]
    by (simp only: slot_of_def [of "with_file s name tx"] with_file_sizes find_upt_Suc)
qed

lemma with_file_content:
  assumes "dir_ok s" and "file_count s < MAX_FILES" and "length tx < FILE_BLOCK"
  shows "ram_content (with_file s name tx) (length (nodes s)) = tx"
    and "k < file_count s \<Longrightarrow> ram_content (with_file s name tx) (files s ! k) = ram_content s (files s ! k)"
proof -
  have c: "file_count s < 64" using assms(2) by (simp add: MAX_FILES_def)
  have "block_of (with_file s name tx) (length (nodes s)) = length (blocks s)"
    using with_file_new [OF assms(1,2), of name tx] of_nat_slot [OF c] by (simp add: block_of_def)
  moreover have "blocks (with_file s name tx) ! length (blocks s) = patch (replicate FILE_BLOCK 0) 0 (tx @ [0])"
    by (simp add: with_file_def)
  moreover have "unat (of_nat (length tx) :: u32) = length tx"
    by (rule unat_of_nat_u32) (use assms(3) in \<open>simp add: FILE_BLOCK_def\<close>)
  ultimately show "ram_content (with_file s name tx) (length (nodes s)) = tx"
    using with_file_new(5) [OF assms(1,2), of name tx] by (simp add: ram_content_def patch_def)
  assume k: "k < file_count s"
  then have k64: "k < 64" using c by simp
  note old = with_file_old [OF assms(1) k]
  have "block_of (with_file s name tx) (files s ! k) = block_of s (files s ! k)" "block_of s (files s ! k) < length (blocks s)"
    using old of_nat_slot [OF k64] by (simp_all add: block_of_def)
  moreover have "blocks (with_file s name tx) ! b = blocks s ! b" if "b < length (blocks s)" for b
    using that by (simp add: with_file_def nth_append)
  ultimately show "ram_content (with_file s name tx) (files s ! k) = ram_content s (files s ! k)"
    using old(3) by (simp add: ram_content_def)
qed

text \<open>Creating a file in a directory that has a free slot and no file of that name: the file
  is found under its name, reads back as the tx it was created with, and every file that was
  there is still found, with its content.\<close>

lemma ram_create_find:
  assumes ok: "dir_ok s" and room: "file_count s < MAX_FILES" and new: "slot_of s name = None"
    and nm: "0 \<in> set name" "length name \<le> 128" and small: "length tx < FILE_BLOCK"
  shows "\<exists>s' n. create_file s name (Some (tx @ [0])) True = Some (s', Some n) \<and> dir_ok s' \<and>
    snd (ram_finddir s' r name) = Some n \<and> ram_content s' n = tx \<and>
    (\<forall>nm' m. snd (ram_finddir s r nm') = Some m \<longrightarrow>
       snd (ram_finddir s' r nm') = Some m \<and> ram_content s' m = ram_content s m)"
proof -
  let ?s = "with_file s name tx"
  note slot = with_file_slot [OF ok room, of name tx]
  have "snd (ram_finddir ?s r name) = Some (length (nodes s))"
    using slot [of name] new nm(1) with_file_new(1) [OF ok room] by (simp add: ram_finddir_def strcmp_eq)
  moreover have "snd (ram_finddir ?s r nm') = Some m \<and> ram_content ?s m = ram_content s m"
    if found: "snd (ram_finddir s r nm') = Some m" for nm' m
  proof -
    obtain i where i: "slot_of s nm' = Some i" "m = files s ! i" using found by (auto simp: ram_finddir_def)
    then have "i < file_count s" by (auto simp: slot_of_def find_Some_iff)
    then show ?thesis
      using slot [of nm'] i with_file_old(1) [OF ok] with_file_content(2) [OF ok room small] by (simp add: ram_finddir_def)
  qed
  ultimately show ?thesis
    using create_file_with_file [OF room nm(2) small] with_file_dir_ok [OF ok room nm(1)] with_file_content(1) [OF ok room small] by blast
qed

lemma ram_create_find_example:
  "\<exists>s' n. create_file (fst (ram_initialize ramfs0)) (bytes ''a'' @ [0]) (Some (bytes ''hi'' @ [0])) True = Some (s', Some n) \<and>
     dir_ok s' \<and> snd (ram_finddir s' 0 (bytes ''a'' @ [0])) = Some n \<and> ram_content s' n = bytes ''hi''"
proof -
  let ?s = "fst (ram_initialize ramfs0)" and ?nm = "bytes ''a'' @ [0]" and ?tx = "bytes ''hi''"
  have c: "file_count ?s = 0" by (simp add: ram_initialize_def)
  then have "dir_ok ?s" by (simp add: dir_ok_def) (simp add: ram_initialize_def ramfs0_def)
  moreover have "slot_of ?s ?nm = None" using c by (simp add: slot_of_def)
  moreover have "file_count ?s < MAX_FILES" using c by (simp add: MAX_FILES_def)
  moreover have "0 \<in> set ?nm" "length ?nm \<le> 128" "length ?tx < FILE_BLOCK"
    by (simp_all add: bytes_def FILE_BLOCK_def)
  ultimately show ?thesis using ram_create_find [of ?s ?nm ?tx 0] by blast
qed

text \<open>Writing a file inside its block at an offset no further than its end, then reading the
  same range back, gives the written bytes; every file with another slot keeps its content.\<close>

lemma ram_write_read:
  assumes "ram_ok s f" and "unat off \<le> length (ram_content s f)" and "unat off + length data \<le> FILE_BLOCK"
  shows "\<exists>s'. ram_write s f off data = Some (s', of_nat (length data)) \<and> ram_ok s' f \<and>
    ram_read s' f off (of_nat (length data)) = Some data \<and>
    ram_content s' f = patch (ram_content s f) (unat off) data \<and>
    (\<forall>g. ram_ok s g \<and> ram_indep s f g \<longrightarrow> ram_ok s' g \<and> ram_content s' g = ram_content s g)"
  using assms by (rule ram.write_read)

lemma ram_write_read_example:
  "let s = \<lparr>nodes = [zero_node], blocks = [replicate 4096 0], files = [0], file_contents = [0], file_count = 1\<rparr> :: ramfs
   in \<exists>s'. ram_write s 0 0 [7, 8, 9] = Some (s', 3) \<and> ram_read s' 0 0 3 = Some [7, 8, 9]"
proof -
  define s where "s = (\<lparr>nodes = [zero_node], blocks = [replicate 4096 0], files = [0], file_contents = [0], file_count = 1\<rparr> :: ramfs)"
  have "ram_ok s 0" by (simp add: ram_ok_def s_def block_of_def node_at_def zero_node_def FILE_BLOCK_def)
  from ram_write_read [OF this, of 0 "[7, 8, 9]"] show ?thesis
    unfolding Let_def s_def by (auto simp: FILE_BLOCK_def)
qed

text \<open>Deleting a file shifts both arrays but leaves the inodes of the nodes behind it: every
  later file except the last is still listed and found, one slot earlier, yet its node now reads and
  writes the block of the file that followed it.\<close>

lemma ram_delete_misdirects:
  assumes ok: "dir_ok s" and i: "slot_of s name = Some i" and j: "i < j" "j + 1 < file_count s"
  shows "files (fst (delete_file s name)) ! (j - 1) = files s ! j \<and>
    block_of (fst (delete_file s name)) (files s ! j) = block_of s (files s ! (j + 1))"
proof -
  have c: "file_count s \<le> 64" "length (files s) = 64" "length (file_contents s) = 64"
    "ninode (node_at s (files s ! j)) = of_nat j" "ninode (node_at s (files s ! (j + 1))) = of_nat (j + 1)"
    using ok j by (auto simp: dir_ok_def MAX_FILES_def)
  have u: "unat (of_nat j :: u32) = j" "unat (of_nat (j + 1) :: u32) = j + 1"
    using of_nat_slot [of j] of_nat_slot [of "j + 1"] j(2) c(1) by simp_all
  have ij: "i \<le> j - 1" using j by simp
  have "node_at (fst (delete_file s name)) n = node_at s n" for n
    using i by (simp add: delete_file_def node_at_def)
  then show ?thesis
    using i ij j c u nth_shift_down(1) [of "file_count s" "files s" i "j - 1"]
      nth_shift_down(1) [of "file_count s" "file_contents s" i j]
    by (simp add: block_of_def delete_file_def del: of_nat_Suc of_nat_add)
qed

lemma ram_delete_misdirects_example:
  "let f = (\<lambda>nm i. zero_node\<lparr>nname := nm, nflags := FS_FILE, ninode := i\<rparr>);
       s = \<lparr>nodes = [f [97, 0] 0, f [98, 0] 1, f [99, 0] 2], blocks = [[1], [2], [3]],
         files = [0, 1, 2] @ replicate 61 0, file_contents = [0, 1, 2] @ replicate 61 0, file_count = 3\<rparr> :: ramfs
   in slot_of s [97, 0] = Some 0 \<and> block_of s 1 = 1 \<and> block_of (fst (delete_file s [97, 0])) 1 = 2"
proof -
  define f where "f = (\<lambda>nm i. zero_node\<lparr>nname := nm, nflags := FS_FILE, ninode := i\<rparr>)"
  define s where "s = (\<lparr>nodes = [f [97, 0] 0, f [98, 0] 1, f [99, 0] 2], blocks = [[1], [2], [3]],
    files = [0, 1, 2] @ replicate 61 0, file_contents = [0, 1, 2] @ replicate 61 0, file_count = 3\<rparr> :: ramfs)"
  have three: "k < 3 \<Longrightarrow> k = 0 \<or> k = 1 \<or> k = 2" for k :: nat by arith
  have ok: "dir_ok s"
    by (auto dest!: three simp: dir_ok_def s_def f_def MAX_FILES_def node_at_def)
  have slot: "slot_of s [97, 0] = Some 0"
    by (simp add: slot_of_def s_def node_at_def f_def upt_rec strcmp.simps)
  have b: "block_of s 1 = 1" "block_of s (files s ! 2) = 2" "files s ! 1 = 1"
    by (simp_all add: block_of_def s_def node_at_def f_def)
  have "file_count s = 3" by (simp add: s_def)
  then have "block_of (fst (delete_file s [97, 0])) 1 = 2"
    using ram_delete_misdirects [OF ok slot, of 1] b by (simp add: numeral_2_eq_2)
  then show ?thesis unfolding Let_def using slot b unfolding s_def f_def by blast
qed

end
