(* ===== verification/MesaFS.thy ===== *)
theory MesaFS
  imports RamFS IDE Crypto
begin

text \<open>
  The disk file system, \<open>kernel/fs/mesafs.cpp\<close>: a registry of eight entries, each with a fixed
  area of the disk, read and written sector by sector through the disk driver. The sector loops are
  functions of the device operations, and their lemmas are proved from the contract
  \<open>block_device\<close>. \<open>None\<close> is a memory fault: a name that does not fit into its field, a node
  whose inode is no entry, or the copy in \<open>save_metadata\<close> that overruns its buffer when the stack
  behind it (\<open>stack_room\<close> bytes of it hold nothing live) cannot take it.
\<close>

section \<open>State\<close>

text \<open>
  Both file systems put their nodes on the kernel heap: the record extends the one of the RAM file system,
  so that one state holds both back ends.
\<close>

record mesa_entry =
  ename :: "u8 list"
  lba_start :: u32
  elength :: u32
  euid :: u32
  egid :: u32
  emode :: u32
  eflags :: u8
  present :: u8
  ehmac :: "u8 list"

definition zero_entry :: mesa_entry where
  "zero_entry = \<lparr>ename = replicate 64 0, lba_start = 0, elength = 0, euid = 0, egid = 0, emode = 0,
     eflags = 0, present = 0, ehmac = replicate 32 0\<rparr>"

record mesafs = ramfs +
  entries :: "mesa_entry list"
  base_lba :: u32
  metadata_valid :: bool
  keys :: key_manager
  disk :: disk
  header_hmac :: "u8 list"
  stack_room :: nat

definition ENTRY_SIZE :: nat where "ENTRY_SIZE = 120"
definition HEADER_SIZE :: nat where "HEADER_SIZE = 48"

section \<open>Metadata\<close>

text \<open>An entry as it lies in memory; two bytes of padding follow its last field.\<close>

definition entry_bytes :: "mesa_entry \<Rightarrow> u8 list" where
  "entry_bytes e = ename e @ le32_bytes (lba_start e) @ le32_bytes (elength e) @ le32_bytes (euid e) @
     le32_bytes (egid e) @ le32_bytes (emode e) @ [eflags e, present e] @ ehmac e @ [0, 0]"

definition header_bytes :: "u8 list \<Rightarrow> u8 list" where
  "header_bytes hmac = le32_bytes 0x5341534D @ le32_bytes 1 @ le32_bytes 0 @ le32_bytes 1000 @ hmac"

definition load_metadata :: "'a mesafs_scheme \<Rightarrow> bool" where
  "load_metadata s = False"

definition metadata_sector :: "u8 list \<Rightarrow> mesa_entry list \<Rightarrow> u8 list" where
  "metadata_sector hmac es = take 512 (header_bytes hmac @ concat (map entry_bytes es))"

definition save_metadata :: "'a mesafs_scheme \<Rightarrow> ('a mesafs_scheme \<times> bool) option" where
  "save_metadata s =
     (if \<not> metadata_valid s then Some (s, False)
      else if HEADER_SIZE + length (entries s) * ENTRY_SIZE > 512 + stack_room s then None
      else Some (s\<lparr>disk := disk_write (disk s) (base_lba s + 1) (metadata_sector (header_hmac s) (entries s))\<rparr>, True))"

definition mesa_initialize :: "u32 \<Rightarrow> 'a mesafs_scheme \<Rightarrow> 'a mesafs_scheme \<times> nat" where
  "mesa_initialize partition_lba s =
     (let s1 = s\<lparr>base_lba := partition_lba, keys := km_initialize (keys s)\<rparr>;
          s2 = (if \<not> load_metadata s1 then s1\<lparr>entries := replicate 8 zero_entry, metadata_valid := True\<rparr> else s1)
      in (s2\<lparr>nodes := nodes s2 @ [zero_node\<lparr>nname := bytes ''disk'' @ [0], nflags := FS_DIRECTORY,
            nmask := 493, readdir_op := Some MesaBackend, finddir_op := Some MesaBackend\<rparr>]\<rparr>,
          length (nodes s2)))"

section \<open>Directory operations\<close>

definition mesa_readdir :: "'a mesafs_scheme \<Rightarrow> nat \<Rightarrow> u32 \<Rightarrow> (u8 list \<times> u32) option" where
  "mesa_readdir s n index =
     (if index \<ge> 8 then None
      else if present (entries s ! unat index) = 0 then None
      else Some (cstr (ename (entries s ! unat index)) @ [0], index))"

definition entry_of :: "'a mesafs_scheme \<Rightarrow> u8 list \<Rightarrow> nat option" where
  "entry_of s name =
     find (\<lambda>i. present (entries s ! i) \<noteq> 0 \<and> strcmp (ename (entries s ! i)) name = Some 0) [0..<8]"

definition entry_node :: "nat \<Rightarrow> mesa_entry \<Rightarrow> fs_node" where
  "entry_node i e =
     \<lparr>nname = cstr (ename e) @ [0], nmask = emode e, nuid = euid e, ngid = egid e,
      nflags = (if eflags e = 2 then FS_DIRECTORY else FS_FILE), ninode = of_nat i, nlength = elength e,
      read_op = Some MesaBackend, write_op = Some MesaBackend,
      readdir_op = Some MesaBackend, finddir_op = Some MesaBackend\<rparr>"

definition mesa_finddir :: "'a mesafs_scheme \<Rightarrow> nat \<Rightarrow> u8 list \<Rightarrow> 'a mesafs_scheme \<times> nat option" where
  "mesa_finddir s n name =
     (case entry_of s name of
        None \<Rightarrow> (s, None)
      | Some i \<Rightarrow> (s\<lparr>nodes := nodes s @ [entry_node i (entries s ! i)]\<rparr>, Some (length (nodes s))))"

section \<open>Reading and writing\<close>

lemma unat_mod_512: "unat (w mod 512 :: u32) = unat w mod 512"
  by (simp add: unat_mod)

lemma unat_mod_512_less: "unat (w mod 512 :: u32) < 512"
  by (simp add: unat_mod_512)

text \<open>\<open>rem\<close> counts down \<open>size - bytes_read\<close>, \<open>fo\<close> is \<open>file_offset\<close>.\<close>

function read_sectors :: "('d \<Rightarrow> u32 \<Rightarrow> u8 list) \<Rightarrow> 'd \<Rightarrow> u32 \<Rightarrow> u32 \<Rightarrow> nat \<Rightarrow> u8 list" where
  "read_sectors rd d start fo rem =
     (if rem = 0 then []
      else let sector_index = fo div 512; sector_offset = unat (fo mod 512);
               sector_buf = rd d (start + sector_index);
               to_copy = min rem (512 - sector_offset)
           in take to_copy (drop sector_offset sector_buf) @
              read_sectors rd d start (fo + of_nat to_copy) (rem - to_copy))"
  by pat_completeness auto

termination
  by (relation "measure (\<lambda>(rd, d, start, fo, rem). rem)") (use unat_mod_512_less in \<open>auto simp: min_def\<close>)

declare read_sectors.simps [simp del]

function write_sectors ::
  "('d \<Rightarrow> u32 \<Rightarrow> u8 list) \<Rightarrow> ('d \<Rightarrow> u32 \<Rightarrow> u8 list \<Rightarrow> 'd) \<Rightarrow> 'd \<Rightarrow> u32 \<Rightarrow> u32 \<Rightarrow> u8 list \<Rightarrow> 'd" where
  "write_sectors rd wr d start fo data =
     (if data = [] then d
      else let sector_index = fo div 512; sector_offset = unat (fo mod 512);
               sector_buf = (if sector_offset > 0 \<or> length data < 512
                             then rd d (start + sector_index) else replicate 512 0);
               to_copy = min (512 - sector_offset) (length data)
           in write_sectors rd wr
                (wr d (start + sector_index) (patch sector_buf sector_offset (take to_copy data)))
                start (fo + of_nat to_copy) (drop to_copy data))"
  by pat_completeness auto
termination
  by (relation "measure (\<lambda>(rd, wr, d, start, fo, data). length data)")
    (use unat_mod_512_less in \<open>auto simp: min_def\<close>)

declare write_sectors.simps [simp del]

definition mesa_read :: "'a mesafs_scheme \<Rightarrow> nat \<Rightarrow> u32 \<Rightarrow> u32 \<Rightarrow> u8 list option" where
  "mesa_read s n offset sz =
     (if unat (ninode (nodes s ! n)) \<ge> 8 then None
      else let e = entries s ! unat (ninode (nodes s ! n)) in
        if offset \<ge> elength e then Some []
        else let sz' = (if offset + sz > elength e then elength e - offset else sz)
             in Some (read_sectors disk_read (disk s) (base_lba s + lba_start e) offset (unat sz')))"

definition mesa_write :: "'a mesafs_scheme \<Rightarrow> nat \<Rightarrow> u32 \<Rightarrow> u8 list \<Rightarrow> ('a mesafs_scheme \<times> u32) option" where
  "mesa_write s n offset data =
     (if unat (ninode (nodes s ! n)) \<ge> 8 then None
      else let i = unat (ninode (nodes s ! n)); e = entries s ! i; sz = of_nat (length data);
               d = write_sectors disk_read disk_write (disk s) (base_lba s + lba_start e) offset data;
               len = (if offset + sz > elength e then offset + sz else elength e)
           in case save_metadata (s\<lparr>disk := d, entries := (entries s)[i := e\<lparr>elength := len\<rparr>]\<rparr>) of
                None \<Rightarrow> None
              | Some (s', _) \<Rightarrow> Some (s', sz))"

section \<open>Creating files and directories\<close>

definition free_entry :: "'a mesafs_scheme \<Rightarrow> nat option" where
  "free_entry s = find (\<lambda>i. present (entries s ! i) = 0) [0..<8]"

definition fill_entry :: "mesa_entry \<Rightarrow> u8 list \<Rightarrow> u32 \<Rightarrow> u8 \<Rightarrow> u32 \<Rightarrow> u32 \<Rightarrow> u32 \<Rightarrow> mesa_entry" where
  "fill_entry e name lba flags uid gid mode =
     e\<lparr>present := 1, ename := patch (ename e) 0 name, lba_start := lba, elength := 0, eflags := flags,
       euid := uid, egid := gid, emode := mode, ehmac := replicate 32 0\<rparr>"

definition mesa_create_file ::
  "'a mesafs_scheme \<Rightarrow> u8 list \<Rightarrow> u32 \<Rightarrow> u32 \<Rightarrow> u32 \<Rightarrow> ('a mesafs_scheme \<times> nat option) option" where
  "mesa_create_file s name uid gid mode =
     (case free_entry s of
        None \<Rightarrow> Some (s, None)
      | Some i \<Rightarrow>
          if length name > 64 then None
          else case save_metadata (s\<lparr>entries := (entries s)[i := fill_entry (entries s ! i) name
                      (100 + of_nat i * 10) 1 uid gid mode], metadata_valid := True\<rparr>) of
                 None \<Rightarrow> None
               | Some (s', False) \<Rightarrow>
                   Some (s'\<lparr>entries := (entries s')[i := (entries s' ! i)\<lparr>present := 0\<rparr>]\<rparr>, None)
               | Some (s', True) \<Rightarrow>
                   Some (s'\<lparr>nodes := nodes s' @ [zero_node\<lparr>nname := name, ninode := of_nat i, nflags := FS_FILE,
                        nuid := uid, ngid := gid, nmask := mode,
                        read_op := Some MesaBackend, write_op := Some MesaBackend\<rparr>]\<rparr>, Some (length (nodes s'))))"

definition mesa_create_dir ::
  "'a mesafs_scheme \<Rightarrow> u8 list \<Rightarrow> u32 \<Rightarrow> u32 \<Rightarrow> u32 \<Rightarrow> ('a mesafs_scheme \<times> nat option) option" where
  "mesa_create_dir s name uid gid mode =
     (case free_entry s of
        None \<Rightarrow> Some (s, None)
      | Some i \<Rightarrow>
          if length name > 64 then None
          else case save_metadata (s\<lparr>entries := (entries s)[i := fill_entry (entries s ! i) name
                      0 2 uid gid mode]\<rparr>) of
                 None \<Rightarrow> None
               | Some (s', _) \<Rightarrow>
                   Some (s'\<lparr>nodes := nodes s' @ [zero_node\<lparr>nname := name, ninode := of_nat i, nflags := FS_DIRECTORY,
                        nuid := uid, ngid := gid, nmask := mode,
                        readdir_op := Some MesaBackend, finddir_op := Some MesaBackend\<rparr>]\<rparr>, Some (length (nodes s'))))"

section \<open>Integrity and permissions\<close>

text \<open>\<open>after\<close> is the memory behind a 512-byte sector buffer; \<open>junk\<close> is what the uninitialised
  \<open>file_data\<close> array and the stack behind it hold.\<close>

fun verify_sectors :: "u8 list \<Rightarrow> mem \<Rightarrow> 'a mesafs_scheme \<Rightarrow> mesa_entry \<Rightarrow> nat \<Rightarrow> nat \<Rightarrow> u8 list \<Rightarrow> u8 list option" where
  "verify_sectors stack after s e i 0 file_data = Some file_data"
| "verify_sectors stack after s e i (Suc k) file_data =
     (if length file_data \<ge> 4096 then Some file_data
      else case auth_decrypt stack (keys s) after (snd (get_master_key (keys s)))
                  (disk_read (disk s) (base_lba s + lba_start e + of_nat i)) (ehmac e) of
             None \<Rightarrow> None
           | Some b \<Rightarrow> verify_sectors stack after s e (i + 1) k
                         (file_data @ take (min 512 (unat (elength e) - length file_data)) b))"

definition verify_entry_integrity :: "u8 list \<Rightarrow> mem \<Rightarrow> mem \<Rightarrow> 'a mesafs_scheme \<Rightarrow> mesa_entry \<Rightarrow> bool" where
  "verify_entry_integrity stack after junk s e =
     (if present e = 0 then True
      else if elength e > 0 \<and> eflags e = 1
      then (case verify_sectors stack after s e 0 (unat ((elength e + 511) div 512)) [] of
              None \<Rightarrow> False
            | Some file_data \<Rightarrow> hmac_verify stack (snd (get_hmac_key (keys s)))
                (\<lambda>i. if i < length file_data then file_data ! i else junk i) (unat (elength e)) (ehmac e))
      else True)"

definition check_permission :: "fs_node option \<Rightarrow> u32 \<Rightarrow> u32 \<Rightarrow> bool" where
  "check_permission node uid required_perm =
     (case node of
        None \<Rightarrow> False
      | Some n \<Rightarrow>
          if uid = 0 then True
          else if nuid n = uid then nmask n AND push_bit 6 required_perm \<noteq> 0
          else if ngid n = 0 then nmask n AND push_bit 3 required_perm \<noteq> 0
          else nmask n AND required_perm \<noteq> 0)"

section \<open>The sector loops against a block device\<close>

definition area :: "('d \<Rightarrow> u32 \<Rightarrow> u8 list) \<Rightarrow> 'd \<Rightarrow> u32 \<Rightarrow> nat \<Rightarrow> u8 list" where
  "area rd d start k = concat (map (\<lambda>i. rd d (start + of_nat i)) [0..<k])"

lemma patch_patch: "off \<le> length xs \<Longrightarrow> off + length a + length b \<le> length xs \<Longrightarrow>
    patch (patch xs off a) (off + length a) b = patch xs off (a @ b)"
  by (simp add: patch_def add.assoc add.commute add.left_commute)

lemma patch_Nil [simp]: "off \<le> length xs \<Longrightarrow> patch xs off [] = xs"
  by (simp add: patch_def)

lemma of_nat_div_512: "of_nat (unat w div 512) = (w div 512 :: u32)"
  by (simp add: word_arith_nat_div)

lemma div_512_cases:
  fixes j fo n q r :: nat
  assumes "fo mod 512 + n \<le> 512" and "r < 512" and "j = 512 * q + r"
  shows "q = fo div 512 \<Longrightarrow> j < fo \<longleftrightarrow> r < fo mod 512" "q = fo div 512 \<Longrightarrow> j < fo + n \<longleftrightarrow> r < fo mod 512 + n"
    "q = fo div 512 \<Longrightarrow> j - fo = r - fo mod 512"
    "q \<noteq> fo div 512 \<Longrightarrow> j < fo \<or> fo + n \<le> j"
proof -
  have fo: "fo = 512 * (fo div 512) + fo mod 512" "fo mod 512 < 512" by simp_all
  show "q = fo div 512 \<Longrightarrow> j < fo \<longleftrightarrow> r < fo mod 512" "q = fo div 512 \<Longrightarrow> j < fo + n \<longleftrightarrow> r < fo mod 512 + n"
    "q = fo div 512 \<Longrightarrow> j - fo = r - fo mod 512"
    using fo assms by linarith+
  show "q \<noteq> fo div 512 \<Longrightarrow> j < fo \<or> fo + n \<le> j"
  proof -
    assume "q \<noteq> fo div 512"
    then have "q + 1 \<le> fo div 512 \<or> fo div 512 + 1 \<le> q" by linarith
    then show "j < fo \<or> fo + n \<le> j" using fo assms by linarith
  qed
qed

lemma div_512_add:
  fixes m i :: nat
  assumes "m mod 512 + i < 512"
  shows "(m + i) div 512 = m div 512" and "(m + i) mod 512 = m mod 512 + i"
proof -
  have m: "m = 512 * (m div 512) + m mod 512" by simp
  show q: "(m + i) div 512 = m div 512"
  proof (rule div_nat_eqI)
    show "512 * (m div 512) \<le> m + i" using m by linarith
    have "m + i < 512 * (m div 512) + 512" using m assms by linarith
    then show "m + i < 512 * Suc (m div 512)" unfolding mult_Suc_right by (simp only: add.commute)
  qed
  show "(m + i) mod 512 = m mod 512 + i"
    using minus_mult_div_eq_mod [of "m + i" 512] m unfolding q by linarith
qed

context block_device
begin

lemma length_area: "ok d \<Longrightarrow> length (area rd d start k) = 512 * k"
  by (induction k) (simp_all add: area_def rd_length)

lemma nth_area: "ok d \<Longrightarrow> j < 512 * k \<Longrightarrow> area rd d start k ! j = rd d (start + of_nat (j div 512)) ! (j mod 512)"
proof (induction k)
  case (Suc k)
  have a: "area rd d start (Suc k) = area rd d start k @ rd d (start + of_nat k)" by (simp add: area_def)
  show ?case
  proof (cases "j < 512 * k")
    case True
    then show ?thesis using Suc by (simp add: a nth_append length_area)
  next
    case False
    have q: "j div 512 = k" by (rule div_nat_eqI) (use False Suc.prems(2) in simp_all)
    have j: "j div 512 = k" "j mod 512 = j - 512 * k"
      using q minus_mult_div_eq_mod [of j 512] by simp_all
    show ?thesis unfolding j a using False Suc.prems(1) by (simp add: nth_append length_area)
  qed
qed simp

lemma sector_of_area:
  assumes "ok d" and "n \<le> 512 - unat fo mod 512" and "unat fo + n \<le> 512 * k"
  shows "take n (drop (unat (fo mod 512)) (rd d (start + fo div 512))) = take n (drop (unat fo) (area rd d start k))"
proof (rule nth_equalityI)
  have so: "unat fo mod 512 + n \<le> 512" using assms(2) by simp
  show "length (take n (drop (unat (fo mod 512)) (rd d (start + fo div 512)))) =
      length (take n (drop (unat fo) (area rd d start k)))"
    using so assms by (simp add: rd_length length_area unat_mod_512)
  fix i assume "i < length (take n (drop (unat (fo mod 512)) (rd d (start + fo div 512))))"
  then have i: "i < n" "unat fo mod 512 + i < 512" using so by auto
  have "(unat fo + i) div 512 = unat fo div 512" "(unat fo + i) mod 512 = unat fo mod 512 + i"
    using div_512_add i(2) by simp_all
  then show "take n (drop (unat (fo mod 512)) (rd d (start + fo div 512))) ! i =
      take n (drop (unat fo) (area rd d start k)) ! i"
    using i assms by (simp add: nth_area rd_length length_area unat_mod_512 of_nat_div_512)
qed

lemma read_sectors_area:
  assumes "ok d" and "unat fo + rem \<le> 512 * k" and "512 * k < 4294967296"
  shows "read_sectors rd d start fo rem = take rem (drop (unat fo) (area rd d start k))"
  using assms(2)
proof (induction rem arbitrary: fo rule: less_induct)
  case (less rem)
  define n where "n = min rem (512 - unat (fo mod 512))"
  show ?case
  proof (cases "rem = 0")
    case False
    have n: "n \<le> rem" "0 < n" "n \<le> 512 - unat fo mod 512"
      using False unat_mod_512_less [of fo] by (simp_all add: n_def unat_mod_512)
    have u: "unat (fo + of_nat n) = unat fo + n"
      using n(1) less.prems assms(3) by (subst unat_add_u32) (simp_all add: unat_of_nat_u32)
    have "read_sectors rd d start fo rem = take n (drop (unat (fo mod 512)) (rd d (start + fo div 512))) @
        read_sectors rd d start (fo + of_nat n) (rem - n)"
      using False by (subst read_sectors.simps) (simp add: Let_def n_def)
    also have "\<dots> = take n (drop (unat fo) (area rd d start k)) @
        take (rem - n) (drop (unat fo + n) (area rd d start k))"
      using less.IH [of "rem - n" "fo + of_nat n"] n u less.prems
        sector_of_area [OF assms(1) n(3), of k start] by simp
    also have "\<dots> = take (n + (rem - n)) (drop (unat fo) (area rd d start k))"
      by (simp add: take_add add.commute)
    finally show ?thesis using n(1) by simp
  qed (simp add: read_sectors.simps)
qed

text \<open>One sector of an area replaced by its patched contents patches the area.\<close>

lemma area_patch_sector:
  assumes d: "ok d" "ok d'" and n: "length x \<le> 512 - unat fo mod 512" "unat fo < 512 * k"
    and rd': "\<And>i. i < k \<Longrightarrow> rd d' (start + of_nat i) =
      (if i = unat fo div 512 then patch (rd d (start + fo div 512)) (unat fo mod 512) x else rd d (start + of_nat i))"
  shows "area rd d' start k = patch (area rd d start k) (unat fo) x"
proof (rule nth_equalityI)
  let ?q = "unat fo div 512" and ?so = "unat fo mod 512"
  have so: "?so + length x \<le> 512" "?so < 512" using n by simp_all
  have q: "?q < k" using n(2) by (simp add: less_mult_imp_div_less mult.commute)
  have "unat fo = 512 * ?q + ?so" by simp
  then have "unat fo + length x \<le> 512 * (?q + 1)" using so(1) unfolding distrib_left by linarith
  also have "\<dots> \<le> 512 * k" using q by simp
  finally show "length (area rd d' start k) = length (patch (area rd d start k) (unat fo) x)"
    using d by (simp add: length_area)
  fix j assume "j < length (area rd d' start k)"
  then have j: "j < 512 * k" using d by (simp add: length_area)
  define qj rj where "qj = j div 512" and "rj = j mod 512"
  have jq: "j = 512 * qj + rj" "rj < 512" "qj < k" using j by (simp_all add: qj_def rj_def less_mult_imp_div_less mult.commute)
  note c = div_512_cases [OF so(1) jq(2) jq(1)]
  let ?old = "rd d (start + of_nat qj)"
  have lhs: "area rd d' start k ! j = (if qj = ?q then patch (rd d (start + fo div 512)) ?so x else ?old) ! rj"
    using nth_area [OF d(2) j] rd' [OF jq(3)] by (simp add: qj_def rj_def)
  have rhs: "patch (area rd d start k) (unat fo) x ! j =
      (if j < unat fo then ?old ! rj else if j < unat fo + length x then x ! (j - unat fo) else ?old ! rj)"
    using nth_patch [of "unat fo" "area rd d start k" j x] n(2) d(1) j nth_area [OF d(1) j]
    by (simp add: length_area qj_def rj_def)
  show "area rd d' start k ! j = patch (area rd d start k) (unat fo) x ! j"
  proof (cases "qj = ?q")
    case True
    have "patch (rd d (start + fo div 512)) ?so x ! rj =
        (if rj < ?so then ?old ! rj else if rj < ?so + length x then x ! (rj - ?so) else ?old ! rj)"
      using nth_patch [of ?so "rd d (start + fo div 512)" rj x] so jq(2) d(1) True
      by (simp add: rd_length of_nat_div_512)
    then show ?thesis using lhs rhs c(1-3) [OF True] True by simp
  next
    case False
    then show ?thesis using lhs rhs c(4) by auto
  qed
qed

lemma write_one_sector:
  assumes d: "ok d" and n: "length x \<le> 512 - unat fo mod 512" "unat fo < 512 * k"
    and lim: "unat start + k \<le> limit"
  defines "d' \<equiv> wr d (start + fo div 512) (patch (rd d (start + fo div 512)) (unat (fo mod 512)) x)"
  shows "ok d'" and "area rd d' start k = patch (area rd d start k) (unat fo) x"
    and "\<forall>l. unat l < limit \<and> (unat l < unat start \<or> unat start + k \<le> unat l) \<longrightarrow> rd d' l = rd d l"
proof -
  let ?q = "unat fo div 512" and ?so = "unat fo mod 512"
  let ?b = "patch (rd d (start + fo div 512)) ?so x"
  have "length ?b = 512" using n(1) d unat_mod_512_less [of fo] by (simp add: rd_length)
  then show ok': "ok d'" unfolding d'_def by (intro wr_ok [OF d]) (simp add: unat_mod_512)
  have q: "?q < k" using n(2) by (simp add: less_mult_imp_div_less mult.commute)
  have u: "unat (start + of_nat i) = unat start + i" if "i < k" for i
    using that lim limit_small by (subst unat_add_u32) (simp_all add: unat_of_nat_u32)
  have "rd d' (start + of_nat i) = (if i = ?q then ?b else rd d (start + of_nat i))" if "i < k" for i
  proof -
    have "start + of_nat i = start + of_nat ?q \<longleftrightarrow> i = ?q"
      using u [OF that] u [OF q] by (metis add_left_cancel)
    then show ?thesis
      unfolding d'_def unat_mod_512 of_nat_div_512 [symmetric]
      using rd_wr [OF d, of "start + of_nat ?q" "start + of_nat i"] u [OF that] u [OF q] that q lim by simp
  qed
  then show "area rd d' start k = patch (area rd d start k) (unat fo) x"
    by (rule area_patch_sector [OF d ok' n])
  show "\<forall>l. unat l < limit \<and> (unat l < unat start \<or> unat start + k \<le> unat l) \<longrightarrow> rd d' l = rd d l"
  proof (intro allI impI)
    fix l :: u32 assume l: "unat l < limit \<and> (unat l < unat start \<or> unat start + k \<le> unat l)"
    then have "l \<noteq> start + of_nat ?q" using u [OF q] q by auto
    then show "rd d' l = rd d l"
      unfolding d'_def of_nat_div_512 [symmetric]
      using rd_wr [OF d, of "start + of_nat ?q" l] u [OF q] q lim l by simp
  qed
qed

lemma write_sectors_area:
  assumes "ok d" and "unat fo + length data \<le> 512 * k" and "512 * k < 4294967296" and "unat start + k \<le> limit"
  shows "ok (write_sectors rd wr d start fo data) \<and>
    area rd (write_sectors rd wr d start fo data) start k = patch (area rd d start k) (unat fo) data \<and>
    (\<forall>l. unat l < limit \<and> (unat l < unat start \<or> unat start + k \<le> unat l) \<longrightarrow>
       rd (write_sectors rd wr d start fo data) l = rd d l)"
  using assms(1,2)
proof (induction "length data" arbitrary: d fo data rule: less_induct)
  case less
  show ?case
  proof (cases "data = []")
    case True
    then show ?thesis using less.prems by (simp add: write_sectors.simps length_area)
  next
    case False
    define n where "n = min (512 - unat (fo mod 512)) (length data)"
    have n: "n \<le> length data" "0 < n" "n \<le> 512 - unat fo mod 512"
      using False unat_mod_512_less [of fo] by (simp_all add: n_def unat_mod_512)
    let ?x = "take n data" and ?sec = "rd d (start + fo div 512)"
    let ?buf = "if unat (fo mod 512) > 0 \<or> length data < 512 then ?sec else replicate 512 0"
    have x: "length ?x = n" using n by simp
    have buf: "patch ?buf (unat (fo mod 512)) ?x = patch ?sec (unat (fo mod 512)) ?x"
      using rd_length [OF less.prems(1), of "start + fo div 512"] by (auto simp: patch_def n_def)
    define d' where "d' = wr d (start + fo div 512) (patch ?sec (unat (fo mod 512)) ?x)"
    have lt: "unat fo < 512 * k" using less.prems(2) n by simp
    have xl: "length ?x \<le> 512 - unat fo mod 512" using n x by simp
    note one = write_one_sector [OF less.prems(1) xl lt assms(4), folded d'_def]
    have u: "unat (fo + of_nat n) = unat fo + n"
      using n(1) less.prems assms(3) by (subst unat_add_u32) (simp_all add: unat_of_nat_u32)
    have w: "write_sectors rd wr d start fo data = write_sectors rd wr d' start (fo + of_nat n) (drop n data)"
      using False buf by (subst write_sectors.simps) (simp add: Let_def n_def d'_def)
    have "length (drop n data) < length data" "unat (fo + of_nat n) + length (drop n data) \<le> 512 * k"
      using n u less.prems(2) by simp_all
    note IH = less.hyps [OF this(1) one(1) this(2)]
    have "patch (patch (area rd d start k) (unat fo) ?x) (unat fo + n) (drop n data) = patch (area rd d start k) (unat fo) data"
      using patch_patch [of "unat fo" "area rd d start k" ?x "drop n data"] x less.prems
      by (simp add: length_area)
    then show ?thesis using IH one w u by auto
  qed
qed

end

section \<open>MesaFS files as a file store\<close>

definition file_start :: "'a mesafs_scheme \<Rightarrow> nat \<Rightarrow> u32" where
  "file_start s i = base_lba s + lba_start (entries s ! i)"

definition mesa_index :: "'a mesafs_scheme \<Rightarrow> nat \<Rightarrow> nat" where
  "mesa_index s n = unat (ninode (nodes s ! n))"

definition mesa_content :: "'a mesafs_scheme \<Rightarrow> nat \<Rightarrow> u8 list" where
  "mesa_content s n =
     take (unat (elength (entries s ! mesa_index s n))) (area disk_read (disk s) (file_start s (mesa_index s n)) 10)"

definition entry_wf :: "mesa_entry \<Rightarrow> bool" where
  "entry_wf e \<longleftrightarrow> length (ename e) = 64 \<and> length (ehmac e) = 32"

definition mesa_wf :: "'a mesafs_scheme \<Rightarrow> bool" where
  "mesa_wf s \<longleftrightarrow> length (entries s) = 8 \<and> (\<forall>e \<in> set (entries s). entry_wf e) \<and> length (header_hmac s) = 32 \<and>
     disk_ok (disk s) \<and> unat (base_lba s) + 180 \<le> 268435456 \<and> 496 \<le> stack_room s"

definition mesa_ok :: "'a mesafs_scheme \<Rightarrow> nat \<Rightarrow> bool" where
  "mesa_ok s n \<longleftrightarrow> mesa_wf s \<and> mesa_index s n < 8 \<and>
     lba_start (entries s ! mesa_index s n) = 100 + of_nat (mesa_index s n) * 10 \<and>
     unat (elength (entries s ! mesa_index s n)) \<le> 5120"

definition mesa_indep :: "'a mesafs_scheme \<Rightarrow> nat \<Rightarrow> nat \<Rightarrow> bool" where
  "mesa_indep s f g \<longleftrightarrow> mesa_index s f \<noteq> mesa_index s g"

lemma area_cong:
  "(\<And>i. i < k \<Longrightarrow> rd d' (start + of_nat i) = rd d (start + of_nat i)) \<Longrightarrow> area rd d' start k = area rd d start k"
  unfolding area_def by (intro arg_cong [where f = concat] map_cong) auto

lemma file_start_unat:
  assumes "mesa_ok s n" and "i = mesa_index s n"
  shows "unat (file_start s i) = unat (base_lba s) + 100 + 10 * i"
proof -
  have o: "i < 8" "lba_start (entries s ! i) = of_nat (100 + i * 10)" "unat (base_lba s) + 180 \<le> 268435456"
    using assms by (simp_all add: mesa_ok_def mesa_wf_def)
  have "unat (of_nat (100 + i * 10) :: u32) = 100 + i * 10" by (rule unat_of_nat_u32) (use o(1) in simp)
  then show ?thesis using o unat_add_u32 [of "base_lba s" "of_nat (100 + i * 10)"]
    by (simp add: file_start_def del: of_nat_add of_nat_mult)
qed

lemma area_sector_unat:
  assumes "mesa_ok s n" and "i = mesa_index s n" and "j < 10"
  shows "unat (file_start s i + of_nat j) = unat (base_lba s) + 100 + 10 * i + j"
proof -
  have "i < 8" "unat (base_lba s) + 180 \<le> 268435456" using assms by (simp_all add: mesa_ok_def mesa_wf_def)
  moreover have "unat (of_nat j :: u32) = j" by (rule unat_of_nat_u32) (use assms(3) in simp)
  ultimately show ?thesis
    using file_start_unat [OF assms(1,2)] assms(3) unat_add_u32 [of "file_start s i" "of_nat j"] by simp
qed

lemma mesa_read_content:
  assumes ok: "mesa_ok s f" and off: "unat off \<le> length (mesa_content s f)"
    and nw: "unat off + unat n < 4294967296"
  shows "mesa_read s f off n = Some (take (unat n) (drop (unat off) (mesa_content s f)))"
proof -
  let ?i = "mesa_index s f"
  let ?e = "entries s ! ?i" and ?a = "area disk_read (disk s) (file_start s ?i) 10"
  have o: "?i < 8" "disk_ok (disk s)" "unat (elength ?e) \<le> 5120" using ok by (simp_all add: mesa_ok_def mesa_wf_def)
  have len: "length (mesa_content s f) = unat (elength ?e)"
    using o(3) by (simp add: mesa_content_def ide.length_area [OF o(2)])
  have sum: "unat (off + n) = unat off + unat n" by (rule unat_add_u32) (rule nw)
  show ?thesis
  proof (cases "off \<ge> elength ?e")
    case True
    then have "unat off = length (mesa_content s f)" using off len by (simp add: word_le_nat_alt)
    then show ?thesis using True o(1) by (simp add: mesa_read_def mesa_index_def [symmetric])
  next
    case False
    define n' where "n' = (if off + n > elength ?e then elength ?e - off else n)"
    have le: "off \<le> elength ?e" using False by simp
    have n': "unat n' = min (unat n) (unat (elength ?e) - unat off)"
      using sum off len unat_sub_u32 [OF le] by (auto simp: n'_def word_less_nat_alt min_def)
    have "mesa_read s f off n = Some (read_sectors disk_read (disk s) (file_start s ?i) off (unat n'))"
      using False o(1) by (simp add: mesa_read_def mesa_index_def [symmetric] Let_def n'_def file_start_def)
    also have "\<dots> = Some (take (unat n') (drop (unat off) ?a))"
      using ide.read_sectors_area [OF o(2), of off "unat n'" 10 "file_start s ?i"] n' off len o(3) by simp
    also have "take (unat n') (drop (unat off) ?a) = take (unat n) (drop (unat off) (mesa_content s f))"
      using n' by (simp add: mesa_content_def drop_take min.commute)
    finally show ?thesis .
  qed
qed

lemma length_entry_bytes: "entry_wf e \<Longrightarrow> length (entry_bytes e) = 120"
  by (simp add: entry_bytes_def entry_wf_def)

lemma length_entries_bytes: "\<forall>e \<in> set es. entry_wf e \<Longrightarrow> length (concat (map entry_bytes es)) = 120 * length es"
  by (induction es) (simp_all add: length_entry_bytes)

lemma length_metadata_sector:
  assumes "\<forall>e \<in> set es. entry_wf e" and "length es = 8" and "length hmac = 32"
  shows "length (metadata_sector hmac es) = 512"
  using length_entries_bytes [OF assms(1)] assms(2,3) by (simp add: metadata_sector_def header_bytes_def)

lemma save_metadata_wf:
  assumes "mesa_wf s"
  shows "\<exists>d b. save_metadata s = Some (s\<lparr>disk := d\<rparr>, b) \<and> disk_ok d \<and> (b \<longleftrightarrow> metadata_valid s) \<and>
    (\<forall>l. unat l < 268435456 \<and> l \<noteq> base_lba s + 1 \<longrightarrow> disk_read d l = disk_read (disk s) l)"
proof (cases "metadata_valid s")
  case True
  let ?m = "metadata_sector (header_hmac s) (entries s)"
  have wf: "\<forall>e \<in> set (entries s). entry_wf e" "length (entries s) = 8" "length (header_hmac s) = 32" "disk_ok (disk s)"
    "unat (base_lba s) + 180 \<le> 268435456" "496 \<le> stack_room s"
    using assms by (simp_all add: mesa_wf_def)
  have "unat (base_lba s + 1) = unat (base_lba s) + 1"
    using wf(5) by (subst unat_add_u32) simp_all
  then have "\<forall>l. unat l < 268435456 \<and> l \<noteq> base_lba s + 1 \<longrightarrow>
      disk_read (disk_write (disk s) (base_lba s + 1) ?m) l = disk_read (disk s) l"
    using ide.rd_wr [OF wf(4)] wf(5) by simp
  moreover have "disk_ok (disk_write (disk s) (base_lba s + 1) ?m)"
    using ide.wr_ok [OF wf(4)] length_metadata_sector [OF wf(1-3)] by simp
  moreover have "save_metadata s = Some (s\<lparr>disk := disk_write (disk s) (base_lba s + 1) ?m\<rparr>, True)"
    using True wf by (simp add: save_metadata_def HEADER_SIZE_def ENTRY_SIZE_def)
  ultimately show ?thesis using True by blast
next
  case False
  have "save_metadata s = Some (s\<lparr>disk := disk s\<rparr>, False)" using False by (simp add: save_metadata_def)
  then show ?thesis using assms False unfolding mesa_wf_def by blast
qed

text \<open>A write of at most the area's length that starts inside the file.\<close>

lemma mesa_write_sectors:
  assumes ok: "mesa_ok s f" and cap: "unat off + length data \<le> 512 * k" and k: "10 * mesa_index s f + k \<le> 80"
  defines "i \<equiv> mesa_index s f"
  shows "\<exists>d. mesa_write s f off data = Some (s\<lparr>disk := d, entries := (entries s)[i := (entries s ! i)\<lparr>elength :=
        (if off + of_nat (length data) > elength (entries s ! i) then off + of_nat (length data) else elength (entries s ! i))\<rparr>]\<rparr>,
      of_nat (length data)) \<and> disk_ok d \<and>
    area disk_read d (file_start s i) k = patch (area disk_read (disk s) (file_start s i) k) (unat off) data \<and>
    (\<forall>l. unat l < 268435456 \<and> l \<noteq> base_lba s + 1 \<and> (unat l < unat (file_start s i) \<or> unat (file_start s i) + k \<le> unat l) \<longrightarrow>
       disk_read d l = disk_read (disk s) l)"
proof -
  let ?e = "entries s ! i" and ?n = "of_nat (length data) :: u32"
  define e' where "e' = ?e\<lparr>elength := (if off + ?n > elength ?e then off + ?n else elength ?e)\<rparr>"
  have w: "mesa_wf s" "i < 8" using ok by (simp_all add: mesa_ok_def i_def)
  then have wf: "length (entries s) = 8" "disk_ok (disk s)" "unat (base_lba s) + 180 \<le> 268435456"
    by (simp_all add: mesa_wf_def)
  have start: "unat (file_start s i) = unat (base_lba s) + 100 + 10 * i"
    using file_start_unat [OF ok] by (simp add: i_def)
  define d1 where "d1 = write_sectors disk_read disk_write (disk s) (file_start s i) off data"
  have small: "512 * k < 4294967296" "unat (file_start s i) + k \<le> 268435456"
    using k start wf(3) by (simp_all add: i_def)
  note d1 = ide.write_sectors_area [OF wf(2) cap small, folded d1_def]
  let ?s1 = "s\<lparr>disk := d1, entries := (entries s)[i := e']\<rparr>"
  have "entry_wf ?e" using w wf(1) by (simp add: mesa_wf_def)
  then have "entry_wf e'" by (simp add: entry_wf_def e'_def)
  then have "mesa_wf ?s1" using w(1) d1 set_update_subset_insert [of "entries s" i e']
    by (auto simp: mesa_wf_def)
  from save_metadata_wf [OF this] obtain d b where d: "save_metadata ?s1 = Some (?s1\<lparr>disk := d\<rparr>, b)" "disk_ok d"
    "\<forall>l. unat l < 268435456 \<and> l \<noteq> base_lba s + 1 \<longrightarrow> disk_read d l = disk_read d1 l" by auto
  have wr: "mesa_write s f off data = Some (s\<lparr>disk := d, entries := (entries s)[i := e']\<rparr>, ?n)"
    using w(2) d(1) by (simp add: mesa_write_def mesa_index_def [symmetric] i_def [symmetric] Let_def
        d1_def file_start_def e'_def)
  have "unat (base_lba s + 1) = unat (base_lba s) + 1" using wf(3) by (subst unat_add_u32) simp_all
  then have ne: "unat (base_lba s) + 100 + 10 * i \<le> unat l \<Longrightarrow> l \<noteq> base_lba s + 1" for l by auto
  have sec: "unat (file_start s i + of_nat j) = unat (file_start s i) + j" if "j < k" for j
    using that small(2) by (subst unat_add_u32) (simp_all add: unat_of_nat_u32)
  have "area disk_read d (file_start s i) k = area disk_read d1 (file_start s i) k"
  proof (rule area_cong)
    fix j assume "j < k"
    then show "disk_read d (file_start s i + of_nat j) = disk_read d1 (file_start s i + of_nat j)"
      using d(3) ne [of "file_start s i + of_nat j"] sec [of j] start small(2) by simp
  qed
  then show ?thesis using wr d d1 unfolding e'_def by auto
qed

text \<open>The areas of two files are disjoint: sectors outside one keep the other, and so does the metadata sector.\<close>

lemma other_area_unchanged:
  assumes f: "mesa_ok s f" and g: "mesa_ok s g" and ne: "mesa_index s f \<noteq> mesa_index s g"
    and d: "\<forall>l. unat l < 268435456 \<and> l \<noteq> base_lba s + 1
      \<and> (unat l < unat (file_start s (mesa_index s f)) \<or> unat (file_start s (mesa_index s f)) + 10 \<le> unat l) \<longrightarrow>
        disk_read d l = disk_read (disk s) l"
  shows "area disk_read d (file_start s (mesa_index s g)) 10 = area disk_read (disk s) (file_start s (mesa_index s g)) 10"
proof (rule area_cong)
  let ?i = "mesa_index s f" and ?j = "mesa_index s g"
  fix m :: nat assume m: "m < 10"
  have wf: "unat (base_lba s) + 180 \<le> 268435456" "?j < 8" using g by (simp_all add: mesa_ok_def mesa_wf_def)
  then have "unat (base_lba s + 1) = unat (base_lba s) + 1" by (subst unat_add_u32) simp_all
  moreover have "unat (file_start s ?j + of_nat m) = unat (base_lba s) + 100 + 10 * ?j + m"
    by (rule area_sector_unat [OF g refl m])
  moreover have "unat (file_start s ?i) = unat (base_lba s) + 100 + 10 * ?i"
    by (rule file_start_unat [OF f refl])
  moreover have "10 * ?j + m < 10 * ?i \<or> 10 * ?i + 10 \<le> 10 * ?j + m" using ne m by linarith
  ultimately have "unat (file_start s ?j + of_nat m) < 268435456"
    "unat (file_start s ?j + of_nat m) \<noteq> unat (base_lba s + 1)"
    "unat (file_start s ?j + of_nat m) < unat (file_start s ?i) \<or>
       unat (file_start s ?i) + 10 \<le> unat (file_start s ?j + of_nat m)"
    using wf m by linarith+
  then show "disk_read d (file_start s ?j + of_nat m) = disk_read (disk s) (file_start s ?j + of_nat m)"
    using d by metis
qed

lemma mesa_write_content:
  assumes ok: "mesa_ok s f" and off: "unat off \<le> length (mesa_content s f)" and cap: "unat off + length data \<le> 5120"
  shows "\<exists>s'. mesa_write s f off data = Some (s', of_nat (length data)) \<and> mesa_ok s' f \<and>
    mesa_content s' f = patch (mesa_content s f) (unat off) data \<and>
    (\<forall>g. mesa_ok s g \<and> mesa_indep s f g \<longrightarrow> mesa_ok s' g \<and> mesa_indep s' f g \<and> mesa_content s' g = mesa_content s g)"
proof -
  let ?i = "mesa_index s f" and ?n = "of_nat (length data) :: u32"
  let ?e = "entries s ! ?i" and ?a = "area disk_read (disk s) (file_start s ?i) 10"
  have o: "mesa_wf s" "?i < 8" "unat (elength ?e) \<le> 5120" using ok by (simp_all add: mesa_ok_def)
  then have wf: "length (entries s) = 8" "disk_ok (disk s)" "unat (base_lba s) + 180 \<le> 268435456"
    "\<forall>e \<in> set (entries s). entry_wf e" by (simp_all add: mesa_wf_def)
  define len where "len = (if off + ?n > elength ?e then off + ?n else elength ?e)"
  obtain d where d: "mesa_write s f off data = Some (s\<lparr>disk := d, entries := (entries s)[?i := ?e\<lparr>elength := len\<rparr>]\<rparr>, ?n)"
    "disk_ok d" "area disk_read d (file_start s ?i) 10 = patch ?a (unat off) data"
    "\<forall>l. unat l < 268435456 \<and> l \<noteq> base_lba s + 1 \<and> (unat l < unat (file_start s ?i) \<or> unat (file_start s ?i) + 10 \<le> unat l) \<longrightarrow>
       disk_read d l = disk_read (disk s) l"
    using mesa_write_sectors [OF ok, of off data 10] cap o(2) by (auto simp: len_def)
  define s' where "s' = s\<lparr>disk := d, entries := (entries s)[?i := ?e\<lparr>elength := len\<rparr>]\<rparr>"
  have n: "unat ?n = length data" by (rule unat_of_nat_u32) (use cap in simp)
  have sum: "unat (off + ?n) = unat off + length data" using n cap unat_add_u32 [of off ?n] by simp
  have len: "unat len = max (unat (elength ?e)) (unat off + length data)"
    using sum by (auto simp: len_def word_less_nat_alt max_def)
  have al: "length ?a = 5120" by (simp add: ide.length_area [OF wf(2)])
  have offl: "unat off \<le> unat (elength ?e)" using off o(3) al by (simp add: mesa_content_def)
  have idx: "mesa_index s' g = mesa_index s g" for g by (simp add: s'_def mesa_index_def)
  have st: "file_start s' j = file_start s j" for j
    using o(2) wf(1) by (cases "j = ?i") (simp_all add: s'_def file_start_def)
  have e': "entries s' ! ?i = ?e\<lparr>elength := len\<rparr>" using o(2) wf(1) by (simp add: s'_def)
  have wf': "mesa_wf s'"
    using o(1) d(2) wf(4) nth_mem [of ?i "entries s"] o(2) wf(1) set_update_subset_insert [of "entries s" ?i]
    by (fastforce simp: s'_def mesa_wf_def entry_wf_def)
  have ok': "mesa_ok s' f"
    using ok wf' e' len cap by (simp add: mesa_ok_def idx)
  have "mesa_content s' f = take (max (unat (elength ?e)) (unat off + length data)) (patch ?a (unat off) data)"
    using d(3) by (simp add: mesa_content_def idx st e' len) (simp add: s'_def)
  also have "\<dots> = patch (mesa_content s f) (unat off) data"
    unfolding mesa_content_def using o(3) al cap offl by (intro take_patch) simp_all
  finally have c: "mesa_content s' f = patch (mesa_content s f) (unat off) data" .
  have other: "mesa_ok s' g \<and> mesa_indep s' f g \<and> mesa_content s' g = mesa_content s g"
    if g: "mesa_ok s g" "mesa_indep s f g" for g
  proof -
    let ?j = "mesa_index s g"
    have ij: "?i \<noteq> ?j" using g(2) by (simp add: mesa_indep_def)
    then have ent: "entries s' ! ?j = entries s ! ?j" by (simp add: s'_def)
    have "area disk_read d (file_start s ?j) 10 = area disk_read (disk s) (file_start s ?j) 10"
      by (rule other_area_unchanged [OF ok g(1) ij d(4)])
    then have "mesa_content s' g = mesa_content s g"
      by (simp add: mesa_content_def idx st ent) (simp add: s'_def)
    then show ?thesis using g wf' ent by (simp add: mesa_ok_def mesa_indep_def idx)
  qed
  have "mesa_write s f off data = Some (s', ?n)" using d(1) by (simp add: s'_def)
  then show ?thesis using ok' c other by blast
qed

interpretation mesa: file_store mesa_read mesa_write mesa_ok mesa_indep mesa_content 5120
proof (unfold_locales, goal_cases)
  case 1
  show ?case by simp
next
  case (2 s f off n)
  then show ?case by (rule mesa_read_content)
next
  case (3 s f off data)
  then show ?case by (rule mesa_write_content)
qed

lemma area_split: "area rd d start (a + b) = area rd d start a @ area rd d (start + of_nat a) b"
  by (induction b) (simp_all add: area_def add.assoc)

section \<open>Properties of the disk file system\<close>


definition blank_disk :: "mesafs" where
  "blank_disk = \<lparr>nodes = [], blocks = [], files = replicate MAX_FILES 0, file_contents = replicate MAX_FILES 0,
     file_count = 0, entries = replicate 8 zero_entry, base_lba = 0, metadata_valid = True,
     keys = key_manager0, disk = (\<lambda>l. replicate 512 0), header_hmac = replicate 32 0, stack_room = 496\<rparr>"

text \<open>Two files next to each other, in the first two slots.\<close>

definition two_files :: "mesafs" where
  "two_files = blank_disk\<lparr>
     nodes := [zero_node\<lparr>ninode := 0\<rparr>, zero_node\<lparr>ninode := 1\<rparr>],
     entries := [zero_entry\<lparr>present := 1, eflags := 1, lba_start := 100\<rparr>,
       zero_entry\<lparr>present := 1, eflags := 1, lba_start := 110, elength := 5\<rparr>] @ replicate 6 zero_entry\<rparr>"

lemma two_files_ok: "mesa_ok two_files 0" "mesa_ok two_files 1"
proof -
  have z: "entry_wf zero_entry" by (simp add: entry_wf_def zero_entry_def)
  have "disk_ok (disk two_files)" by (simp add: disk_ok_def two_files_def blank_disk_def)
  moreover have "\<forall>e \<in> set (entries two_files). entry_wf e"
    using z by (auto simp: two_files_def entry_wf_def)
  ultimately have "mesa_wf two_files"
    by (simp add: mesa_wf_def) (simp add: two_files_def blank_disk_def)
  then show "mesa_ok two_files 0" "mesa_ok two_files 1"
    by (simp_all add: mesa_ok_def mesa_index_def) (simp_all add: two_files_def zero_node_def zero_entry_def)
qed


text \<open>Nothing bounds a write by the ten sectors of its file: what is written past them lands at
  the start of the file in the next slot.\<close>

lemma mesa_write_spills:
  assumes f: "mesa_ok s f" and g: "mesa_ok s g" and next_slot: "mesa_index s g = mesa_index s f + 1"
    and long: "5120 \<le> length data" "length data \<le> 10240"
  shows "\<exists>s'. mesa_write s f 0 data = Some (s', of_nat (length data)) \<and>
    mesa_content s' g = take (length (mesa_content s g)) (drop 5120 data) @ drop (length data - 5120) (mesa_content s g)"
proof -
  let ?i = "mesa_index s f" and ?j = "mesa_index s g"
  let ?a = "\<lambda>d j. area disk_read d (file_start s j) 10"
  have wf: "mesa_wf s" "?j < 8" "unat (elength (entries s ! ?j)) \<le> 5120" using g by (simp_all add: mesa_ok_def)
  then have ok: "disk_ok (disk s)" "length (entries s) = 8" by (simp_all add: mesa_wf_def)
  have "10 * ?i + 20 \<le> 80" using next_slot wf(2) by simp
  from mesa_write_sectors [OF f _ this, of 0 data] obtain d e where
    d: "mesa_write s f 0 data = Some (s\<lparr>disk := d, entries := (entries s)[?i := e]\<rparr>, of_nat (length data))"
      "disk_ok d" "area disk_read d (file_start s ?i) 20 = patch (area disk_read (disk s) (file_start s ?i) 20) 0 data"
    using long(2) by auto
  have "unat (file_start s ?i + of_nat 10) = unat (file_start s ?j)"
    using file_start_unat [OF f refl] file_start_unat [OF g refl] next_slot wf(1,2)
    by (subst unat_add_u32) (simp_all add: mesa_wf_def)
  then have adj: "file_start s ?i + of_nat 10 = file_start s ?j" by (rule word_unat_eq_iff [THEN iffD2])
  have two: "area disk_read d' (file_start s ?i) 20 = ?a d' ?i @ ?a d' ?j" for d'
    using area_split [of disk_read d' "file_start s ?i" 10 10] adj by simp
  have len: "length (?a d' j) = 5120" if "disk_ok d'" for d' j by (simp add: ide.length_area [OF that])
  have "drop 5120 (?a d ?i @ ?a d ?j) = drop 5120 (patch (?a (disk s) ?i @ ?a (disk s) ?j) 0 data)"
    using d(3) two by simp
  then have ag: "?a d ?j = drop 5120 data @ drop (length data - 5120) (?a (disk s) ?j)"
    using len [OF d(2)] len [OF ok(1)] long by (simp add: patch_def)
  define s' where "s' = s\<lparr>disk := d, entries := (entries s)[?i := e]\<rparr>"
  have e: "entries s' ! ?j = entries s ! ?j" "mesa_index s' g = ?j"
    using next_slot by (simp_all add: s'_def mesa_index_def)
  then have "mesa_content s' g = take (unat (elength (entries s ! ?j))) (?a d ?j)"
    by (simp add: mesa_content_def file_start_def) (simp add: s'_def)
  also have "\<dots> = take (length (mesa_content s g)) (drop 5120 data) @ drop (length data - 5120) (mesa_content s g)"
    using ag len [OF ok(1)] wf(3) long by (simp add: mesa_content_def drop_take)
  finally show ?thesis using d(1) by (auto simp: s'_def)
qed

lemma mesa_write_spills_example:
  "\<exists>s'. mesa_write two_files 0 0 (replicate 5122 7) = Some (s', 5122) \<and> mesa_content s' 1 = [7, 7, 0, 0, 0]"
proof -
  have n: "mesa_index two_files 1 = mesa_index two_files 0 + 1" by (simp add: mesa_index_def two_files_def zero_node_def)
  have "mesa_content two_files 1 = replicate 5 0"
    unfolding mesa_content_def area_def
    by (simp add: two_files_def blank_disk_def disk_read_def mesa_index_def upt_rec zero_node_def)
  then have "length (mesa_content two_files 1) = 5" "drop 2 (mesa_content two_files 1) = [0, 0, 0]"
    by (simp_all add: eval_nat_numeral)
  then show ?thesis
    using mesa_write_spills [OF two_files_ok n, of "replicate 5122 7"] by (simp add: numeral_2_eq_2)
qed

text \<open>The metadata of eight entries does not fit into its sector: of the 960 bytes only the first
  464 reach the disk, so registries that agree in their first four entries leave the same sector,
  and the copy overruns the 512-byte buffer by 496 bytes, a fault when fewer of them are free.\<close>

lemma metadata_truncated:
  assumes "length es = 8" and "\<forall>e \<in> set es. entry_wf e" and "length hmac = 32"
    and "length es' = 8" and "\<forall>e \<in> set es'. entry_wf e" and "take 4 es = take 4 es'"
    and "metadata_valid s" and "stack_room s < 496"
  shows "metadata_sector hmac es = metadata_sector hmac es' \<and> save_metadata (s\<lparr>entries := es\<rparr>) = None"
proof
  have h: "length (header_bytes hmac) = 48" using assms(3) by (simp add: header_bytes_def)
  have cut: "metadata_sector hmac xs = take 512 (header_bytes hmac @ concat (map entry_bytes (take 4 xs)))"
    if "length xs = 8" "\<forall>e \<in> set xs. entry_wf e" for xs
  proof -
    have "\<forall>e \<in> set (take 4 xs). entry_wf e" using that(2) by (auto dest: in_set_takeD)
    then have l: "length (concat (map entry_bytes (take 4 xs))) = 480"
      using length_entries_bytes [of "take 4 xs"] that(1) by simp
    have "concat (map entry_bytes xs) = concat (map entry_bytes (take 4 xs)) @ concat (map entry_bytes (drop 4 xs))"
      by (simp flip: concat_append map_append)
    then show ?thesis using l h by (simp add: metadata_sector_def)
  qed
  show "metadata_sector hmac es = metadata_sector hmac es'"
    using cut [OF assms(1,2)] cut [OF assms(4,5)] assms(6) by simp
  show "save_metadata (s\<lparr>entries := es\<rparr>) = None"
    using assms by (simp add: save_metadata_def HEADER_SIZE_def ENTRY_SIZE_def)
qed

lemma metadata_truncated_example:
  "metadata_sector (replicate 32 0) (replicate 8 zero_entry) =
     metadata_sector (replicate 32 0) ((replicate 8 zero_entry)[5 := zero_entry\<lparr>present := 1\<rparr>]) \<and>
   save_metadata (blank_disk\<lparr>stack_room := 100, entries := replicate 8 zero_entry\<rparr>) = None"
proof -
  let ?es = "replicate 8 zero_entry"
  have w: "entry_wf zero_entry" "entry_wf (zero_entry\<lparr>present := 1\<rparr>)" by (simp_all add: entry_wf_def zero_entry_def)
  have "\<forall>e \<in> set ?es. entry_wf e" using w by simp
  moreover have "\<forall>e \<in> set (?es[5 := zero_entry\<lparr>present := 1\<rparr>]). entry_wf e"
    using w set_update_subset_insert [of ?es 5 "zero_entry\<lparr>present := 1\<rparr>"] by auto
  moreover have "take 4 ?es = take 4 (?es[5 := zero_entry\<lparr>present := 1\<rparr>])" by (simp add: take_update_cancel)
  moreover have "metadata_valid (blank_disk\<lparr>stack_room := 100\<rparr>)" "stack_room (blank_disk\<lparr>stack_room := 100\<rparr>) < 496"
    by (simp_all add: blank_disk_def)
  ultimately show ?thesis
    using metadata_truncated [of ?es "replicate 32 0" "?es[5 := zero_entry\<lparr>present := 1\<rparr>]" "blank_disk\<lparr>stack_room := 100\<rparr>"]
    by simp
qed

end
