(* ===== verification/Net.thy ===== *)
theory Net
  imports CString
begin

text \<open>
  The network layers up to UDP: \<open>net/ethernet.cpp\<close>, \<open>net/arp.cpp\<close>, \<open>net/ipv4.cpp\<close>,
  \<open>net/udp.cpp\<close>, \<open>net/icmp.cpp\<close> and \<open>net/dhcp.cpp\<close>. A packet handed to a handler is the memory
  that starts at it and a size; a packet that is built is a byte list. \<open>wire\<close> is the sequence of
  frames handed to the network cards, \<open>console\<close> what was printed. Packet buffers are values: that
  \<open>kmalloc\<close> may fail, which these layers do not check, is not modelled.
\<close>

unbundle bit_operations_syntax

section \<open>Byte order and checksum\<close>

definition swap_uint16 :: "u16 \<Rightarrow> u16" where
  "swap_uint16 val = push_bit 8 val OR drop_bit 8 val"

definition swap_uint32 :: "u32 \<Rightarrow> u32" where
  "swap_uint32 val = (drop_bit 24 val AND 0xFF) OR (drop_bit 8 val AND 0xFF00) OR
     (push_bit 8 val AND 0xFF0000) OR (push_bit 24 val AND 0xFF000000)"

fun sum_words :: "mem \<Rightarrow> nat \<Rightarrow> nat \<Rightarrow> u32 \<Rightarrow> u32" where
  "sum_words m i 0 acc = acc"
| "sum_words m i (Suc 0) acc = acc + ucast (m i)"
| "sum_words m i (Suc (Suc n)) acc = sum_words m (i + 2) n (acc + ucast (le16 m i))"

lemma fold_sum_decreases:
  assumes "drop_bit 16 acc \<noteq> (0 :: u32)"
  shows "unat ((acc AND 0xFFFF) + drop_bit 16 acc) = unat acc mod 65536 + unat acc div 65536"
    and "unat acc mod 65536 + unat acc div 65536 < unat acc"
proof -
  have a: "unat (acc AND 0xFFFF) = unat acc mod 65536"
  proof -
    have "acc AND 0xFFFF = take_bit 16 acc" by (simp add: take_bit_eq_mask mask_eq_exp_minus_1)
    then show ?thesis by (simp add: take_bit_eq_mod unat_mod)
  qed
  have d: "unat (drop_bit 16 acc) = unat acc div 65536" by (simp add: drop_bit_eq_div unat_div)
  have "unat acc div 65536 < 65536"
    using unat_u32_lt [of acc] by (simp add: less_mult_imp_div_less)
  then show "unat ((acc AND 0xFFFF) + drop_bit 16 acc) = unat acc mod 65536 + unat acc div 65536"
    using a d by (subst unat_add_u32) (simp_all add: add_strict_mono [of _ 65536 _ 65536, THEN order.strict_trans2])
  have "unat acc div 65536 \<noteq> 0" using assms d by (metis unat_eq_0)
  then have "unat acc div 65536 < 65536 * (unat acc div 65536)" by simp
  moreover have "unat acc = 65536 * (unat acc div 65536) + unat acc mod 65536" by simp
  ultimately show "unat acc mod 65536 + unat acc div 65536 < unat acc" by linarith
qed

function fold_sum :: "u32 \<Rightarrow> u32" where
  "fold_sum acc = (if drop_bit 16 acc \<noteq> 0 then fold_sum ((acc AND 0xFFFF) + drop_bit 16 acc) else acc)"
  by pat_completeness auto
termination
  by (relation "measure unat") (use fold_sum_decreases in auto)

declare fold_sum.simps [simp del]

definition calculate_checksum :: "mem \<Rightarrow> nat \<Rightarrow> u16" where
  "calculate_checksum m count = NOT (ucast (fold_sum (sum_words m 0 count 0)))"

section \<open>State\<close>

record net =
  my_ip :: u32
  gateway_ip :: u32
  subnet_mask :: u32
  next_id :: u16
  cache_ip :: u32
  cache_mac :: "u8 list"
  rtl_mac :: "u8 list"
  pcnet_mac :: "u8 list"
  wire :: "u8 list list"
  console :: "u8 list"

definition net0 :: net where
  "net0 = \<lparr>my_ip = 0, gateway_ip = 0, subnet_mask = 0, next_id = 0x1234, cache_ip = 0,
     cache_mac = replicate 6 0xFF, rtl_mac = replicate 6 0, pcnet_mac = replicate 6 0, wire = [], console = []\<rparr>"

definition write_string :: "u8 list \<Rightarrow> 'a net_scheme \<Rightarrow> 'a net_scheme" where
  "write_string str s = s\<lparr>console := console s @ str\<rparr>"

section \<open>Ethernet\<close>

definition get_mac_address :: "'a net_scheme \<Rightarrow> u8 list" where
  "get_mac_address s = (if \<exists>b \<in> set (rtl_mac s). b \<noteq> 0 then rtl_mac s else pcnet_mac s)"

definition ethernet_send :: "u8 list \<Rightarrow> u16 \<Rightarrow> u8 list \<Rightarrow> 'a net_scheme \<Rightarrow> 'a net_scheme" where
  "ethernet_send dest_mac type data s =
     s\<lparr>wire := wire s @ [dest_mac @ get_mac_address s @ le16_bytes (swap_uint16 type) @ data]\<rparr>"

section \<open>ARP\<close>

record arp_message =
  a_opcode :: u16
  a_src_mac :: "u8 list"
  a_src_ip :: u32
  a_dest_mac :: "u8 list"
  a_dest_ip :: u32

definition ARP_SIZE :: u32 where "ARP_SIZE = 28"

definition arp_bytes :: "arp_message \<Rightarrow> u8 list" where
  "arp_bytes a = le16_bytes (swap_uint16 1) @ le16_bytes (swap_uint16 0x0800) @ [6, 4] @
     le16_bytes (a_opcode a) @ a_src_mac a @ le32_bytes (a_src_ip a) @ a_dest_mac a @ le32_bytes (a_dest_ip a)"

definition arp_view :: "mem \<Rightarrow> arp_message" where
  "arp_view m = \<lparr>a_opcode = le16 m 6, a_src_mac = mem_bytes (mem_at m 8) 6, a_src_ip = le32 m 14,
     a_dest_mac = mem_bytes (mem_at m 18) 6, a_dest_ip = le32 m 24\<rparr>"

definition arp_send_reply :: "u8 list \<Rightarrow> u32 \<Rightarrow> 'a net_scheme \<Rightarrow> 'a net_scheme" where
  "arp_send_reply dest_mac dest_ip s =
     ethernet_send dest_mac 0x0806
       (arp_bytes \<lparr>a_opcode = swap_uint16 2, a_src_mac = rtl_mac s, a_src_ip = my_ip s,
          a_dest_mac = dest_mac, a_dest_ip = dest_ip\<rparr>) s"

definition arp_handle_packet :: "mem \<Rightarrow> u32 \<Rightarrow> 'a net_scheme \<Rightarrow> 'a net_scheme" where
  "arp_handle_packet data sz s =
     (if sz < ARP_SIZE then s
      else let msg = arp_view data;
               opcode = swap_uint16 (a_opcode msg);
               s1 = (if a_dest_ip msg = my_ip s
                     then s\<lparr>cache_ip := a_src_ip msg, cache_mac := a_src_mac msg\<rparr> else s)
           in if opcode = 0x0100
              then if a_dest_ip msg = my_ip s1 then arp_send_reply (a_src_mac msg) (a_src_ip msg) s1 else s1
              else s1)"

definition arp_request :: "u32 \<Rightarrow> 'a net_scheme \<Rightarrow> u8 list" where
  "arp_request target_ip s =
     (let req = arp_bytes \<lparr>a_opcode = swap_uint16 1, a_src_mac = get_mac_address s, a_src_ip = my_ip s,
            a_dest_mac = replicate 6 0, a_dest_ip = target_ip\<rparr>
      in req @ replicate (46 - length req) 0)"

definition arp_send_request :: "u32 \<Rightarrow> 'a net_scheme \<Rightarrow> 'a net_scheme" where
  "arp_send_request target_ip s = ethernet_send (replicate 6 0xFF) 0x0806 (arp_request target_ip s) s"

definition arp_resolve :: "u32 \<Rightarrow> 'a net_scheme \<Rightarrow> u8 list \<times> 'a net_scheme" where
  "arp_resolve target_ip s =
     (if target_ip = cache_ip s \<and> cache_ip s \<noteq> 0 then (cache_mac s, s)
      else let s1 = arp_send_request target_ip s in
        if gateway_ip s1 \<noteq> 0 \<and> target_ip \<noteq> gateway_ip s1
        then if gateway_ip s1 = cache_ip s1 then (cache_mac s1, s1)
             else (replicate 6 0xFF, arp_send_request (gateway_ip s1) s1)
        else (replicate 6 0xFF, s1))"

section \<open>IPv4\<close>

record ipv4_header =
  version_ihl :: u8
  tos :: u8
  ip_length :: u16
  ip_id :: u16
  flags_fragment :: u16
  ttl :: u8
  protocol :: u8
  ip_checksum :: u16
  src_ip :: u32
  dest_ip :: u32

definition IPV4_SIZE :: u32 where "IPV4_SIZE = 20"

definition ipv4_bytes :: "ipv4_header \<Rightarrow> u8 list" where
  "ipv4_bytes h = [version_ihl h, tos h] @ le16_bytes (ip_length h) @ le16_bytes (ip_id h) @
     le16_bytes (flags_fragment h) @ [ttl h, protocol h] @ le16_bytes (ip_checksum h) @
     le32_bytes (src_ip h) @ le32_bytes (dest_ip h)"

definition ipv4_view :: "mem \<Rightarrow> ipv4_header" where
  "ipv4_view m = \<lparr>version_ihl = m 0, tos = m 1, ip_length = le16 m 2, ip_id = le16 m 4,
     flags_fragment = le16 m 6, ttl = m 8, protocol = m 9, ip_checksum = le16 m 10,
     src_ip = le32 m 12, dest_ip = le32 m 16\<rparr>"

definition ipv4_header_for :: "u32 \<Rightarrow> u8 \<Rightarrow> nat \<Rightarrow> 'a net_scheme \<Rightarrow> ipv4_header" where
  "ipv4_header_for dest prot sz s =
     (let h = \<lparr>version_ihl = 0x45, tos = 0, ip_length = swap_uint16 (of_nat (20 + sz)),
            ip_id = swap_uint16 (next_id s), flags_fragment = 0, ttl = 64, protocol = prot,
            ip_checksum = 0, src_ip = my_ip s, dest_ip = dest\<rparr>
      in h\<lparr>ip_checksum := calculate_checksum (mem_of (ipv4_bytes h)) 20\<rparr>)"

definition arp_target :: "u32 \<Rightarrow> 'a net_scheme \<Rightarrow> u32" where
  "arp_target dest s =
     (if gateway_ip s \<noteq> 0 \<and> subnet_mask s \<noteq> 0 \<and> dest AND subnet_mask s \<noteq> my_ip s AND subnet_mask s
      then gateway_ip s else dest)"

definition ipv4_send :: "u32 \<Rightarrow> u8 \<Rightarrow> u8 list \<Rightarrow> 'a net_scheme \<Rightarrow> 'a net_scheme" where
  "ipv4_send dest prot data s =
     (let h = ipv4_header_for dest prot (length data) s;
          (dest_mac, s1) = arp_resolve (arp_target dest s) (s\<lparr>next_id := next_id s + 1\<rparr>)
      in ethernet_send dest_mac 0x0800 (ipv4_bytes h @ data) s1)"

section \<open>UDP and ICMP\<close>

definition UDP_SIZE :: u32 where "UDP_SIZE = 8"

definition udp_send :: "u32 \<Rightarrow> u16 \<Rightarrow> u16 \<Rightarrow> u8 list \<Rightarrow> 'a net_scheme \<Rightarrow> 'a net_scheme" where
  "udp_send dest src_port dest_port data s =
     ipv4_send dest 0x11 (le16_bytes (swap_uint16 src_port) @ le16_bytes (swap_uint16 dest_port) @
       le16_bytes (swap_uint16 (of_nat (length data + 8))) @ le16_bytes 0 @ data) s"

definition ICMP_SIZE :: u32 where "ICMP_SIZE = 8"

definition icmp_echo :: "u16 \<Rightarrow> u16 \<Rightarrow> u16 \<Rightarrow> u8 list" where
  "icmp_echo acc ident sequence =
     [8, 0] @ le16_bytes acc @ le16_bytes (swap_uint16 ident) @ le16_bytes (swap_uint16 sequence) @
     map (\<lambda>i. 0x61 + of_nat (i mod 26)) [0..<32]"

definition icmp_send_echo_request :: "u32 \<Rightarrow> u16 \<Rightarrow> u16 \<Rightarrow> 'a net_scheme \<Rightarrow> 'a net_scheme" where
  "icmp_send_echo_request dest ident sequence s =
     ipv4_send dest 1 (icmp_echo (calculate_checksum (mem_of (icmp_echo 0 ident sequence)) 40) ident sequence) s"

definition octet :: "nat \<Rightarrow> u32 \<Rightarrow> u8 list" where
  "octet n ip = itoa (uint (drop_bit (8 * n) ip AND 0xFF)) 10"

definition icmp_handle_packet :: "mem \<Rightarrow> u32 \<Rightarrow> u32 \<Rightarrow> 'a net_scheme \<Rightarrow> 'a net_scheme" where
  "icmp_handle_packet data sz src s =
     (if sz < ICMP_SIZE then s
      else if data 0 = 0
      then write_string (bytes ''Reply from '' @ octet 0 src @ bytes ''.'' @ octet 1 src @ bytes ''.'' @
             octet 2 src @ bytes ''.'' @ octet 3 src @ bytes '': bytes='' @ itoa (sint (sz - ICMP_SIZE)) 10 @
             bytes '' seq='' @ itoa (uint (swap_uint16 (le16 data 6))) 10 @ bytes '' ttl=??'' @ [10]) s
      else s)"

section \<open>DHCP\<close>

definition DHCP_SIZE :: u32 where "DHCP_SIZE = 552"
definition transaction_id :: u32 where "transaction_id = 0x12345678"

definition dhcp_discover_message :: "'a net_scheme \<Rightarrow> u8 list" where
  "dhcp_discover_message s =
     (let msg = [1, 1, 6, 0] @ le32_bytes (swap_uint32 transaction_id) @ replicate 20 0 @
            get_mac_address s @ replicate 10 0 @ replicate 192 0 @ le32_bytes (swap_uint32 0x63825363) @
            [53, 1, 1, 55, 4, 1, 3, 15, 6, 255]
      in msg @ replicate (552 - length msg) 0)"

text \<open>\<open>poll\<close> is one round over both card drivers, which may deliver packets.\<close>

fun dhcp_scan :: "('a net_scheme \<Rightarrow> 'a net_scheme) \<Rightarrow> nat \<Rightarrow> 'a net_scheme \<Rightarrow> 'a net_scheme" where
  "dhcp_scan poll 0 s = s"
| "dhcp_scan poll (Suc n) s = (let s1 = poll s in if my_ip s1 \<noteq> 0 then s1 else dhcp_scan poll n s1)"

definition dhcp_attempt :: "('a net_scheme \<Rightarrow> 'a net_scheme) \<Rightarrow> nat \<Rightarrow> u8 list \<Rightarrow> int \<Rightarrow> 'a net_scheme \<Rightarrow> 'a net_scheme" where
  "dhcp_attempt poll rounds msg attempts s =
     dhcp_scan poll rounds
       (write_string (bytes ''SENT. Scanning...'')
         (udp_send 0xFFFFFFFF 68 67 msg
           (write_string ([10] @ bytes ''[DHCP Attempt '' @ itoa attempts 10 @ bytes ''] Sending Discover... '') s)))"

partial_function (option) dhcp_loop ::
  "('a net_scheme \<Rightarrow> 'a net_scheme) \<Rightarrow> nat \<Rightarrow> u8 list \<Rightarrow> int \<Rightarrow> 'a net_scheme \<Rightarrow> 'a net_scheme option" where
  "dhcp_loop poll rounds msg attempts s =
     (if my_ip s = 0 then dhcp_loop poll rounds msg (attempts + 1) (dhcp_attempt poll rounds msg (attempts + 1) s)
      else Some s)"

definition dhcp_discover :: "('a net_scheme \<Rightarrow> 'a net_scheme) \<Rightarrow> 'a net_scheme \<Rightarrow> 'a net_scheme option" where
  "dhcp_discover poll s =
     map_option (write_string ([10] @ bytes ''Daemon Success! IP Obtained.'' @ [10]))
       (dhcp_loop poll 60000000 (dhcp_discover_message s) 0
         (write_string (bytes ''Starting DHCP Daemon (Press ESC to cancel)...'' @ [10]) s))"

text \<open>The options; \<open>i\<close> is the offset of \<open>ptr\<close> in the message.\<close>

definition dhcp_option :: "mem \<Rightarrow> nat \<Rightarrow> u8 \<Rightarrow> u8 \<Rightarrow> 'a net_scheme \<Rightarrow> 'a net_scheme" where
  "dhcp_option m i opt len s =
     (if opt = 1 \<and> len = 4 then s\<lparr>subnet_mask := le32 m i\<rparr>
      else if opt = 3 \<and> len \<ge> 4 then s\<lparr>gateway_ip := le32 m i\<rparr> else s)"

function dhcp_options :: "mem \<Rightarrow> nat \<Rightarrow> nat \<Rightarrow> 'a net_scheme \<Rightarrow> 'a net_scheme" where
  "dhcp_options m sz i s =
     (if i \<ge> sz then s
      else if m i = 255 then s
      else if m i = 0 then dhcp_options m sz (i + 1) s
      else dhcp_options m sz (i + 2 + unat (m (i + 1))) (dhcp_option m (i + 2) (m i) (m (i + 1)) s))"
  by pat_completeness auto
termination
  by (relation "measure (\<lambda>(m, sz, i, s). sz - i)") auto

declare dhcp_options.simps [simp del]

definition dhcp_handle_packet :: "mem \<Rightarrow> u32 \<Rightarrow> 'a net_scheme \<Rightarrow> 'a net_scheme" where
  "dhcp_handle_packet data sz s =
     (if sz < DHCP_SIZE - 312 then s
      else if memcmp (mem_bytes (mem_at data 28) 6) (get_mac_address s) 6 \<noteq> Some 0 then s
      else if le32 data 16 \<noteq> 0
      then write_string ([10] @ bytes ''[ NETWORK: IP Address Successfully Configured ]'' @ [10])
             (dhcp_options data (unat sz) 240 (s\<lparr>my_ip := le32 data 16\<rparr>))
      else s)"

definition udp_handle_packet :: "u32 \<Rightarrow> mem \<Rightarrow> u32 \<Rightarrow> 'a net_scheme \<Rightarrow> 'a net_scheme" where
  "udp_handle_packet src data sz s =
     (if sz < UDP_SIZE then s
      else if swap_uint16 (le16 data 2) = 68 then dhcp_handle_packet (mem_at data 8) (sz - UDP_SIZE) s
      else s)"

section \<open>The Internet checksum\<close>

text \<open>The loop adds 16-bit words without overflow as long as the packet is short, and folding keeps
  the sum modulo 65535: ones' complement arithmetic.\<close>

fun word_total :: "mem \<Rightarrow> nat \<Rightarrow> nat \<Rightarrow> nat" where
  "word_total m i 0 = 0"
| "word_total m i (Suc 0) = unat (m i)"
| "word_total m i (Suc (Suc n)) = unat (le16 m i) + word_total m (i + 2) n"

lemma unat_ucast_u32 [simp]: "unat (ucast (b :: u8) :: u32) = unat b" "unat (ucast (h :: u16) :: u32) = unat h"
  by (simp_all add: unsigned_ucast_eq take_bit_nat_eq_self order_less_le_trans [OF unat_u8_lt]
      order_less_le_trans [OF unat_u16_lt])

lemma word_total_bound: "word_total m i n \<le> 65536 * n"
proof (induction m i n rule: word_total.induct)
  case (2 m i)
  have "unat (m i) < 256" by (rule unat_u8_lt)
  then have "unat (m i) \<le> 65536" by linarith
  then show ?case by simp
next
  case (3 m i n)
  moreover have "unat (le16 m i) < 65536" by (rule unat_u16_lt)
  ultimately have "unat (le16 m i) + word_total m (i + 2) n \<le> 65536 + 65536 * n" by linarith
  also have "\<dots> \<le> 65536 * Suc (Suc n)" by simp
  finally show ?case by simp
qed simp

lemma unat_sum_words:
  "unat acc + 65536 * n < 4294967296 \<Longrightarrow> unat (sum_words m i n acc) = unat acc + word_total m i n"
proof (induction m i n acc rule: sum_words.induct)
  case (2 m i acc)
  have "unat (acc + ucast (m i)) = unat acc + unat (m i)"
  proof -
    have "unat acc + unat (m i) < 4294967296" using 2 unat_u8_lt [of "m i"] by linarith
    then show ?thesis by (subst unat_add_u32) simp_all
  qed
  then show ?case by simp
next
  case (3 m i n acc)
  have b: "unat acc + 131072 + 65536 * n < 4294967296" using 3(2) by simp
  have "unat (acc + ucast (le16 m i)) = unat acc + unat (le16 m i)"
  proof -
    have "unat acc + unat (le16 m i) < 4294967296" using b unat_u16_lt [of "le16 m i"] by linarith
    then show ?thesis by (subst unat_add_u32) simp_all
  qed
  moreover have "unat acc + unat (le16 m i) + 65536 * n < 4294967296"
    using b unat_u16_lt [of "le16 m i"] by linarith
  ultimately show ?case using 3(1) by simp
qed simp

lemma fold_sum_facts:
  "unat (fold_sum x) < 65536 \<and> unat (fold_sum x) mod 65535 = unat x mod 65535 \<and> (unat (fold_sum x) = 0 \<longleftrightarrow> unat x = 0)"
proof (induction x rule: fold_sum.induct)
  case (1 x)
  have d: "unat (drop_bit 16 x) = unat x div 65536" by (simp add: drop_bit_eq_div unat_div)
  show ?case
  proof (cases "drop_bit 16 x = 0")
    case True
    then have "unat x div 65536 = 0" using d by simp
    then show ?thesis using True by (simp add: fold_sum.simps div_eq_0_iff)
  next
    case False
    let ?y = "(x AND 0xFFFF) + drop_bit 16 x" and ?q = "unat x div 65536" and ?r = "unat x mod 65536"
    note y = fold_sum_decreases [OF False]
    have q: "?q \<noteq> 0" using False d by (metis unat_eq_0)
    have "65536 * ?q + ?r = (?r + ?q) + 65535 * ?q" by simp
    then have "unat x = (?r + ?q) + 65535 * ?q" by (simp only: mult_div_mod_eq)
    then have "unat x mod 65535 = (?r + ?q) mod 65535" by (metis mod_mult_self2)
    moreover have "unat ?y \<noteq> 0" "unat x \<noteq> 0" using y q by auto
    ultimately show ?thesis using 1 [OF False] y(1) False by (simp add: fold_sum.simps [of x])
  qed
qed

fun wsum :: "u8 list \<Rightarrow> nat" where
  "wsum (a # b # xs) = unat a + 256 * unat b + wsum xs"
| "wsum [a] = unat a"
| "wsum [] = 0"

lemma unat_le16: "unat (le16 m i) = unat (m i) + 256 * unat (m (i + 1))"
proof -
  have a: "unat (m i) < 256" and b: "unat (m (i + 1)) < 256" by (rule unat_u8_lt)+
  have "le16 m i = of_nat (unat (m i) + 256 * unat (m (i + 1)))"
  proof -
    have "le16 m i = ucast (m i) + push_bit 8 (ucast (m (i + 1)))" unfolding le16_def
      by (rule disjunctive_add [symmetric]) (auto simp: bit_simps dest: bit_imp_le_length)
    then show ?thesis by (simp add: push_bit_eq_mult mult.commute)
  qed
  moreover have "unat (m i) + 256 * unat (m (i + 1)) < 65536" using a b by linarith
  ultimately show ?thesis by (simp add: unsigned_of_nat take_bit_nat_eq_self del: of_nat_add of_nat_mult)
qed

lemma sum_words_cong: "(\<And>k. i \<le> k \<Longrightarrow> k < i + n \<Longrightarrow> m k = m' k) \<Longrightarrow> sum_words m i n acc = sum_words m' i n acc"
  by (induction m i n acc rule: sum_words.induct) (simp_all add: le16_def)

lemma word_total_wsum:
  "n = length xs \<Longrightarrow> (\<And>k. k < n \<Longrightarrow> m (i + k) = xs ! k) \<Longrightarrow> word_total m i n = wsum xs"
proof (induction xs arbitrary: i n rule: wsum.induct)
  case (1 a b xs)
  have "word_total m (i + 2) (length xs) = wsum xs"
    using 1(1) [of "length xs" "i + 2"] 1(3) [of "k + 2" for k] 1(2) by (simp add: numeral_2_eq_2)
  then show ?case using 1(2) 1(3) [of 0] 1(3) [of 1] by (simp add: unat_le16)
next
  case (2 a)
  then show ?case using 2(2) [of 0] by simp
qed simp

lemma wsum_append: "even (length xs) \<Longrightarrow> wsum (xs @ ys) = wsum xs + wsum ys"
  by (induction xs rule: wsum.induct) auto

lemma wsum_le16_bytes: "wsum (le16_bytes w @ xs) = unat w + wsum xs"
proof -
  have "le16 (mem_of (le16_bytes w)) 0 = w" by (rule le16_of_bytes) (simp_all add: le16_bytes_def)
  then have "unat w = unat (mem_of (le16_bytes w) 0) + 256 * unat (mem_of (le16_bytes w) 1)"
    using unat_le16 [of "mem_of (le16_bytes w)" 0] by simp
  then show ?thesis by (simp add: le16_bytes_def)
qed

lemma unat_not_ucast: "unat x < 65536 \<Longrightarrow> unat (NOT (ucast (x :: u32)) :: u16) = 65535 - unat x"
proof -
  assume x: "unat x < 65536"
  have "unat (ucast x :: u16) = unat x" using x by (simp add: unsigned_ucast_eq take_bit_nat_eq_self)
  moreover have "NOT w = 65535 - w" for w :: u16 by (simp add: not_eq_complement)
  moreover have "unat (65535 - w :: u16) = 65535 - unat w" for w :: u16
  proof -
    have "unat w \<le> 65535" using unat_u16_lt [of w] by linarith
    then show ?thesis by (simp add: unat_sub_if_size word_size)
  qed
  ultimately show ?thesis by simp
qed

lemma unat_checksum:
  assumes "length xs < 65536"
  shows "unat (calculate_checksum (mem_of xs) (length xs)) = 65535 - unat (fold_sum (of_nat (wsum xs)))"
    and "wsum xs < 4294967296"
proof -
  have w: "word_total (mem_of xs) 0 (length xs) = wsum xs" by (rule word_total_wsum) simp_all
  then show b: "wsum xs < 4294967296" using word_total_bound [of "mem_of xs" 0 "length xs"] assms by simp
  have "unat (sum_words (mem_of xs) 0 (length xs) 0) = wsum xs"
    using unat_sum_words [of 0 "length xs" "mem_of xs" 0] assms w by simp
  then have "sum_words (mem_of xs) 0 (length xs) 0 = of_nat (wsum xs)" by (metis of_nat_unat ucast_id)
  then show "unat (calculate_checksum (mem_of xs) (length xs)) = 65535 - unat (fold_sum (of_nat (wsum xs)))"
    using fold_sum_facts by (simp add: calculate_checksum_def unat_not_ucast)
qed

text \<open>A message that carries its own checksum sums to the value a receiver accepts.\<close>

lemma checksum_verifies:
  fixes pre post :: "u8 list"
  assumes even: "even (length pre)" and len: "length pre + 2 + length post < 65536" and nz: "0 < wsum pre"
  defines "n \<equiv> length pre + 2 + length post"
    and "c \<equiv> calculate_checksum (mem_of (pre @ le16_bytes 0 @ post)) (length pre + 2 + length post)"
  shows "calculate_checksum (mem_of (pre @ le16_bytes c @ post)) n = 0"
proof -
  define bs where "bs z = pre @ le16_bytes z @ post" for z
  have l: "length (bs z) = n" "n < 65536" for z using len by (simp_all add: bs_def n_def)
  have ws: "wsum (bs z) = wsum (bs 0) + unat z" for z
    by (simp add: bs_def wsum_append [OF even] wsum_le16_bytes)
  have pos: "0 < wsum (bs z)" for z using nz by (simp add: bs_def wsum_append [OF even])
  define F where "F z = unat (fold_sum (of_nat (wsum (bs z))))" for z
  have F: "F z < 65536 \<and> F z mod 65535 = wsum (bs z) mod 65535 \<and> F z \<noteq> 0" for z
    using fold_sum_facts [of "of_nat (wsum (bs z))"] unat_checksum(2) [of "bs z"] l pos [of z]
    by (simp add: F_def unat_of_nat_u32)
  have ck: "unat (calculate_checksum (mem_of (bs z)) n) = 65535 - F z" for z
    using unat_checksum(1) [of "bs z"] l by (simp add: F_def)
  have "unat c = 65535 - F 0" using ck [of 0] by (simp add: c_def n_def bs_def)
  then have "wsum (bs c) mod 65535 = (wsum (bs 0) + (65535 - F 0)) mod 65535" by (simp add: ws [of c])
  also have "\<dots> = (F 0 + (65535 - F 0)) mod 65535" using F [of 0] by (metis mod_add_left_eq)
  also have "F 0 + (65535 - F 0) = 65535" using F [of 0] by simp
  finally have "F c mod 65535 = 0" using F [of c] by simp
  then obtain q where "F c = 65535 * q" by (auto simp: mod_eq_0_iff_dvd dvd_def)
  moreover have "0 < F c" "F c < 65536" using F [of c] by simp_all
  ultimately have "F c = 65535" by (cases q) auto
  then have "unat (calculate_checksum (mem_of (bs c)) n) = 0" using ck [of c] by simp
  then have "calculate_checksum (mem_of (bs c)) n = 0" by (simp only: unat_eq_0)
  then show ?thesis by (simp add: bs_def)
qed

section \<open>What sending does to the state\<close>

definition frame_for :: "u8 list \<Rightarrow> u32 \<Rightarrow> u8 \<Rightarrow> u8 list \<Rightarrow> 'a net_scheme \<Rightarrow> u8 list" where
  "frame_for mac dest prot data s =
     mac @ get_mac_address s @ [0x08, 0x00] @ ipv4_bytes (ipv4_header_for dest prot (length data) s) @ data"

lemma ethertype_ipv4: "le16_bytes (swap_uint16 0x0800) = [0x08, 0x00]" "le16_bytes (swap_uint16 0x0806) = [0x08, 0x06]"
  by (simp_all add: le16_bytes_def swap_uint16_def)

lemma arp_resolve_wire:
  "\<exists>W. snd (arp_resolve ip s) = s\<lparr>wire := wire s @ W\<rparr> \<and> fst (arp_resolve ip s) \<in> {cache_mac s, replicate 6 0xFF}"
proof -
  have r: "arp_send_request ip s = s\<lparr>wire := wire s @ [replicate 6 0xFF @ get_mac_address s @ [0x08, 0x06] @ arp_request ip s]\<rparr>"
    for ip and s :: "'a net_scheme"
    by (simp add: arp_send_request_def ethernet_send_def ethertype_ipv4)
  have "\<exists>W. s = s\<lparr>wire := wire s @ W\<rparr>" by (rule exI [of _ "[]"]) simp
  then show ?thesis unfolding arp_resolve_def by (auto simp: r Let_def split: if_splits)
qed

lemma ipv4_send_wire:
  "\<exists>W mac. ipv4_send dest prot data s = s\<lparr>next_id := next_id s + 1, wire := wire s @ W @ [frame_for mac dest prot data s]\<rparr> \<and>
     mac \<in> {cache_mac s, replicate 6 0xFF}"
proof -
  let ?s1 = "s\<lparr>next_id := next_id s + 1\<rparr>"
  obtain W where W: "snd (arp_resolve (arp_target dest s) ?s1) = ?s1\<lparr>wire := wire s @ W\<rparr>"
    "fst (arp_resolve (arp_target dest s) ?s1) \<in> {cache_mac s, replicate 6 0xFF}"
    using arp_resolve_wire [of "arp_target dest s" ?s1] by auto
  have "ipv4_send dest prot data s = s\<lparr>next_id := next_id s + 1,
      wire := wire s @ W @ [frame_for (fst (arp_resolve (arp_target dest s) ?s1)) dest prot data s]\<rparr>"
    using W(1) by (simp add: ipv4_send_def Let_def split_beta ethernet_send_def ethertype_ipv4 frame_for_def get_mac_address_def)
  then show ?thesis using W(2) by blast
qed

lemma ipv4_send_more:
  "\<exists>i w. ipv4_send dest prot data s = s\<lparr>next_id := i, wire := w\<rparr>"
  using ipv4_send_wire [of dest prot data s] by blast

section \<open>DHCP options\<close>

text \<open>The options of a message as the protocol lays them out, and what they mean.\<close>

definition encode_options :: "(u8 \<times> u8 list) list \<Rightarrow> u8 list" where
  "encode_options opts = concat (map (\<lambda>(c, v). c # of_nat (length v) # v) opts)"

definition option_ok :: "u8 \<times> u8 list \<Rightarrow> bool" where
  "option_ok opt \<longleftrightarrow> fst opt \<noteq> 0 \<and> fst opt \<noteq> 255 \<and> length (snd opt) < 256"

definition apply_option :: "u8 \<times> u8 list \<Rightarrow> 'a net_scheme \<Rightarrow> 'a net_scheme" where
  "apply_option opt s =
     (if fst opt = 1 \<and> length (snd opt) = 4 then s\<lparr>subnet_mask := le32 (mem_of (snd opt)) 0\<rparr>
      else if fst opt = 3 \<and> 4 \<le> length (snd opt) then s\<lparr>gateway_ip := le32 (mem_of (snd opt)) 0\<rparr> else s)"

lemma unat_of_nat_u8: "n < 256 \<Longrightarrow> unat (of_nat n :: u8) = n"
  by (simp add: unsigned_of_nat take_bit_nat_eq_self)

lemma le32_cong:
  assumes "\<And>k. k < 4 \<Longrightarrow> m (i + k) = m' (j + k)"
  shows "le32 m i = le32 m' j"
  using assms [of 0] assms [of 1] assms [of 2] assms [of 3] by (simp add: le32_def)

lemma dhcp_option_apply:
  assumes "length v < 256" and "\<And>k. k < length v \<Longrightarrow> m (i + k) = v ! k"
  shows "dhcp_option m i c (of_nat (length v)) s = apply_option (c, v) s"
proof -
  have l: "unat (of_nat (length v) :: u8) = length v" using assms(1) by (rule unat_of_nat_u8)
  have le: "4 \<le> length v \<Longrightarrow> le32 m i = le32 (mem_of v) 0"
    by (rule le32_cong) (use assms(2) in simp)
  show ?thesis using l le by (auto simp: dhcp_option_def apply_option_def word_le_nat_alt word_unat_eq_iff)
qed

lemma dhcp_options_encode:
  assumes "\<forall>opt \<in> set opts. option_ok opt"
    and "\<And>j. j < length (encode_options opts) + 1 \<Longrightarrow> m (i + j) = (encode_options opts @ [255]) ! j"
    and "i + length (encode_options opts) < sz"
  shows "dhcp_options m sz i s = fold apply_option opts s"
  using assms
proof (induction opts arbitrary: i s)
  case Nil
  then show ?case by (subst dhcp_options.simps) (simp add: encode_options_def)
next
  case (Cons opt opts)
  obtain c v where o: "opt = (c, v)" by (cases opt)
  have ok: "c \<noteq> 0" "c \<noteq> 255" "length v < 256" using Cons.prems(1) by (simp_all add: o option_ok_def)
  have e: "encode_options (opt # opts) = c # of_nat (length v) # v @ encode_options opts"
    by (simp add: encode_options_def o)
  note m = Cons.prems(2) [unfolded e]
  have l: "unat (of_nat (length v) :: u8) = length v" using ok(3) by (rule unat_of_nat_u8)
  have m0: "m i = c" "m (i + 1) = of_nat (length v)" using m [of 0] m [of 1] by simp_all
  have mv: "m (i + 2 + k) = v ! k" if "k < length v" for k
    using m [of "k + 2"] that by (simp add: nth_append add.commute add.left_commute)
  have mr: "m (i + 2 + length v + j) = (encode_options opts @ [255]) ! j" if "j < length (encode_options opts) + 1" for j
    using m [of "j + length v + 2"] that by (simp add: nth_append add.commute add.left_commute)
  have "dhcp_options m sz i s = dhcp_options m sz (i + 2 + length v) (dhcp_option m (i + 2) c (of_nat (length v)) s)"
    using Cons.prems(3) ok m0 l by (subst dhcp_options.simps) (simp add: e)
  also have "\<dots> = fold apply_option opts (dhcp_option m (i + 2) c (of_nat (length v)) s)"
    using Cons.prems(1,3) mr by (intro Cons.IH) (simp_all add: e)
  also have "dhcp_option m (i + 2) c (of_nat (length v)) s = apply_option opt s"
    unfolding o by (rule dhcp_option_apply [OF ok(3)]) (rule mv)
  finally show ?case by simp
qed

section \<open>Property of ARP\<close>

text \<open>The opcode is compared after one byte swap too many: a request as it travels on the wire, and
  as this code itself sends it, is never answered; the receiver only caches the sender.\<close>

lemma arp_request_unanswered:
  assumes "length (get_mac_address s) = 6" and "my_ip t = target_ip"
  shows "arp_handle_packet (mem_of (arp_request target_ip s)) 46 t =
    t\<lparr>cache_ip := my_ip s, cache_mac := get_mac_address s\<rparr>"
proof -
  let ?r = "arp_request target_ip s"
  let ?mac = "get_mac_address s"
  obtain m0 m1 m2 m3 m4 m5 where mac: "?mac = [m0, m1, m2, m3, m4, m5]"
    using assms(1) by (auto simp: numeral_eq_Suc length_Suc_conv)
  have le: "le32_bytes x = [ucast x, ucast (drop_bit 8 x), ucast (drop_bit 16 x), ucast (drop_bit 24 x)]" for x
    by (simp add: le32_bytes_def)
  have r: "?r = [0, 1, 8, 0, 6, 4, 0, 1] @ ?mac @ le32_bytes (my_ip s) @ replicate 6 0 @ le32_bytes target_ip @ replicate 18 0"
    using mac by (simp add: arp_request_def arp_bytes_def le16_bytes_def swap_uint16_def Let_def)
  have "le16 (mem_of ?r) 6 = 0x0100" by (simp add: r le16_def mem_of_def nth_append)
  then have op: "a_opcode (arp_view (mem_of ?r)) = 0x0100" by (simp add: arp_view_def)
  have ip: "le32 (mem_of ?r) 14 = my_ip s" "le32 (mem_of ?r) 24 = target_ip"
    by (rule le32_of_bytes; simp add: r mac le mem_of_def nth_append)+
  have "mem_bytes (mem_at (mem_of ?r) 8) 6 = ?mac"
    by (simp add: r mac mem_bytes_def mem_of_def upt_rec)
  then have v: "a_src_ip (arp_view (mem_of ?r)) = my_ip s" "a_dest_ip (arp_view (mem_of ?r)) = target_ip"
    "a_src_mac (arp_view (mem_of ?r)) = ?mac"
    using ip by (simp_all add: arp_view_def)
  have "swap_uint16 0x0100 \<noteq> 0x0100" by (simp add: swap_uint16_def)
  then show ?thesis using op v assms(2) by (simp add: arp_handle_packet_def Let_def ARP_SIZE_def)
qed

lemma arp_request_unanswered_example:
  "wire (arp_handle_packet (mem_of (arp_request 7 (net0\<lparr>rtl_mac := [2, 0, 0, 0, 0, 1]\<rparr>))) 46 (net0\<lparr>my_ip := 7\<rparr>)) = []"
proof -
  have "length (get_mac_address (net0\<lparr>rtl_mac := [2, 0, 0, 0, 0, 1]\<rparr>)) = 6" by (simp add: get_mac_address_def)
  from arp_request_unanswered [OF this, of "net0\<lparr>my_ip := 7\<rparr>" 7] show ?thesis by (simp add: net0_def)
qed

end
