(* ===== verification/TCP.thy ===== *)
theory TCP
  imports Net
begin

text \<open>
  \<open>net/tcp.cpp\<close>: the connection list, the segment builder, the state machine of
  \<open>TCP::handle_packet\<close> and the socket calls. Connections are named by their address; the list is
  in the order of the \<open>next\<close> pointers. What \<open>kmalloc\<close> answers is a script, \<open>heap_answers\<close>,
  in which 0 is the null pointer; the receive buffer of a new connection is whatever the heap held,
  here zeros, and the ring invariant shows that no byte is read before it was written. A socket call
  on an address that is no connection is a memory fault, \<open>None\<close>. Port numbers and sequence numbers are
  used as they lie in the header: the code swaps no byte of a segment.
\<close>

section \<open>State\<close>

datatype tcp_state = CLOSED | LISTEN | SYN_SENT | SYN_RECEIVED | ESTABLISHED | FIN_WAIT_1 | FIN_WAIT_2
  | CLOSE_WAIT | CLOSING | LAST_ACK | TIME_WAIT

definition TCP_FIN :: u8 where "TCP_FIN = 0x01"
definition TCP_SYN :: u8 where "TCP_SYN = 0x02"
definition TCP_PSH :: u8 where "TCP_PSH = 0x08"
definition TCP_ACK :: u8 where "TCP_ACK = 0x10"
definition TCP_BUFFER_SIZE :: nat where "TCP_BUFFER_SIZE = 4096"
definition TCP_DEFAULT_WINDOW_SIZE :: u32 where "TCP_DEFAULT_WINDOW_SIZE = 8192"
definition TCP_HEADER :: u32 where "TCP_HEADER = 20"

record ring =
  recv_buffer :: "u8 list"
  recv_start :: nat
  recv_end :: nat
  recv_count :: nat

record tcp_conn =
  cid :: nat
  local_ip :: u32
  remote_ip :: u32
  local_port :: u16
  remote_port :: u16
  tstate :: tcp_state
  seq_number :: u32
  ack_number :: u32
  window_size :: u32
  advertised_window :: u32
  send_window_start :: u32
  send_window_end :: u32
  recv_window_start :: u32
  recv_window_end :: u32
  recv_ring :: ring
  last_ack_time :: u32
  rto :: u32
  retransmit_count :: u8
  syn_timestamp :: u32
  syn_cookie_enabled :: bool

record tcp = net +
  connections :: "tcp_conn list"
  next_ephemeral_port :: u16
  syn_count :: u32
  last_syn_time :: u32
  heap_answers :: "nat list"

definition tcp_initialize :: "'a tcp_scheme \<Rightarrow> 'a tcp_scheme" where
  "tcp_initialize s = s\<lparr>connections := [], next_ephemeral_port := 49152\<rparr>"

definition tcp_kmalloc :: "'a tcp_scheme \<Rightarrow> nat \<times> 'a tcp_scheme" where
  "tcp_kmalloc s = (case heap_answers s of [] \<Rightarrow> (0, s) | a # as \<Rightarrow> (a, s\<lparr>heap_answers := as\<rparr>))"

section \<open>The receive buffer\<close>

definition ring_new :: ring where
  "ring_new = \<lparr>recv_buffer = replicate TCP_BUFFER_SIZE 0, recv_start = 0, recv_end = 0, recv_count = 0\<rparr>"

definition ring_put :: "u8 \<Rightarrow> ring \<Rightarrow> ring" where
  "ring_put b r = r\<lparr>recv_buffer := (recv_buffer r)[recv_end r := b],
     recv_end := (recv_end r + 1) mod TCP_BUFFER_SIZE\<rparr>"

definition ring_write :: "u8 list \<Rightarrow> ring \<Rightarrow> ring" where
  "ring_write bs r =
     (let space_available = TCP_BUFFER_SIZE - recv_count r;
          bytes_to_copy = (if length bs < space_available then length bs else space_available);
          r1 = fold ring_put (take bytes_to_copy bs) r
      in r1\<lparr>recv_count := recv_count r1 + bytes_to_copy\<rparr>)"

fun ring_take :: "nat \<Rightarrow> ring \<Rightarrow> u8 list \<times> ring" where
  "ring_take 0 r = ([], r)"
| "ring_take (Suc n) r =
     (let b = recv_buffer r ! recv_start r;
          (bs, r') = ring_take n (r\<lparr>recv_start := (recv_start r + 1) mod TCP_BUFFER_SIZE\<rparr>)
      in (b # bs, r'))"

definition ring_read :: "nat \<Rightarrow> ring \<Rightarrow> u8 list \<times> ring" where
  "ring_read n r =
     (if recv_count r = 0 then ([], r)
      else let bytes_to_read = (if n < recv_count r then n else recv_count r);
               (bs, r1) = ring_take bytes_to_read r
           in (bs, r1\<lparr>recv_count := recv_count r1 - bytes_to_read\<rparr>))"

section \<open>Segments\<close>

definition tcp_bytes :: "tcp_conn \<Rightarrow> u8 \<Rightarrow> u16 \<Rightarrow> u8 list" where
  "tcp_bytes k flags check =
     le16_bytes (local_port k) @ le16_bytes (remote_port k) @ le32_bytes (seq_number k) @
     le32_bytes (ack_number k) @ [0x50, flags] @ le16_bytes (ucast (advertised_window k)) @
     le16_bytes check @ le16_bytes 0"

definition tcp_checksum :: "mem \<Rightarrow> u32 \<Rightarrow> u32 \<Rightarrow> nat \<Rightarrow> u16" where
  "tcp_checksum header src dest len =
     ucast (NOT (fold_sum (sum_words header 0 len
       (ucast (ucast src :: u16) + ucast (ucast (drop_bit 16 src) :: u16) +
        ucast (ucast dest :: u16) + ucast (ucast (drop_bit 16 dest) :: u16) + 6 + of_nat len))))"

definition segment_data :: "tcp_conn \<Rightarrow> u8 list \<Rightarrow> u8 list" where
  "segment_data k data =
     (if data \<noteq> [] \<and> tstate k = ESTABLISHED
      then take (unat (send_window_end k - send_window_start k)) data else data)"

definition map_conn :: "nat \<Rightarrow> (tcp_conn \<Rightarrow> tcp_conn) \<Rightarrow> 'a tcp_scheme \<Rightarrow> 'a tcp_scheme" where
  "map_conn c f s = s\<lparr>connections := map (\<lambda>k. if cid k = c then f k else k) (connections s)\<rparr>"

definition conn_at :: "'a tcp_scheme \<Rightarrow> nat \<Rightarrow> tcp_conn option" where
  "conn_at s c = find (\<lambda>k. cid k = c) (connections s)"

definition advance :: "u8 \<Rightarrow> nat \<Rightarrow> tcp_conn \<Rightarrow> tcp_conn" where
  "advance flags n k =
     (let k1 = k\<lparr>seq_number := seq_number k + of_nat n + (if flags AND TCP_SYN \<noteq> 0 then 1 else 0) +
            (if flags AND TCP_FIN \<noteq> 0 then 1 else 0)\<rparr>
      in if n > 0 \<and> tstate k = ESTABLISHED then k1\<lparr>send_window_start := send_window_start k1 + of_nat n\<rparr> else k1)"

definition tcp_send_packet :: "tcp_conn \<Rightarrow> u8 \<Rightarrow> u8 list \<Rightarrow> 'a tcp_scheme \<Rightarrow> 'a tcp_scheme" where
  "tcp_send_packet k flags data s =
     (let payload = segment_data k data in
      if data \<noteq> [] \<and> payload = [] then s
      else case tcp_kmalloc s of (p, s1) \<Rightarrow>
        if p = 0 then s1
        else let packet = tcp_bytes k flags 0 @ payload;
                 check = tcp_checksum (mem_of packet) (local_ip k) (remote_ip k) (length packet);
                 s2 = ipv4_send (remote_ip k) 6 (tcp_bytes k flags check @ payload) s1
             in if payload \<noteq> [] \<or> flags AND TCP_SYN \<noteq> 0 \<or> flags AND TCP_FIN \<noteq> 0
                then map_conn (cid k) (advance flags (length payload)) s2 else s2)"

section \<open>The connection list\<close>

definition find_connection :: "u32 \<Rightarrow> u32 \<Rightarrow> u16 \<Rightarrow> u16 \<Rightarrow> 'a tcp_scheme \<Rightarrow> tcp_conn option" where
  "find_connection lip rip lport rport s =
     find (\<lambda>k. local_ip k = lip \<and> remote_ip k = rip \<and> local_port k = lport \<and> remote_port k = rport) (connections s)"

definition new_conn :: "nat \<Rightarrow> u32 \<Rightarrow> u32 \<Rightarrow> u16 \<Rightarrow> u16 \<Rightarrow> tcp_conn" where
  "new_conn a lip rip lport rport =
     \<lparr>cid = a, local_ip = lip, remote_ip = rip, local_port = lport, remote_port = rport, tstate = CLOSED,
      seq_number = 0x12345678, ack_number = 0, window_size = TCP_DEFAULT_WINDOW_SIZE,
      advertised_window = TCP_DEFAULT_WINDOW_SIZE, send_window_start = 0x12345678,
      send_window_end = 0x12345678 + TCP_DEFAULT_WINDOW_SIZE, recv_window_start = 0,
      recv_window_end = TCP_DEFAULT_WINDOW_SIZE, recv_ring = ring_new, last_ack_time = 0, rto = 1000,
      retransmit_count = 0, syn_timestamp = 0, syn_cookie_enabled = True\<rparr>"

definition create_connection ::
  "u32 \<Rightarrow> u32 \<Rightarrow> u16 \<Rightarrow> u16 \<Rightarrow> 'a tcp_scheme \<Rightarrow> nat option \<times> 'a tcp_scheme" where
  "create_connection lip rip lport rport s =
     (case tcp_kmalloc s of (a, s1) \<Rightarrow>
        if a = 0 then (None, s1)
        else (Some a, s1\<lparr>connections := new_conn a lip rip lport rport # connections s1\<rparr>))"

definition remove_connection :: "nat \<Rightarrow> 'a tcp_scheme \<Rightarrow> 'a tcp_scheme" where
  "remove_connection c s = s\<lparr>connections := filter (\<lambda>k. cid k \<noteq> c) (connections s)\<rparr>"

definition set_state :: "nat \<Rightarrow> tcp_state \<Rightarrow> 'a tcp_scheme \<Rightarrow> 'a tcp_scheme" where
  "set_state c st s = map_conn c (\<lambda>k. k\<lparr>tstate := st\<rparr>) s"

definition send_on :: "nat \<Rightarrow> u8 \<Rightarrow> u8 list \<Rightarrow> 'a tcp_scheme \<Rightarrow> 'a tcp_scheme" where
  "send_on c flags data s = (case conn_at s c of None \<Rightarrow> s | Some k \<Rightarrow> tcp_send_packet k flags data s)"

section \<open>Receiving\<close>

record segment =
  s_src_port :: u16
  s_dest_port :: u16
  s_seq :: u32
  s_flags :: u8
  s_size :: u32
  s_payload :: mem

definition segment_view :: "mem \<Rightarrow> u32 \<Rightarrow> segment" where
  "segment_view m sz =
     (let data_offset = ucast (drop_bit 4 (m 12)) * 4 :: u32
      in \<lparr>s_src_port = le16 m 0, s_dest_port = le16 m 2, s_seq = le32 m 4, s_flags = m 13,
          s_size = sz - data_offset, s_payload = mem_at m (unat data_offset)\<rparr>)"

definition has :: "segment \<Rightarrow> u8 \<Rightarrow> bool" where
  "has h flag \<longleftrightarrow> s_flags h AND flag \<noteq> 0"

text \<open>The lookup, and the connection made on demand for an unmatched SYN; \<open>current_time\<close> is 0.\<close>

definition connection_for :: "u32 \<Rightarrow> segment \<Rightarrow> 'a tcp_scheme \<Rightarrow> nat option \<times> 'a tcp_scheme" where
  "connection_for src h s =
     (case find_connection (my_ip s) src (s_dest_port h) (s_src_port h) s of
        Some k \<Rightarrow> (Some (cid k), s)
      | None \<Rightarrow>
          if has h TCP_SYN
          then let s1 = (if 0 - last_syn_time s < 1000 then s\<lparr>syn_count := syn_count s + 1\<rparr>
                         else s\<lparr>syn_count := 1, last_syn_time := 0\<rparr>)
               in if 0 - last_syn_time s < 1000 \<and> syn_count s1 > 10 then (None, s1)
                  else case create_connection (my_ip s1) src (s_dest_port h) (s_src_port h) s1 of
                         (None, s2) \<Rightarrow> (None, s2)
                       | (Some c, s2) \<Rightarrow> (Some c, map_conn c (\<lambda>k. k\<lparr>tstate := LISTEN, syn_timestamp := 0\<rparr>) s2)
          else (None, s))"

definition acked :: "segment \<Rightarrow> tcp_conn \<Rightarrow> tcp_conn" where
  "acked h k = k\<lparr>ack_number := s_seq h + s_size h + (if has h TCP_SYN then 1 else 0) +
     (if has h TCP_FIN then 1 else 0)\<rparr>"

text \<open>At most a buffer's worth of the payload is copied, however large its size claims to be.\<close>

definition receive_data :: "segment \<Rightarrow> tcp_conn \<Rightarrow> tcp_conn" where
  "receive_data h k =
     k\<lparr>recv_ring := ring_write (mem_bytes (s_payload h) (min (unat (s_size h)) TCP_BUFFER_SIZE)) (recv_ring k)\<rparr>"

definition react :: "nat \<Rightarrow> tcp_state \<Rightarrow> segment \<Rightarrow> 'a tcp_scheme \<Rightarrow> 'a tcp_scheme" where
  "react c st h s =
     (case st of
        LISTEN \<Rightarrow> if has h TCP_SYN then send_on c (TCP_SYN OR TCP_ACK) [] (set_state c SYN_RECEIVED s) else s
      | SYN_SENT \<Rightarrow> if has h TCP_SYN \<and> has h TCP_ACK then send_on c TCP_ACK [] (set_state c ESTABLISHED s) else s
      | SYN_RECEIVED \<Rightarrow> if has h TCP_ACK then set_state c ESTABLISHED s else s
      | ESTABLISHED \<Rightarrow>
          if has h TCP_FIN
          then send_on c (TCP_FIN OR TCP_ACK) [] (set_state c LAST_ACK (send_on c TCP_ACK [] (set_state c CLOSE_WAIT s)))
          else if s_size h > 0 then send_on c TCP_ACK [] (map_conn c (receive_data h) s)
          else s
      | FIN_WAIT_1 \<Rightarrow> if has h TCP_ACK then set_state c FIN_WAIT_2 s else s
      | FIN_WAIT_2 \<Rightarrow> if has h TCP_FIN then send_on c TCP_ACK [] (set_state c TIME_WAIT s) else s
      | LAST_ACK \<Rightarrow> if has h TCP_ACK then remove_connection c s else s
      | TIME_WAIT \<Rightarrow> remove_connection c s
      | _ \<Rightarrow> s)"

definition tcp_handle_packet :: "u32 \<Rightarrow> mem \<Rightarrow> u32 \<Rightarrow> 'a tcp_scheme \<Rightarrow> 'a tcp_scheme" where
  "tcp_handle_packet src m sz s =
     (if sz < TCP_HEADER then s
      else let h = segment_view m sz in
        case connection_for src h s of
          (None, s1) \<Rightarrow> s1
        | (Some c, s1) \<Rightarrow>
            (case conn_at s1 c of
               None \<Rightarrow> s1
             | Some k \<Rightarrow> react c (tstate k) h (map_conn c (acked h) s1)))"

section \<open>Socket calls\<close>

text \<open>A descriptor is the connection's address; -1 is \<open>Inl ()\<close>.\<close>

definition tcp_listen :: "u16 \<Rightarrow> 'a tcp_scheme \<Rightarrow> (unit + nat) \<times> 'a tcp_scheme" where
  "tcp_listen port s =
     (case create_connection (my_ip s) 0 port 0 s of
        (None, s1) \<Rightarrow> (Inl (), s1)
      | (Some c, s1) \<Rightarrow> (Inr c, set_state c LISTEN s1))"

definition tcp_accept :: "nat \<Rightarrow> 'a tcp_scheme \<Rightarrow> (unit + nat \<times> u32 \<times> u16) option" where
  "tcp_accept fd s =
     (if fd = 0 then Some (Inl ())
      else case conn_at s fd of None \<Rightarrow> None
        | Some k \<Rightarrow> Some (if tstate k \<noteq> ESTABLISHED then Inl () else Inr (fd, remote_ip k, remote_port k)))"

definition tcp_recv :: "nat \<Rightarrow> nat \<Rightarrow> 'a tcp_scheme \<Rightarrow> ((unit + u8 list) \<times> 'a tcp_scheme) option" where
  "tcp_recv fd n s =
     (if fd = 0 then Some (Inl (), s)
      else case conn_at s fd of None \<Rightarrow> None
        | Some k \<Rightarrow>
            if tstate k \<noteq> ESTABLISHED then Some (Inl (), s)
            else case ring_read n (recv_ring k) of
                   (bs, r) \<Rightarrow> Some (Inr bs, map_conn fd (\<lambda>k. k\<lparr>recv_ring := r\<rparr>) s))"

definition tcp_send :: "nat \<Rightarrow> u8 list \<Rightarrow> 'a tcp_scheme \<Rightarrow> ((unit + nat) \<times> 'a tcp_scheme) option" where
  "tcp_send fd data s =
     (if fd = 0 then Some (Inl (), s)
      else case conn_at s fd of None \<Rightarrow> None
        | Some k \<Rightarrow>
            if tstate k \<noteq> ESTABLISHED then Some (Inl (), s)
            else Some (Inr (length data), tcp_send_packet k (TCP_ACK OR TCP_PSH) data s))"

definition tcp_close :: "nat \<Rightarrow> 'a tcp_scheme \<Rightarrow> 'a tcp_scheme option" where
  "tcp_close fd s =
     (if fd = 0 then Some s
      else case conn_at s fd of None \<Rightarrow> None
        | Some k \<Rightarrow>
            if tstate k = ESTABLISHED then Some (send_on fd (TCP_FIN OR TCP_ACK) [] (set_state fd FIN_WAIT_1 s))
            else Some (remove_connection fd s))"

definition tcp_connect :: "u32 \<Rightarrow> u16 \<Rightarrow> 'a tcp_scheme \<Rightarrow> (unit + nat) \<times> 'a tcp_scheme" where
  "tcp_connect dest dest_port s =
     (let lport = next_ephemeral_port s; s0 = s\<lparr>next_ephemeral_port := next_ephemeral_port s + 1\<rparr> in
      case create_connection (my_ip s0) dest lport dest_port s0 of
        (None, s1) \<Rightarrow> (Inl (), s1)
      | (Some c, s1) \<Rightarrow> (Inr c, set_state c ESTABLISHED (send_on c TCP_SYN [] (set_state c SYN_SENT s1))))"

section \<open>The receive buffer is a bounded byte queue\<close>

datatype qop = Put "u8 list" | Get nat

text \<open>Runs puts and gets, collecting what the gets returned.\<close>

fun run_queue :: "(u8 list \<Rightarrow> 'q \<Rightarrow> 'q) \<Rightarrow> (nat \<Rightarrow> 'q \<Rightarrow> u8 list \<times> 'q) \<Rightarrow> qop list \<Rightarrow> 'q \<Rightarrow> u8 list \<times> 'q" where
  "run_queue put get [] q = ([], q)"
| "run_queue put get (Put bs # ops) q = run_queue put get ops (put bs q)"
| "run_queue put get (Get n # ops) q =
     (let (xs, q1) = get n q; (ys, q2) = run_queue put get ops q1 in (xs @ ys, q2))"

text \<open>The reference queue is a list cut off at its capacity.\<close>

definition list_put :: "nat \<Rightarrow> u8 list \<Rightarrow> u8 list \<Rightarrow> u8 list" where
  "list_put cap bs q = q @ take (cap - length q) bs"

definition list_get :: "nat \<Rightarrow> u8 list \<Rightarrow> u8 list \<times> u8 list" where
  "list_get n q = (take n q, drop n q)"

locale bounded_queue =
  fixes put :: "u8 list \<Rightarrow> 'q \<Rightarrow> 'q" and get :: "nat \<Rightarrow> 'q \<Rightarrow> u8 list \<times> 'q"
    and ok :: "'q \<Rightarrow> bool" and contents :: "'q \<Rightarrow> u8 list" and cap :: nat
  assumes put_contents: "ok q \<Longrightarrow> ok (put bs q) \<and> contents (put bs q) = list_put cap bs (contents q)"
    and get_contents: "ok q \<Longrightarrow> ok (snd (get n q)) \<and> (fst (get n q), contents (snd (get n q))) = list_get n (contents q)"
begin

lemma refines_list:
  "ok q \<Longrightarrow> ok (snd (run_queue put get ops q)) \<and>
    (fst (run_queue put get ops q), contents (snd (run_queue put get ops q)))
      = run_queue (list_put cap) list_get ops (contents q)"
proof (induction ops arbitrary: q)
  case (Cons a ops)
  show ?case
  proof (cases a)
    case (Put bs)
    then show ?thesis using Cons.IH [of "put bs q"] put_contents [OF Cons.prems] by simp
  next
    case (Get n)
    obtain xs q1 where g: "get n q = (xs, q1)" by fastforce
    obtain ys q2 where r: "run_queue put get ops q1 = (ys, q2)" by fastforce
    have "ok q1" "list_get n (contents q) = (xs, contents q1)" using get_contents [OF Cons.prems, of n] g by simp_all
    then show ?thesis using Cons.IH [of q1] Get g r by (auto split: prod.splits)
  qed
qed simp

end

definition ring_ok :: "ring \<Rightarrow> bool" where
  "ring_ok r \<longleftrightarrow> length (recv_buffer r) = TCP_BUFFER_SIZE \<and> recv_start r < TCP_BUFFER_SIZE \<and>
     recv_count r \<le> TCP_BUFFER_SIZE \<and> recv_end r = (recv_start r + recv_count r) mod TCP_BUFFER_SIZE"

definition ring_queue :: "ring \<Rightarrow> u8 list" where
  "ring_queue r = map (\<lambda>i. recv_buffer r ! ((recv_start r + i) mod TCP_BUFFER_SIZE)) [0..<recv_count r]"

lemma length_ring_queue [simp]: "length (ring_queue r) = recv_count r"
  by (simp add: ring_queue_def)

definition ring_put1 :: "u8 \<Rightarrow> ring \<Rightarrow> ring" where
  "ring_put1 b r = (ring_put b r)\<lparr>recv_count := recv_count r + 1\<rparr>"

lemma fold_put1:
  "(fold ring_put bs r)\<lparr>recv_count := recv_count r + length bs\<rparr> = fold ring_put1 bs r \<and>
   recv_count (fold ring_put bs r) = recv_count r"
proof (induction bs arbitrary: r)
  case (Cons b bs)
  have "ring_put b (r'\<lparr>recv_count := c\<rparr>) = (ring_put b r')\<lparr>recv_count := c\<rparr>" for r' c b
    by (simp add: ring_put_def)
  then have put: "fold ring_put bs (r'\<lparr>recv_count := c\<rparr>) = (fold ring_put bs r')\<lparr>recv_count := c\<rparr>" for r' c
    by (induction bs arbitrary: r') simp_all
  have "recv_count (ring_put b r) = recv_count r" by (simp add: ring_put_def)
  then show ?case
    using Cons.IH [of "ring_put b r"] Cons.IH [of "ring_put1 b r"] put [where r' = "ring_put b r" and c = "recv_count r + 1"]
    by (simp add: ring_put1_def)
qed simp

lemma mod_add_inj: "a < n \<Longrightarrow> i < n \<Longrightarrow> j < n \<Longrightarrow> (a + i) mod n = (a + j) mod n \<longleftrightarrow> i = (j :: nat)"
proof
  assume h: "a < n" "i < n" "j < n" "(a + i) mod n = (a + j) mod n"
  have "(a + k) mod n = (if a + k < n then a + k else a + k - n)" if "k < n" for k
    using h(1) that by (simp add: mod_if)
  then show "i = j" using h by (auto split: if_splits)
qed simp

lemma ring_put1_queue:
  assumes "ring_ok r" and "recv_count r < TCP_BUFFER_SIZE"
  shows "ring_ok (ring_put1 b r) \<and> ring_queue (ring_put1 b r) = ring_queue r @ [b]"
proof
  have p: "recv_end r < length (recv_buffer r)" using assms by (simp add: ring_ok_def TCP_BUFFER_SIZE_def)
  show "ring_ok (ring_put1 b r)"
    using assms by (simp add: ring_ok_def ring_put1_def ring_put_def mod_Suc_eq)
  have "recv_end r \<noteq> (recv_start r + i) mod TCP_BUFFER_SIZE" if "i < recv_count r" for i
    using mod_add_inj [of "recv_start r" TCP_BUFFER_SIZE i "recv_count r"] that assms by (simp add: ring_ok_def)
  then show "ring_queue (ring_put1 b r) = ring_queue r @ [b]"
    using assms p by (simp add: ring_queue_def ring_put1_def ring_put_def) (simp add: ring_ok_def)
qed

lemma ring_write_queue:
  assumes "ring_ok r"
  shows "ring_ok (ring_write bs r) \<and> ring_queue (ring_write bs r) = list_put TCP_BUFFER_SIZE bs (ring_queue r)"
proof -
  have f: "recv_count r + length xs \<le> TCP_BUFFER_SIZE \<Longrightarrow> ring_ok (fold ring_put1 xs r) \<and>
      ring_queue (fold ring_put1 xs r) = ring_queue r @ xs" for xs
    using assms
  proof (induction xs arbitrary: r)
    case (Cons b xs)
    then have "recv_count r < TCP_BUFFER_SIZE" by simp
    note one = ring_put1_queue [OF Cons.prems(2) this, of b]
    moreover have "recv_count (ring_put1 b r) = recv_count r + 1" by (simp add: ring_put1_def)
    ultimately show ?case using Cons.IH [of "ring_put1 b r"] Cons.prems by simp
  qed simp
  define n where "n = (if length bs < TCP_BUFFER_SIZE - recv_count r then length bs else TCP_BUFFER_SIZE - recv_count r)"
  have n: "n \<le> length bs" "recv_count r + n \<le> TCP_BUFFER_SIZE" "take n bs = take (TCP_BUFFER_SIZE - recv_count r) bs"
    using assms by (auto simp: n_def ring_ok_def)
  have "ring_write bs r = fold ring_put1 (take n bs) r"
    using fold_put1 [of r "take n bs"] n(1) by (simp add: ring_write_def Let_def n_def [symmetric] min_absorb2)
  then show ?thesis using f [of "take n bs"] n by (simp add: list_put_def min_absorb2)
qed

lemma ring_ok_skip:
  assumes "ring_ok r" and "m \<le> recv_count r"
  shows "ring_ok (r\<lparr>recv_start := (recv_start r + m) mod TCP_BUFFER_SIZE, recv_count := recv_count r - m\<rparr>)"
proof -
  have "((recv_start r + m) mod TCP_BUFFER_SIZE + (recv_count r - m)) mod TCP_BUFFER_SIZE =
      (recv_start r + m + (recv_count r - m)) mod TCP_BUFFER_SIZE"
    by (rule mod_add_left_eq)
  moreover have "recv_count r - m \<le> TCP_BUFFER_SIZE" "0 < TCP_BUFFER_SIZE"
    using assms by (auto simp: ring_ok_def TCP_BUFFER_SIZE_def)
  ultimately show ?thesis using assms by (simp add: ring_ok_def)
qed

lemma ring_take_queue:
  assumes "ring_ok r" and "n \<le> recv_count r"
  shows "fst (ring_take n r) = take n (ring_queue r) \<and>
    snd (ring_take n r) = r\<lparr>recv_start := (recv_start r + n) mod TCP_BUFFER_SIZE\<rparr>"
  using assms
proof (induction n arbitrary: r)
  case 0
  then show ?case by (simp add: ring_ok_def)
next
  case (Suc n)
  define r' where "r' = r\<lparr>recv_start := (recv_start r + 1) mod TCP_BUFFER_SIZE, recv_count := recv_count r - 1\<rparr>"
  have swap: "r\<lparr>recv_count := c, recv_start := x\<rparr> = r\<lparr>recv_start := x, recv_count := c\<rparr>" for r :: ring and c x
    by simp
  have cnt: "ring_take n (r\<lparr>recv_count := c\<rparr>) = (fst (ring_take n r), (snd (ring_take n r))\<lparr>recv_count := c\<rparr>)" for n r c
    by (induction n arbitrary: r) (simp_all add: split_beta Let_def swap)
  have pos: "0 < recv_count r" "n \<le> recv_count r'" using Suc.prems by (simp_all add: r'_def)
  have ok': "ring_ok r'"
    using ring_ok_skip [OF Suc.prems(1), of 1] pos(1) by (simp add: r'_def)
  have q: "ring_queue r = recv_buffer r ! recv_start r # ring_queue r'"
  proof -
    have "[0..<recv_count r] = 0 # map Suc [0..<recv_count r - 1]"
      using pos(1) by (metis Suc_diff_1 map_Suc_upt upt_conv_Cons)
    then show ?thesis using Suc.prems(1)
      by (simp add: ring_queue_def r'_def ring_ok_def comp_def mod_add_left_eq)
  qed
  have "ring_take n (r\<lparr>recv_start := (recv_start r + 1) mod TCP_BUFFER_SIZE\<rparr>) =
      (fst (ring_take n r'), (snd (ring_take n r'))\<lparr>recv_count := recv_count r\<rparr>)"
    using cnt [where n = n and r = r' and c = "recv_count r"] by (simp add: r'_def)
  then show ?case using Suc.IH [OF ok' pos(2)] q
    by (simp add: r'_def mod_add_left_eq mod_add_right_eq add.commute add.left_commute)
qed

lemma ring_read_queue:
  assumes "ring_ok r"
  shows "ring_ok (snd (ring_read n r)) \<and>
    (fst (ring_read n r), ring_queue (snd (ring_read n r))) = list_get n (ring_queue r)"
proof (cases "recv_count r = 0")
  case True
  then have "ring_queue r = []" by (simp add: ring_queue_def)
  then show ?thesis using assms True by (simp add: ring_read_def list_get_def)
next
  case False
  define m where "m = (if n < recv_count r then n else recv_count r)"
  have m: "m \<le> recv_count r" "take m (ring_queue r) = take n (ring_queue r)" "drop m (ring_queue r) = drop n (ring_queue r)"
    by (auto simp: m_def)
  define r' where "r' = r\<lparr>recv_start := (recv_start r + m) mod TCP_BUFFER_SIZE, recv_count := recv_count r - m\<rparr>"
  have rd: "ring_read n r = (take m (ring_queue r), r')"
    using False ring_take_queue [OF assms m(1)]
    by (simp add: ring_read_def m_def [symmetric] r'_def split_beta)
  have ok: "ring_ok r'" unfolding r'_def by (rule ring_ok_skip [OF assms m(1)])
  have "ring_queue r' = drop m (ring_queue r)"
  proof (rule nth_equalityI)
    fix i assume "i < length (ring_queue r')"
    then have "i < recv_count r - m" "m + i < recv_count r" by (simp_all add: r'_def)
    then show "ring_queue r' ! i = drop m (ring_queue r) ! i"
      by (simp add: r'_def ring_queue_def mod_add_left_eq add.assoc)
  qed (simp add: r'_def)
  then show ?thesis using rd ok m by (simp add: list_get_def)
qed

interpretation rq: bounded_queue ring_write ring_read ring_ok ring_queue TCP_BUFFER_SIZE
  by unfold_locales (use ring_write_queue ring_read_queue in auto)

section \<open>The connection table\<close>

definition conn_ok :: "tcp_conn \<Rightarrow> bool" where
  "conn_ok k \<longleftrightarrow> ring_ok (recv_ring k) \<and> unat (send_window_end k - send_window_start k) \<le> 8192"

text \<open>The heap never hands out the address of a live connection, nor one address twice.\<close>

definition tcp_ok :: "'a tcp_scheme \<Rightarrow> bool" where
  "tcp_ok s \<longleftrightarrow> distinct (map cid (connections s)) \<and> distinct (filter (\<lambda>a. a \<noteq> 0) (heap_answers s)) \<and>
     (\<forall>k \<in> set (connections s). conn_ok k \<and> cid k \<noteq> 0 \<and> cid k \<notin> set (heap_answers s))"

lemma tcp_ok_ipv4_send [simp]: "tcp_ok (ipv4_send d p data s) = tcp_ok s"
  using ipv4_send_more [of d p data s] by (auto simp: tcp_ok_def)

lemma connections_ipv4_send [simp]:
  "connections (ipv4_send d p data s) = connections s" "heap_answers (ipv4_send d p data s) = heap_answers s"
  "my_ip (ipv4_send d p data s) = my_ip s" "syn_count (ipv4_send d p data s) = syn_count s"
  "last_syn_time (ipv4_send d p data s) = last_syn_time s"
  using ipv4_send_more [of d p data s] by auto

lemma map_conn_ok [inv_intros]:
  assumes "tcp_ok s" and "\<And>k. k \<in> set (connections s) \<Longrightarrow> cid k = c \<Longrightarrow> conn_ok k \<Longrightarrow> conn_ok (f k)"
    and "\<And>k. cid (f k) = cid k"
  shows "tcp_ok (map_conn c f s)"
proof -
  have "map cid (connections (map_conn c f s)) = map cid (connections s)"
    using assms(3) by (simp add: map_conn_def)
  moreover have "heap_answers (map_conn c f s) = heap_answers s" by (simp add: map_conn_def)
  ultimately show ?thesis using assms by (auto simp: tcp_ok_def) (auto simp: map_conn_def)
qed

lemma set_state_ok [inv_intros]: "tcp_ok s \<Longrightarrow> tcp_ok (set_state c st s)"
  unfolding set_state_def by (rule map_conn_ok) (simp_all add: conn_ok_def)

lemma kmalloc_ok:
  assumes "tcp_ok s" and "tcp_kmalloc s = (a, s1)"
  shows "tcp_ok s1 \<and> connections s1 = connections s \<and> my_ip s1 = my_ip s \<and> syn_count s1 = syn_count s \<and>
    last_syn_time s1 = last_syn_time s \<and>
    (a \<noteq> 0 \<longrightarrow> a \<notin> cid ` set (connections s) \<and> a \<notin> set (heap_answers s1))"
  using assms by (cases "heap_answers s") (auto simp: tcp_kmalloc_def tcp_ok_def split: if_splits)

lemma advance_ok:
  assumes "conn_ok k" and "tstate k = ESTABLISHED \<Longrightarrow> n \<le> unat (send_window_end k - send_window_start k)"
  shows "conn_ok (advance flags n k)"
proof (cases "n > 0 \<and> tstate k = ESTABLISHED")
  case True
  let ?w = "send_window_end k - send_window_start k"
  have n: "n \<le> unat ?w" "unat ?w \<le> 8192" using assms True by (simp_all add: conn_ok_def)
  then have u: "unat (of_nat n :: u32) = n" by (intro unat_of_nat_u32) simp
  have "of_nat n \<le> ?w" using n u by (simp add: word_le_nat_alt)
  then have "unat (?w - of_nat n) = unat ?w - n" using u by (simp add: unat_sub_u32)
  then have "unat (?w - of_nat n) \<le> 8192" using n by simp
  then have "unat (send_window_end k - (send_window_start k + of_nat n)) \<le> 8192" by (simp only: diff_diff_eq)
  then show ?thesis using assms True by (simp add: conn_ok_def advance_def Let_def)
qed (use assms in \<open>auto simp: conn_ok_def advance_def Let_def\<close>)

lemma segment_data_window:
  "data \<noteq> [] \<Longrightarrow> tstate k = ESTABLISHED \<Longrightarrow> length (segment_data k data) \<le> unat (send_window_end k - send_window_start k)"
  by (simp add: segment_data_def)

lemma segment_data_Nil [simp]: "segment_data k [] = []"
  by (simp add: segment_data_def)

lemma cid_advance [simp]: "cid (advance fl n k) = cid k"
  by (simp add: advance_def Let_def)

lemma distinct_cid:
  "tcp_ok s \<Longrightarrow> k \<in> set (connections s) \<Longrightarrow> k' \<in> set (connections s) \<Longrightarrow> cid k = cid k' \<Longrightarrow> k = k'"
  by (auto simp: tcp_ok_def dest: distinct_map [THEN iffD1] inj_onD)

lemma send_packet_ok [inv_intros]:
  assumes ok: "tcp_ok s" and k: "k \<in> set (connections s)"
  shows "tcp_ok (tcp_send_packet k fl data s)"
proof -
  obtain p s1 where p: "tcp_kmalloc s = (p, s1)" by fastforce
  note s1 = kmalloc_ok [OF ok p]
  have w: "tstate k = ESTABLISHED \<Longrightarrow> length (segment_data k data) \<le> unat (send_window_end k - send_window_start k)"
    using segment_data_window [of data k] by (cases "data = []") simp_all
  have adv: "tcp_ok (map_conn (cid k) (advance fl n) (ipv4_send d pr x s1))"
    if n: "n = length (segment_data k data)" for n d pr x
  proof (rule map_conn_ok)
    fix k' assume "k' \<in> set (connections (ipv4_send d pr x s1))" "cid k' = cid k" "conn_ok k'"
    then show "conn_ok (advance fl n k')"
      using distinct_cid [OF ok _ k, of k'] s1 w n by (auto intro!: advance_ok)
  qed (use s1 in simp_all)
  show ?thesis unfolding tcp_send_packet_def Let_def p prod.case
    using s1 ok by (auto intro: adv)
qed

lemma conn_at_mem: "conn_at s c = Some k \<Longrightarrow> k \<in> set (connections s) \<and> cid k = c"
  by (auto simp: conn_at_def find_Some_iff in_set_conv_nth)

lemma send_on_ok [inv_intros]: "tcp_ok s \<Longrightarrow> tcp_ok (send_on c fl data s)"
  by (auto simp: send_on_def split: option.split intro: send_packet_ok dest: conn_at_mem)

lemma remove_ok [inv_intros]: "tcp_ok s \<Longrightarrow> tcp_ok (remove_connection c s)"
  by (auto simp: tcp_ok_def remove_connection_def distinct_map_filter)

lemma ring_new_ok [simp]: "ring_ok ring_new"
  by (simp add: ring_ok_def ring_new_def TCP_BUFFER_SIZE_def)

lemma create_ok [inv_intros]: "tcp_ok s \<Longrightarrow> tcp_ok (snd (create_connection a b c d s))"
proof -
  assume ok: "tcp_ok s"
  obtain p s1 where p: "tcp_kmalloc s = (p, s1)" by fastforce
  note s1 = kmalloc_ok [OF ok p]
  have "conn_ok (new_conn p a b c d)" by (simp add: conn_ok_def new_conn_def TCP_DEFAULT_WINDOW_SIZE_def)
  moreover have "cid (new_conn p a b c d) = p" by (simp add: new_conn_def)
  ultimately show ?thesis using p s1 by (auto simp: create_connection_def tcp_ok_def)
qed

lemma connection_for_ok [inv_intros]: "tcp_ok s \<Longrightarrow> tcp_ok (snd (connection_for src h s))"
proof -
  assume ok: "tcp_ok s"
  have syn: "tcp_ok (s\<lparr>syn_count := n\<rparr>)" "tcp_ok (s\<lparr>syn_count := n, last_syn_time := m\<rparr>)" for n m
    using ok by (simp_all add: tcp_ok_def)
  have create: "tcp_ok s2 \<and> tcp_ok (map_conn c' (\<lambda>k. k\<lparr>tstate := LISTEN, syn_timestamp := 0\<rparr>) s2)"
    if "create_connection a b c d s1 = (x, s2)" "tcp_ok s1" for a b c d x c' and s1 s2 :: "'a tcp_scheme"
    using create_ok [OF that(2), of a b c d] that(1) by (auto intro!: map_conn_ok simp: conn_ok_def)
  show ?thesis
    using ok syn by (auto simp: connection_for_def Let_def split: option.split prod.split dest: create)
qed

lemma receive_ok: "conn_ok k \<Longrightarrow> conn_ok (receive_data h k)"
  using ring_write_queue by (simp add: conn_ok_def receive_data_def)

lemma react_ok [inv_intros]: "tcp_ok s \<Longrightarrow> tcp_ok (react c st h s)"
  by (cases st) (auto simp: react_def intro!: inv_intros receive_ok simp: receive_data_def)

lemma handle_ok [inv_intros]: "tcp_ok s \<Longrightarrow> tcp_ok (tcp_handle_packet src m sz s)"
proof -
  assume "tcp_ok s"
  then have "tcp_ok (snd (connection_for src (segment_view m sz) s))" by (rule connection_for_ok)
  moreover have "tcp_ok s1 \<Longrightarrow> tcp_ok (map_conn c (acked h) s1)" for s1 :: "'a tcp_scheme" and c h
    by (rule map_conn_ok) (simp_all add: acked_def conn_ok_def)
  ultimately show ?thesis using \<open>tcp_ok s\<close>
    by (auto simp: tcp_handle_packet_def Let_def split: option.split prod.split intro!: react_ok)
qed

text \<open>A connection table in use: segments from the network and socket calls in any order.\<close>

inductive tcp_reachable :: "'a tcp_scheme \<Rightarrow> 'a tcp_scheme \<Rightarrow> bool" for s0 where
  boot: "tcp_reachable s0 (tcp_initialize s0)"
| segment: "tcp_reachable s0 s \<Longrightarrow> tcp_reachable s0 (tcp_handle_packet src m sz s)"
| listen: "tcp_reachable s0 s \<Longrightarrow> tcp_reachable s0 (snd (tcp_listen port s))"
| connect: "tcp_reachable s0 s \<Longrightarrow> tcp_reachable s0 (snd (tcp_connect ip port s))"
| send: "tcp_reachable s0 s \<Longrightarrow> tcp_send fd data s = Some (r, s') \<Longrightarrow> tcp_reachable s0 s'"
| recv: "tcp_reachable s0 s \<Longrightarrow> tcp_recv fd n s = Some (x, s') \<Longrightarrow> tcp_reachable s0 s'"
| close: "tcp_reachable s0 s \<Longrightarrow> tcp_close fd s = Some s' \<Longrightarrow> tcp_reachable s0 s'"

lemma listen_ok [inv_intros]: "tcp_ok s \<Longrightarrow> tcp_ok (snd (tcp_listen port s))"
  using create_ok [of s] by (auto simp: tcp_listen_def split: prod.split option.split intro!: set_state_ok dest: sym)
    (metis snd_conv)+

lemma connect_ok [inv_intros]: "tcp_ok s \<Longrightarrow> tcp_ok (snd (tcp_connect ip port s))"
proof -
  assume "tcp_ok s"
  then have "tcp_ok (s\<lparr>next_ephemeral_port := next_ephemeral_port s + 1\<rparr>)" by (simp add: tcp_ok_def)
  from create_ok [OF this] show ?thesis
    by (auto simp: tcp_connect_def Let_def split: prod.split option.split intro!: set_state_ok send_on_ok)
      (metis snd_conv)+
qed

lemma recv_ok [inv_intros]: "tcp_ok s \<Longrightarrow> tcp_recv fd n s = Some (x, s') \<Longrightarrow> tcp_ok s'"
proof -
  assume ok: "tcp_ok s" and r: "tcp_recv fd n s = Some (x, s')"
  have "tcp_ok (map_conn fd (\<lambda>k. k\<lparr>recv_ring := q\<rparr>) s)" if "conn_at s fd = Some k" "ring_read n (recv_ring k) = (bs, q)" for k bs q
  proof (rule map_conn_ok [OF ok])
    have k: "k \<in> set (connections s)" using conn_at_mem [OF that(1)] by simp
    then have "ring_ok (recv_ring k)" using ok by (simp add: tcp_ok_def conn_ok_def)
    then have "ring_ok q" using ring_read_queue [of "recv_ring k" n] that(2) by simp
    then show "conn_ok (k'\<lparr>recv_ring := q\<rparr>)" if "conn_ok k'" for k' using that by (simp add: conn_ok_def)
  qed simp
  then show ?thesis using ok r by (auto simp: tcp_recv_def split: if_splits option.splits prod.splits)
qed

lemma send_ok [inv_intros]: "tcp_ok s \<Longrightarrow> tcp_send fd data s = Some (r, s') \<Longrightarrow> tcp_ok s'"
  by (auto simp: tcp_send_def split: if_splits option.splits intro: send_packet_ok dest: conn_at_mem)

lemma close_ok [inv_intros]: "tcp_ok s \<Longrightarrow> tcp_close fd s = Some s' \<Longrightarrow> tcp_ok s'"
  by (auto simp: tcp_close_def split: if_splits option.splits intro: send_on_ok set_state_ok remove_ok)

section \<open>One connection through the operations\<close>

lemma find_map_conn:
  assumes "\<And>k. cid (f k) = cid k"
  shows "find (\<lambda>k. cid k = c) (map (\<lambda>k. if cid k = c then f k else k) ks) = map_option f (find (\<lambda>k. cid k = c) ks)"
  using assms by (induction ks) auto

lemma conn_at_map_conn: "(\<And>k. cid (f k) = cid k) \<Longrightarrow> conn_at (map_conn c f s) c = map_option f (conn_at s c)"
  by (simp add: conn_at_def map_conn_def find_map_conn)

lemma conn_at_set_state [simp]: "conn_at (set_state c st s) c = map_option (\<lambda>k. k\<lparr>tstate := st\<rparr>) (conn_at s c)"
  by (simp add: set_state_def conn_at_map_conn)

lemma conn_at_connections: "connections s = connections s' \<Longrightarrow> conn_at s c = conn_at s' c"
  by (simp add: conn_at_def)

lemma conn_at_in:
  assumes "tcp_ok s" and "k \<in> set (connections s)"
  shows "conn_at s (cid k) = Some k"
proof -
  have "conn_at s (cid k) \<noteq> None" using assms(2) by (auto simp: conn_at_def find_None_iff)
  then obtain k' where k': "conn_at s (cid k) = Some k'" by blast
  then have "k' = k" using conn_at_mem [OF k'] distinct_cid [OF assms(1), of k' k] assms(2) by simp
  then show ?thesis using k' by simp
qed

lemma kmalloc_connections [simp]:
  "connections (snd (tcp_kmalloc s)) = connections s" "syn_count (snd (tcp_kmalloc s)) = syn_count s"
  "last_syn_time (snd (tcp_kmalloc s)) = last_syn_time s" "my_ip (snd (tcp_kmalloc s)) = my_ip s"
  "heap_answers (snd (tcp_kmalloc s)) = tl (heap_answers s)"
  by (simp_all add: tcp_kmalloc_def split: list.split)

lemma map_conn_fields [simp]:
  "syn_count (map_conn c f s) = syn_count s" "last_syn_time (map_conn c f s) = last_syn_time s"
  "my_ip (map_conn c f s) = my_ip s" "heap_answers (map_conn c f s) = heap_answers s"
  "length (connections (map_conn c f s)) = length (connections s)"
  by (simp_all add: map_conn_def)

text \<open>A bare acknowledgment changes no connection; anything else moves only the sender's own counters.\<close>

lemma send_packet_fields:
  "syn_count (tcp_send_packet k fl data s) = syn_count s" "last_syn_time (tcp_send_packet k fl data s) = last_syn_time s"
  "my_ip (tcp_send_packet k fl data s) = my_ip s"
  "length (connections (tcp_send_packet k fl data s)) = length (connections s)"
  by (simp_all add: tcp_send_packet_def Let_def split_beta)

lemma send_packet_ack: "connections (tcp_send_packet k TCP_ACK [] s) = connections s"
  by (simp add: tcp_send_packet_def Let_def split_beta TCP_ACK_def TCP_SYN_def TCP_FIN_def)

lemma send_on_fields [simp]:
  "syn_count (send_on c fl data s) = syn_count s" "last_syn_time (send_on c fl data s) = last_syn_time s"
  "my_ip (send_on c fl data s) = my_ip s" "length (connections (send_on c fl data s)) = length (connections s)"
  by (simp_all add: send_on_def send_packet_fields split: option.split)

lemma send_on_ack [simp]: "connections (send_on c TCP_ACK [] s) = connections s"
  by (simp add: send_on_def send_packet_ack split: option.split)

lemma react_fields:
  "syn_count (react c st h s) = syn_count s" "last_syn_time (react c st h s) = last_syn_time s"
  "length (connections (react c st h s)) \<le> length (connections s)"
  by (cases st; simp add: react_def set_state_def remove_connection_def)+

lemma find_connection_cases:
  "find_connection a b c d s = Some k \<Longrightarrow> k \<in> set (connections s)"
  by (auto simp: find_connection_def find_Some_iff in_set_conv_nth)

lemma handle_established:
  assumes ok: "tcp_ok s" and sz: "TCP_HEADER \<le> sz"
    and k: "find_connection (my_ip s) src (s_dest_port (segment_view m sz)) (s_src_port (segment_view m sz)) s = Some k"
  shows "tcp_handle_packet src m sz s =
    react (cid k) (tstate k) (segment_view m sz) (map_conn (cid k) (acked (segment_view m sz)) s)"
proof -
  have "conn_at s (cid k) = Some k" using conn_at_in [OF ok find_connection_cases [OF k]] .
  moreover have "\<not> sz < TCP_HEADER" using sz by simp
  ultimately show ?thesis using k by (simp add: tcp_handle_packet_def connection_for_def Let_def)
qed

section \<open>Properties of TCP\<close>

lemma reachable_ok:
  assumes "tcp_reachable s0 s" and "distinct (filter (\<lambda>a. a \<noteq> 0) (heap_answers s0))"
  shows "tcp_ok s"
  using assms
proof (induction rule: tcp_reachable.induct)
  case boot
  then show ?case by (simp add: tcp_initialize_def tcp_ok_def)
qed (auto intro: inv_intros)

text \<open>C15. Whatever segments arrive and whatever socket calls are made, in any order: the addresses in
  the connection list are distinct, no receive buffer ever leaves its bounds, and no connection has
  more than 8192 bytes left in its send window.\<close>

theorem tcp_invariant:
  assumes "tcp_reachable s0 s" and "distinct (filter (\<lambda>a. a \<noteq> 0) (heap_answers s0))"
  shows "tcp_ok s"
  using assms by (rule reachable_ok)

definition tcp_start :: "nat list \<Rightarrow> tcp" where
  "tcp_start answers = net.extend (net0\<lparr>my_ip := 0x0A000001\<rparr>)
     \<lparr>connections = [], next_ephemeral_port = 49152, syn_count = 0, last_syn_time = 0, heap_answers = answers\<rparr>"

theorem tcp_invariant_witness:
  "tcp_ok (snd (tcp_connect 0x0A000002 80 (snd (tcp_listen 22 (tcp_initialize (tcp_start [16, 32, 48]))))))"
  by (rule tcp_invariant [of "tcp_start [16, 32, 48]"])
    (auto intro: tcp_reachable.intros simp: tcp_start_def net.defs net0_def)

text \<open>C16. The receive buffer is a byte queue cut off at 4096: any sequence of arriving data and reads
  returns the same bytes and leaves the same contents as the queue does.\<close>

theorem tcp_buffer_refines_queue:
  assumes "ring_ok r"
  shows "(fst (run_queue ring_write ring_read ops r), ring_queue (snd (run_queue ring_write ring_read ops r)))
    = run_queue (list_put TCP_BUFFER_SIZE) list_get ops (ring_queue r)"
  using rq.refines_list [OF assms, of ops] by blast

theorem tcp_buffer_refines_queue_witness:
  "fst (run_queue ring_write ring_read [Put [1, 2, 3], Get 2, Put [4], Get 5] ring_new) = [1, 2, 3, 4]"
proof -
  have "ring_queue ring_new = []" by (simp add: ring_queue_def ring_new_def)
  then show ?thesis
    using tcp_buffer_refines_queue [OF ring_new_ok, of "[Put [1, 2, 3], Get 2, Put [4], Get 5]"]
    by (simp add: list_put_def list_get_def TCP_BUFFER_SIZE_def prod_eq_iff)
qed

text \<open>A data segment for an established connection is appended to what the application has not yet
  read, up to the free space, and the next \<open>recv\<close> returns that stream from its front.\<close>

lemma tcp_segment_delivered:
  assumes ok: "tcp_ok s" and sz: "TCP_HEADER \<le> sz" and h: "h = segment_view m sz"
    and k: "find_connection (my_ip s) src (s_dest_port h) (s_src_port h) s = Some k" "tstate k = ESTABLISHED"
    and data: "\<not> has h TCP_FIN" "0 < s_size h"
  shows "\<exists>s'. tcp_recv (cid k) n (tcp_handle_packet src m sz s) =
    Some (Inr (take n (list_put TCP_BUFFER_SIZE
      (mem_bytes (s_payload h) (min (unat (s_size h)) TCP_BUFFER_SIZE)) (ring_queue (recv_ring k)))), s')"
proof -
  have mem: "k \<in> set (connections s)" using find_connection_cases [OF k(1)] .
  then have r: "ring_ok (recv_ring k)" "cid k \<noteq> 0" using ok by (simp_all add: tcp_ok_def conn_ok_def)
  let ?s1 = "map_conn (cid k) (acked h) s"
  let ?s2 = "map_conn (cid k) (receive_data h) ?s1"
  have han: "tcp_handle_packet src m sz s = send_on (cid k) TCP_ACK [] ?s2"
    using handle_established [OF ok sz, of src m k] k data h by (simp add: react_def word_gt_0)
  have "conn_at ?s2 (cid k) = Some (receive_data h (acked h k))"
    using conn_at_in [OF ok mem] by (simp add: conn_at_map_conn receive_data_def acked_def)
  then have c: "conn_at (tcp_handle_packet src m sz s) (cid k) = Some (receive_data h (acked h k))"
    unfolding han by (simp add: conn_at_def)
  have w: "ring_ok (recv_ring (receive_data h (acked h k)))"
    "ring_queue (recv_ring (receive_data h (acked h k))) = list_put TCP_BUFFER_SIZE
      (mem_bytes (s_payload h) (min (unat (s_size h)) TCP_BUFFER_SIZE)) (ring_queue (recv_ring k))"
    using ring_write_queue [OF r(1)] by (simp_all add: receive_data_def acked_def)
  have "tstate (receive_data h (acked h k)) = ESTABLISHED" using k(2) by (simp add: receive_data_def acked_def)
  then show ?thesis using c r(2) ring_read_queue [OF w(1), of n] w(2)
    by (auto simp: tcp_recv_def list_get_def split: prod.split)
qed

definition one_conn :: "nat list \<Rightarrow> tcp" where
  "one_conn answers = (tcp_start answers)\<lparr>connections :=
     [(new_conn 16 0x0A000001 0x0A000002 80 0x0505)\<lparr>tstate := ESTABLISHED\<rparr>]\<rparr>"

lemma one_conn_ok: "distinct (filter (\<lambda>a. a \<noteq> 0) as) \<Longrightarrow> 16 \<notin> set as \<Longrightarrow> tcp_ok (one_conn as)"
  by (simp add: tcp_ok_def one_conn_def tcp_start_def conn_ok_def new_conn_def TCP_DEFAULT_WINDOW_SIZE_def net.defs net0_def)

lemma tcp_segment_delivered_example:
  "\<exists>s'. tcp_recv 16 2 (tcp_handle_packet 0x0A000002
      (mem_of ([5, 5, 80, 0, 0, 0, 0, 0, 0, 0, 0, 0, 0x50, 0x10, 0, 0, 0, 0, 0, 0] @ [7, 8, 9])) 23 (one_conn []))
    = Some (Inr [7, 8], s')"
proof -
  let ?m = "mem_of ([5, 5, 80, 0, 0, 0, 0, 0, 0, 0, 0, 0, 0x50, 0x10, 0, 0, 0, 0, 0, 0] @ [7, 8, 9])"
  define h where "h = segment_view ?m 23"
  have h: "s_size h = 3" "s_flags h = 0x10" "s_dest_port h = 80" "s_src_port h = 0x0505"
    "mem_bytes (s_payload h) 3 = [7, 8, 9]"
    by (simp_all add: h_def segment_view_def mem_of_def le16_def mem_bytes_def upt_rec)
  have k: "find_connection (my_ip (one_conn [])) 0x0A000002 (s_dest_port h) (s_src_port h) (one_conn []) =
      Some ((new_conn 16 0x0A000001 0x0A000002 80 0x0505)\<lparr>tstate := ESTABLISHED\<rparr>)"
    by (simp add: find_connection_def h one_conn_def tcp_start_def net.defs net0_def new_conn_def)
  have q: "ring_queue ring_new = []" by (simp add: ring_queue_def ring_new_def)
  show ?thesis
    using tcp_segment_delivered [OF one_conn_ok _ h_def k, of 2]
    by (simp add: h has_def TCP_FIN_def TCP_HEADER_def new_conn_def q list_put_def TCP_BUFFER_SIZE_def)
qed

text \<open>A run of sends on one socket, and the bytes they put into segments.\<close>

fun tcp_sends :: "nat \<Rightarrow> u8 list list \<Rightarrow> 'a tcp_scheme \<Rightarrow> ((unit + nat) list \<times> 'a tcp_scheme) option" where
  "tcp_sends fd [] s = Some ([], s)"
| "tcp_sends fd (d # ds) s =
     (case tcp_send fd d s of None \<Rightarrow> None
      | Some (r, s1) \<Rightarrow> map_option (\<lambda>(rs, s2). (r # rs, s2)) (tcp_sends fd ds s1))"

lemma segment_data_take:
  "tstate k = ESTABLISHED \<Longrightarrow> segment_data k data = take (unat (send_window_end k - send_window_start k)) data"
  by (simp add: segment_data_def)

lemma send_one:
  fixes d :: "u8 list"
  assumes ok: "tcp_ok s" and k: "conn_at s fd = Some k" "tstate k = ESTABLISHED" and fd: "fd \<noteq> 0"
    and heap: "heap_answers s = a # as" "a \<noteq> 0"
  defines "n \<equiv> min (unat (send_window_end k - send_window_start k)) (length d)"
  shows "\<exists>s' as'. tcp_send fd d s = Some (Inr (length d), s') \<and> tcp_ok s' \<and> (as' = as \<or> as' = a # as) \<and> heap_answers s' = as' \<and>
    conn_at s' fd = Some (k\<lparr>seq_number := seq_number k + of_nat n, send_window_start := send_window_start k + of_nat n\<rparr>)"
proof -
  let ?s' = "tcp_send_packet k (TCP_ACK OR TCP_PSH) d s"
  have mem: "k \<in> set (connections s)" "cid k = fd" using conn_at_mem [OF k(1)] by simp_all
  have send: "tcp_send fd d s = Some (Inr (length d), ?s')" using k fd by (simp add: tcp_send_def)
  have ok': "tcp_ok ?s'" by (rule send_packet_ok [OF ok mem(1)])
  have flags: "(TCP_ACK OR TCP_PSH) AND TCP_SYN = 0" "(TCP_ACK OR TCP_PSH) AND TCP_FIN = 0"
    by (simp_all add: TCP_ACK_def TCP_PSH_def TCP_SYN_def TCP_FIN_def)
  have len: "length (segment_data k d) = n" using segment_data_take [OF k(2)] by (simp add: n_def min.commute)
  show ?thesis
  proof (cases "n = 0")
    case True
    then have e: "segment_data k d = []" using len by simp
    have "connections ?s' = connections s" "heap_answers ?s' = (if d = [] then as else a # as)"
      using heap flags by (simp_all add: tcp_send_packet_def e tcp_kmalloc_def Let_def)
    then show ?thesis using send ok' True k(1) conn_at_connections [of ?s' s fd] by auto
  next
    case False
    then have ne: "segment_data k d \<noteq> []" using len by auto
    have "conn_at ?s' fd = Some (advance (TCP_ACK OR TCP_PSH) n k)" "heap_answers ?s' = as"
      using ne heap mem(2) k(1) len flags
      by (simp_all add: tcp_send_packet_def Let_def tcp_kmalloc_def conn_at_map_conn)
        (simp add: conn_at_def)
    moreover have "advance (TCP_ACK OR TCP_PSH) n k =
        k\<lparr>seq_number := seq_number k + of_nat n, send_window_start := send_window_start k + of_nat n\<rparr>"
      using False k(2) flags by (simp add: advance_def Let_def)
    ultimately show ?thesis using send ok' by auto
  qed
qed



text \<open>The on-demand connections of unmatched SYNs.\<close>

definition syn_ok :: "'a tcp_scheme \<Rightarrow> bool" where
  "syn_ok s \<longleftrightarrow> last_syn_time s = 0 \<and> length (connections s) \<le> 10 \<and> length (connections s) \<le> unat (syn_count s)"

lemma create_fields:
  "syn_count (snd (create_connection a b c d s)) = syn_count s"
  "last_syn_time (snd (create_connection a b c d s)) = last_syn_time s"
  "length (connections (snd (create_connection a b c d s))) \<le> Suc (length (connections s))"
  by (simp_all add: create_connection_def split_beta)

lemma connection_for_syn:
  fixes src h
  assumes s: "syn_ok s" and wrap: "unat (syn_count s) + 1 < 4294967296"
  defines "s' \<equiv> snd (connection_for src h s)"
  shows "syn_ok s' \<and> unat (syn_count s') \<le> unat (syn_count s) + 1"
proof (cases "find_connection (my_ip s) src (s_dest_port h) (s_src_port h) s = None \<and> has h TCP_SYN")
  case True
  let ?s1 = "s\<lparr>syn_count := syn_count s + 1\<rparr>"
  let ?cr = "create_connection (my_ip s) src (s_dest_port h) (s_src_port h) ?s1"
  have n: "unat (syn_count s + 1) = unat (syn_count s) + 1" using wrap by (subst unat_add_u32) simp_all
  have lt: "last_syn_time s = 0" "0 - last_syn_time s < 1000" using s by (simp_all add: syn_ok_def)
  have s': "s' = (if syn_count s + 1 > 10 then ?s1
      else case ?cr of (None, s2) \<Rightarrow> s2 | (Some c, s2) \<Rightarrow> map_conn c (\<lambda>k. k\<lparr>tstate := LISTEN, syn_timestamp := 0\<rparr>) s2)"
    unfolding s'_def using True lt by (auto simp: connection_for_def Let_def split: prod.split option.split)
  show ?thesis
  proof (cases "syn_count s + 1 > 10")
    case True
    then show ?thesis using s n by (simp add: s' syn_ok_def)
  next
    case False
    then have "unat (syn_count s) + 1 \<le> 10" using n by (simp add: word_less_nat_alt not_less)
    moreover have "syn_count s' = syn_count s + 1 \<and> last_syn_time s' = 0 \<and> length (connections s') \<le> Suc (length (connections s))"
      using False lt create_fields [of "my_ip s" src "s_dest_port h" "s_src_port h" ?s1]
      by (simp add: s' split_beta split: option.split)
    ultimately show ?thesis using s n by (simp add: syn_ok_def)
  qed
next
  case False
  then have "s' = s" unfolding s'_def by (auto simp: connection_for_def split: option.split)
  then show ?thesis using s by simp
qed

lemma handle_syn:
  assumes "syn_ok s" and "unat (syn_count s) + 1 < 4294967296"
  shows "syn_ok (tcp_handle_packet src m sz s) \<and> unat (syn_count (tcp_handle_packet src m sz s)) \<le> unat (syn_count s) + 1"
proof -
  let ?h = "segment_view m sz"
  let ?s1 = "snd (connection_for src ?h s)"
  note s1 = connection_for_syn [OF assms, of src ?h]
  have r: "syn_ok (react c st ?h (map_conn c f ?s1)) \<and> syn_count (react c st ?h (map_conn c f ?s1)) = syn_count ?s1" for c st f
    using s1 react_fields [of c st ?h "map_conn c f ?s1"] by (simp add: syn_ok_def)
  show ?thesis
    using assms s1 r by (auto simp: tcp_handle_packet_def Let_def split_beta split: option.split)
qed

text \<open>The guard against SYN floods never forgets, since its clock is always 0: out of any fewer than
  \<open>2^32\<close> segments from the network, whatever they are, at most ten ever open a connection.\<close>

lemma tcp_ten_peers:
  assumes "connections s = []" and "syn_count s = 0" and "last_syn_time s = 0" and "length pkts < 4294967296"
  shows "length (connections (fold (\<lambda>(src, m, sz). tcp_handle_packet src m sz) pkts s)) \<le> 10"
proof -
  have "syn_ok (fold (\<lambda>(src, m, sz). tcp_handle_packet src m sz) ps s) \<and>
      unat (syn_count (fold (\<lambda>(src, m, sz). tcp_handle_packet src m sz) ps s)) \<le> unat (syn_count s) + length ps"
    if "syn_ok s" "unat (syn_count s) + length ps < 4294967296" for ps and s :: "'a tcp_scheme"
    using that
  proof (induction ps arbitrary: s)
    case (Cons p ps)
    obtain src m sz where p: "p = (src, m, sz)" by (cases p)
    note h = handle_syn [OF Cons.prems(1), of src m sz]
    show ?case using h Cons.prems(2) Cons.IH [of "tcp_handle_packet src m sz s"] by (fastforce simp: p)
  qed simp
  from this [of s pkts] assms show ?thesis by (simp add: syn_ok_def)
qed

lemma tcp_ten_peers_example:
  "length (connections (fold (\<lambda>(src, m, sz). tcp_handle_packet src m sz)
     (map (\<lambda>i. (of_nat i, mem_of (replicate 13 0 @ [2]), 20)) [0..<1000]) (tcp_start [16..<100]))) \<le> 10"
  by (rule tcp_ten_peers) (simp_all add: tcp_start_def net.defs)

lemma connections_send_syn:
  assumes "conn_at s c = Some k" and "fl AND TCP_SYN \<noteq> 0" and "heap_answers s = b # as" and "b \<noteq> 0"
  shows "connections (send_on c fl [] s) = map (\<lambda>k. if cid k = c then advance fl 0 k else k) (connections s)"
proof -
  have "cid k = c" using conn_at_mem [OF assms(1)] by simp
  then show ?thesis using assms
    by (simp add: send_on_def tcp_send_packet_def tcp_kmalloc_def Let_def) (simp add: map_conn_def)
qed

text \<open>C17. Passive open: a SYN from a new peer makes a connection that has acknowledged it and sent its
  own SYN; the peer's acknowledgment then establishes it, and \<open>accept\<close> on it names the peer.\<close>

theorem tcp_handshake:
  assumes ok: "tcp_ok s" and guard: "syn_count s < 10" "last_syn_time s = 0"
    and new: "find_connection (my_ip s) src (s_dest_port h) (s_src_port h) s = None"
    and heap: "heap_answers s = a # b # as" "a \<noteq> 0" "b \<noteq> 0"
    and syn: "h = segment_view m sz" "TCP_HEADER \<le> sz" "has h TCP_SYN" "\<not> has h TCP_FIN"
    and ack: "h' = segment_view m' sz'" "TCP_HEADER \<le> sz'" "has h' TCP_ACK"
      "s_src_port h' = s_src_port h" "s_dest_port h' = s_dest_port h"
  shows "\<exists>k. conn_at (tcp_handle_packet src m sz s) a = Some k \<and> tstate k = SYN_RECEIVED \<and>
    seq_number k = 0x12345679 \<and> ack_number k = s_seq h + s_size h + 1 \<and>
    tcp_accept a (tcp_handle_packet src m' sz' (tcp_handle_packet src m sz s)) = Some (Inr (a, src, s_src_port h))"
proof -
  let ?k0 = "(new_conn a (my_ip s) src (s_dest_port h) (s_src_port h))\<lparr>tstate := LISTEN, syn_timestamp := 0\<rparr>"
  have fresh: "\<forall>k \<in> set (connections s). cid k \<noteq> a" using ok heap(1) by (auto simp: tcp_ok_def)
  then have old: "map (\<lambda>k. if cid k = a then f k else k) (connections s) = connections s" for f
    by (simp add: map_idI)
  have "unat (syn_count s) < 10" using guard(1) by (simp add: word_less_nat_alt)
  then have "unat (syn_count s + 1) = unat (syn_count s) + 1" by (subst unat_add_u32) simp_all
  then have cnt: "\<not> syn_count s + 1 > 10" using \<open>unat (syn_count s) < 10\<close> by (simp add: word_less_nat_alt)
  obtain s1 where s1: "connection_for src h s = (Some a, s1)" "connections s1 = ?k0 # connections s"
    "heap_answers s1 = b # as" "my_ip s1 = my_ip s"
    using new guard(2) cnt syn(3) heap old
    by (simp add: connection_for_def Let_def create_connection_def tcp_kmalloc_def)
      (simp add: map_conn_def new_conn_def)
  let ?k1 = "(acked h ?k0)\<lparr>tstate := SYN_RECEIVED\<rparr>"
  let ?s2 = "set_state a SYN_RECEIVED (map_conn a (acked h) s1)"
  have c0: "cid ?k0 = a" "tstate ?k0 = LISTEN" by (simp_all add: new_conn_def)
  have s2: "connections ?s2 = ?k1 # connections s" "heap_answers ?s2 = b # as"
    using s1 old c0(1) by (simp_all add: set_state_def) (simp add: map_conn_def acked_def new_conn_def)
  have k1: "cid ?k1 = a" by (simp add: acked_def new_conn_def)
  have at2: "conn_at ?s2 a = Some ?k1" using s2(1) k1 by (simp add: conn_at_def)
  let ?fl = "TCP_SYN OR TCP_ACK" and ?k2 = "advance (TCP_SYN OR TCP_ACK) 0 ?k1"
  have han: "tcp_handle_packet src m sz s = send_on a ?fl [] ?s2"
    using syn s1 c0 by (simp add: tcp_handle_packet_def conn_at_def react_def Let_def)
  have fl: "?fl AND TCP_SYN \<noteq> 0" "?fl AND TCP_FIN = 0" by (simp_all add: TCP_SYN_def TCP_ACK_def TCP_FIN_def)
  have s3: "connections (tcp_handle_packet src m sz s) = ?k2 # connections s"
    unfolding han connections_send_syn [OF at2 fl(1) s2(2) heap(3)] s2(1) using k1 old by simp
  have k2: "cid ?k2 = a" "tstate ?k2 = SYN_RECEIVED" "seq_number ?k2 = 0x12345679"
    "ack_number ?k2 = s_seq h + s_size h + 1" "local_ip ?k2 = my_ip s" "remote_ip ?k2 = src"
    "local_port ?k2 = s_dest_port h" "remote_port ?k2 = s_src_port h"
    using syn(3,4) fl by (simp_all add: advance_def acked_def new_conn_def Let_def)
  have at: "conn_at (tcp_handle_packet src m sz s) a = Some ?k2" using s3 k2(1) by (simp add: conn_at_def)
  have "find_connection (my_ip (tcp_handle_packet src m sz s)) src (s_dest_port h') (s_src_port h')
      (tcp_handle_packet src m sz s) = Some ?k2"
    using s3 k2 ack(4,5) s1(4) by (simp add: find_connection_def han set_state_def)
  from handle_established [OF handle_ok [OF ok] ack(2) this [unfolded ack(1)]]
  have "tcp_handle_packet src m' sz' (tcp_handle_packet src m sz s) =
      set_state a ESTABLISHED (map_conn a (acked h') (tcp_handle_packet src m sz s))"
    using k2 ack(1,3) by (simp add: react_def)
  then have "tcp_accept a (tcp_handle_packet src m' sz' (tcp_handle_packet src m sz s)) = Some (Inr (a, src, s_src_port h))"
    using at k2 heap(2) by (simp add: tcp_accept_def conn_at_map_conn acked_def)
  then show ?thesis using at k2 by blast
qed

theorem tcp_handshake_witness:
  "let syn = mem_of ([5, 5, 80, 0, 0, 0, 0, 1, 0, 0, 0, 0, 0x50, 2, 0, 0, 0, 0, 0, 0]);
       ack = mem_of ([5, 5, 80, 0, 1, 0, 0, 1, 0, 0, 0, 0, 0x50, 16, 0, 0, 0, 0, 0, 0])
   in tcp_accept 16 (tcp_handle_packet 0x0A000002 ack 20 (tcp_handle_packet 0x0A000002 syn 20 (tcp_start [16, 32])))
        = Some (Inr (16, 0x0A000002, 0x0505))"
proof -
  define syn where "syn = mem_of ([5, 5, 80, 0, 0, 0, 0, 1, 0, 0, 0, 0, 0x50, 2, 0, 0, 0, 0, 0, 0])"
  define ack where "ack = mem_of ([5, 5, 80, 0, 1, 0, 0, 1, 0, 0, 0, 0, 0x50, 16, 0, 0, 0, 0, 0, 0])"
  define s where "s = tcp_start [16, 32]"
  have h: "s_src_port (segment_view syn 20) = 0x0505" "s_dest_port (segment_view syn 20) = 80"
    "has (segment_view syn 20) TCP_SYN" "\<not> has (segment_view syn 20) TCP_FIN"
    by (simp_all add: syn_def segment_view_def has_def TCP_SYN_def TCP_FIN_def mem_of_def le16_def)
  have h': "s_src_port (segment_view ack 20) = 0x0505" "s_dest_port (segment_view ack 20) = 80"
    "has (segment_view ack 20) TCP_ACK"
    by (simp_all add: ack_def segment_view_def has_def TCP_ACK_def mem_of_def le16_def)
  have s: "tcp_ok s" "syn_count s < 10" "last_syn_time s = 0" "connections s = []" "heap_answers s = 16 # 32 # []"
    by (simp_all add: s_def tcp_start_def net.defs tcp_ok_def net0_def)
  then have "find_connection (my_ip s) 0x0A000002 (s_dest_port (segment_view syn 20)) (s_src_port (segment_view syn 20)) s = None"
    by (simp add: find_connection_def)
  from tcp_handshake [OF s(1-3) this s(5) _ _ refl _ h(3,4) refl _ h'(3)]
  show ?thesis unfolding Let_def syn_def [symmetric] ack_def [symmetric] s_def [symmetric]
    using h h' by (auto simp: TCP_HEADER_def)
qed

end
