(* ===== verification/IPv6.thy ===== *)
theory IPv6
  imports TCP
begin

text \<open>
  \<open>net/ipv6.cpp\<close>: addresses, the packet filter by version and destination, the dispatch, neighbor
  solicitations and the neighbor cache. The handlers of TCP and UDP over IPv6 only log, so they change
  nothing. \<open>send_neighbor_advertisement\<close> writes 32 bytes into a 24-byte block; the eight bytes past
  it lie in heap that the bump allocator has not handed out yet, and never reach the packet.
\<close>

record ipv6 = tcp +
  link_local_addr :: "u8 list"
  global_addr :: "u8 list"
  has_global_addr :: bool
  neighbor_cache :: "u8 list list"
  neighbor_addrs :: "u8 list list"
  neighbor_count :: nat

definition IPV6_SIZE :: u32 where "IPV6_SIZE = 40"
definition IPV6_VERSION :: u32 where "IPV6_VERSION = 6"

definition ipv6_initialize :: "'a ipv6_scheme \<Rightarrow> 'a ipv6_scheme" where
  "ipv6_initialize s =
     (let mac = get_mac_address s
      in s\<lparr>link_local_addr := take 8 (link_local_addr s) @
             [mac ! 0 XOR 0x02, mac ! 1, mac ! 2, 0xFF, 0xFE, mac ! 3, mac ! 4, mac ! 5]\<rparr>)"

definition ipv6_set_global :: "u8 list \<Rightarrow> 'a ipv6_scheme \<Rightarrow> 'a ipv6_scheme" where
  "ipv6_set_global addr s = s\<lparr>global_addr := addr, has_global_addr := True\<rparr>"

definition own_address :: "u8 list \<Rightarrow> 'a ipv6_scheme \<Rightarrow> bool" where
  "own_address addr s \<longleftrightarrow> memcmp addr (link_local_addr s) 16 = Some 0 \<or>
     has_global_addr s \<and> memcmp addr (global_addr s) 16 = Some 0"

definition ipv6_header :: "u8 list \<Rightarrow> u8 \<Rightarrow> nat \<Rightarrow> 'a ipv6_scheme \<Rightarrow> u8 list" where
  "ipv6_header dest next_header len s =
     le32_bytes (push_bit 28 IPV6_VERSION) @ le16_bytes (swap_uint16 (of_nat len)) @ [next_header, 64] @
     (if has_global_addr s then global_addr s else link_local_addr s) @ dest"

definition ipv6_send :: "u8 list \<Rightarrow> u8 \<Rightarrow> u8 list \<Rightarrow> 'a ipv6_scheme \<Rightarrow> 'a ipv6_scheme" where
  "ipv6_send dest next_header payload s =
     (case tcp_kmalloc s of (p, s1) \<Rightarrow>
        if p = 0 then s1
        else ethernet_send (replicate 6 0xFF) 0x86DD (ipv6_header dest next_header (length payload) s1 @ payload) s1)"

definition advertisement :: "u16 \<Rightarrow> u8 list \<Rightarrow> u8 list" where
  "advertisement ck target = [136, 0, ucast (drop_bit 8 ck), ucast ck, 0x60, 0, 0, 0] @ target"

fun be_sum :: "u8 list \<Rightarrow> u16 \<Rightarrow> u16" where
  "be_sum (a # b # xs) acc = be_sum xs (acc + (push_bit 8 (ucast a) OR ucast b))"
| "be_sum _ acc = acc"

definition send_neighbor_advertisement :: "u8 list \<Rightarrow> u8 list \<Rightarrow> 'a ipv6_scheme \<Rightarrow> 'a ipv6_scheme" where
  "send_neighbor_advertisement dest target s =
     (case tcp_kmalloc s of (p, s1) \<Rightarrow>
        if p = 0 then s1
        else ipv6_send dest 58 (advertisement (be_sum (advertisement 0 target) 0) target) s1)"

definition handle_icmpv6_packet :: "u8 list \<Rightarrow> mem \<Rightarrow> u32 \<Rightarrow> 'a ipv6_scheme \<Rightarrow> 'a ipv6_scheme" where
  "handle_icmpv6_packet src data sz s =
     (if sz < 4 then s
      else if data 0 = 135
      then if sz \<ge> 24
           then let target = mem_bytes (mem_at data 8) 16
                in if own_address target s then send_neighbor_advertisement src target s else s
           else s
      else s)"

definition update_neighbor_cache :: "u8 list \<Rightarrow> u8 list \<Rightarrow> 'a ipv6_scheme \<Rightarrow> 'a ipv6_scheme" where
  "update_neighbor_cache ip mac s =
     (case find (\<lambda>i. memcmp (neighbor_addrs s ! i) ip 16 = Some 0) [0..<neighbor_count s] of
        Some i \<Rightarrow> s\<lparr>neighbor_cache := (neighbor_cache s)[i := mac]\<rparr>
      | None \<Rightarrow>
          if neighbor_count s < 8
          then s\<lparr>neighbor_addrs := (neighbor_addrs s)[neighbor_count s := ip],
                 neighbor_cache := (neighbor_cache s)[neighbor_count s := mac],
                 neighbor_count := neighbor_count s + 1\<rparr>
          else s)"

definition ipv6_handle_packet :: "mem \<Rightarrow> u32 \<Rightarrow> 'a ipv6_scheme \<Rightarrow> 'a ipv6_scheme" where
  "ipv6_handle_packet data sz s =
     (if sz < IPV6_SIZE then s
      else if drop_bit 28 (le32 data 0) AND 0xF \<noteq> IPV6_VERSION then s
      else let payload_length = ucast (swap_uint16 (le16 data 4)) :: u32;
               payload = mem_at data 40
           in if \<not> own_address (mem_bytes (mem_at data 24) 16) s then s
              else if data 6 = 58 then handle_icmpv6_packet (mem_bytes (mem_at data 8) 16) payload payload_length s
              else s)"

end
