(* ===== verification/Firewall.thy ===== *)
theory Firewall
  imports Prelude
begin

text \<open>
  The packet filter, \<open>net/firewall.cpp\<close>: an array of 32 rules, of which the first \<open>rule_count\<close>
  are in use, checked in order. A 0 in a rule is a wildcard.
\<close>

datatype firewall_action = ALLOW | DENY

record firewall_rule =
  r_src_ip :: u32
  r_dst_ip :: u32
  r_src_port :: u16
  r_dst_port :: u16
  r_protocol :: u8
  r_action :: firewall_action
  r_enabled :: bool

definition MAX_FIREWALL_RULES :: nat where "MAX_FIREWALL_RULES = 32"

record firewall =
  rules :: "firewall_rule list"
  rule_count :: nat

definition zero_rule :: firewall_rule where
  "zero_rule = \<lparr>r_src_ip = 0, r_dst_ip = 0, r_src_port = 0, r_dst_port = 0, r_protocol = 0,
     r_action = ALLOW, r_enabled = False\<rparr>"

definition add_rule :: "u32 \<Rightarrow> u32 \<Rightarrow> u16 \<Rightarrow> u16 \<Rightarrow> u8 \<Rightarrow> firewall_action \<Rightarrow> firewall \<Rightarrow> bool \<times> firewall" where
  "add_rule sip dip sport dport prot action f =
     (if rule_count f \<ge> MAX_FIREWALL_RULES then (False, f)
      else (True, f\<lparr>rules := (rules f)[rule_count f := \<lparr>r_src_ip = sip, r_dst_ip = dip, r_src_port = sport,
              r_dst_port = dport, r_protocol = prot, r_action = action, r_enabled = True\<rparr>],
            rule_count := rule_count f + 1\<rparr>))"

definition firewall_initialize :: firewall where
  "firewall_initialize = snd (add_rule 0 0 0 0 0 DENY \<lparr>rules = replicate MAX_FIREWALL_RULES zero_rule, rule_count = 0\<rparr>)"

definition matches :: "u32 \<Rightarrow> u32 \<Rightarrow> u16 \<Rightarrow> u16 \<Rightarrow> u8 \<Rightarrow> firewall_rule \<Rightarrow> bool" where
  "matches sip dip sport dport prot r \<longleftrightarrow>
     (r_src_ip r = 0 \<or> r_src_ip r = sip) \<and> (r_dst_ip r = 0 \<or> r_dst_ip r = dip) \<and>
     (r_src_port r = 0 \<or> r_src_port r = sport) \<and> (r_dst_port r = 0 \<or> r_dst_port r = dport) \<and>
     (r_protocol r = 0 \<or> r_protocol r = prot)"

fun check_from :: "u32 \<Rightarrow> u32 \<Rightarrow> u16 \<Rightarrow> u16 \<Rightarrow> u8 \<Rightarrow> firewall_rule list \<Rightarrow> bool" where
  "check_from sip dip sport dport prot [] = False"
| "check_from sip dip sport dport prot (r # rs) =
     (if \<not> r_enabled r then check_from sip dip sport dport prot rs
      else if matches sip dip sport dport prot r then (if r_action r = ALLOW then True else False)
      else check_from sip dip sport dport prot rs)"

definition check_packet :: "u32 \<Rightarrow> u32 \<Rightarrow> u16 \<Rightarrow> u16 \<Rightarrow> u8 \<Rightarrow> firewall \<Rightarrow> bool" where
  "check_packet sip dip sport dport prot f = check_from sip dip sport dport prot (take (rule_count f) (rules f))"

definition enable_rule :: "u32 \<Rightarrow> firewall \<Rightarrow> firewall" where
  "enable_rule index f =
     (if unat index < rule_count f
      then f\<lparr>rules := (rules f)[unat index := (rules f ! unat index)\<lparr>r_enabled := True\<rparr>]\<rparr> else f)"

definition disable_rule :: "u32 \<Rightarrow> firewall \<Rightarrow> firewall" where
  "disable_rule index f =
     (if unat index < rule_count f
      then f\<lparr>rules := (rules f)[unat index := (rules f ! unat index)\<lparr>r_enabled := False\<rparr>]\<rparr> else f)"

section \<open>Configurations\<close>

inductive configured :: "firewall \<Rightarrow> bool" where
  init: "configured firewall_initialize"
| add: "configured f \<Longrightarrow> configured (snd (add_rule sip dip sport dport prot action f))"
| enable: "configured f \<Longrightarrow> configured (enable_rule index f)"
| disable: "configured f \<Longrightarrow> configured (disable_rule index f)"

definition deny_all :: firewall_rule where
  "deny_all = zero_rule\<lparr>r_action := DENY, r_enabled := True\<rparr>"

lemma configured_table:
  "configured f \<Longrightarrow> length (rules f) = 32 \<and> 1 \<le> rule_count f \<and> rule_count f \<le> 32 \<and>
    (rules f ! 0 = deny_all \<or> rules f ! 0 = deny_all\<lparr>r_enabled := False\<rparr>)"
proof (induction rule: configured.induct)
  case init
  show ?case by (simp add: firewall_initialize_def add_rule_def MAX_FIREWALL_RULES_def deny_all_def zero_rule_def)
next
  case (add f sip dip sport dport prot action)
  then show ?case by (simp add: add_rule_def MAX_FIREWALL_RULES_def)
next
  case (enable f index)
  then show ?case by (cases "unat index = 0") (auto simp: enable_rule_def deny_all_def)
next
  case (disable f index)
  then show ?case by (cases "unat index = 0") (auto simp: disable_rule_def deny_all_def)
qed

lemma check_from_first:
  "check_from sip dip sport dport prot rs \<longleftrightarrow>
    (\<exists>r. find (\<lambda>r. r_enabled r \<and> matches sip dip sport dport prot r) rs = Some r \<and> r_action r = ALLOW)"
  by (induction rs) auto

section \<open>Property\<close>

text \<open>C36. In every configuration the filter can be put into, the first enabled matching rule decides and
  no rule means no; since the first rule is always the wildcard denial that initialisation installs,
  a packet passes only if that rule has been disabled and some later rule allows it first.\<close>

theorem firewall_default_rule_shadows:
  assumes "configured f"
  shows "check_packet sip dip sport dport prot f \<longleftrightarrow>
    \<not> r_enabled (rules f ! 0) \<and>
    (\<exists>r. find (\<lambda>r. r_enabled r \<and> matches sip dip sport dport prot r) (take (rule_count f - 1) (tl (rules f))) = Some r \<and>
       r_action r = ALLOW)"
proof -
  note c = configured_table [OF assms]
  obtain r0 rs where rs: "rules f = r0 # rs" using c by (cases "rules f") auto
  obtain n where n: "rule_count f = Suc n" using c by (cases "rule_count f") auto
  have "r0 = deny_all \<or> r0 = deny_all\<lparr>r_enabled := False\<rparr>" using c rs by simp
  then show ?thesis
    unfolding check_packet_def check_from_first
    by (auto simp: rs n deny_all_def matches_def zero_rule_def)
qed

theorem firewall_default_rule_shadows_witness:
  "\<not> check_packet 1 2 3 22 6 (snd (add_rule 1 0 0 22 6 ALLOW firewall_initialize)) \<and>
   check_packet 1 2 3 22 6 (disable_rule 0 (snd (add_rule 1 0 0 22 6 ALLOW firewall_initialize)))"
proof
  let ?f = "snd (add_rule 1 0 0 22 6 ALLOW firewall_initialize)"
  have c: "configured ?f" "configured (disable_rule 0 ?f)" by (auto intro: configured.intros)
  have f: "rules ?f ! 0 = deny_all" "rule_count ?f = 2" "length (rules ?f) = 32" "rules ?f ! 1 =
      \<lparr>r_src_ip = 1, r_dst_ip = 0, r_src_port = 0, r_dst_port = 22, r_protocol = 6, r_action = ALLOW, r_enabled = True\<rparr>"
    by (simp_all add: firewall_initialize_def add_rule_def MAX_FIREWALL_RULES_def deny_all_def zero_rule_def)
  show "\<not> check_packet 1 2 3 22 6 ?f"
    using firewall_default_rule_shadows [OF c(1)] f(1) by (simp add: deny_all_def)
  have d: "rules (disable_rule 0 ?f) = (rules ?f)[0 := deny_all\<lparr>r_enabled := False\<rparr>]" "rule_count (disable_rule 0 ?f) = 2"
    using f by (simp_all add: disable_rule_def)
  have t: "take 1 (tl (rules ?f)) = [rules ?f ! 1]"
    using f(3) by (cases "rules ?f"; cases "tl (rules ?f)") auto
  have "tl ((rules ?f)[0 := x]) = tl (rules ?f)" for x by (cases "rules ?f") auto
  then show "check_packet 1 2 3 22 6 (disable_rule 0 ?f)"
    using firewall_default_rule_shadows [OF c(2), of 1 2 3 22 6] d t f by (simp add: deny_all_def matches_def)
qed

end
