(* ===== verification/NetStack.thy ===== *)
theory NetStack
  imports IPv6 Firewall
begin

text \<open>
  The receiving side put together: \<open>IPv4::handle_packet\<close> and \<open>Ethernet::handle_packet\<close> dispatch a
  frame to the protocols of the other theories. The properties follow a datagram from one machine's
  \<open>send\<close> to the other machine's handler.
\<close>

definition ipv4_dispatch :: "u8 \<Rightarrow> u32 \<Rightarrow> mem \<Rightarrow> u32 \<Rightarrow> 'a ipv6_scheme \<Rightarrow> 'a ipv6_scheme" where
  "ipv4_dispatch prot src payload payload_size s =
     (if prot = 17 then udp_handle_packet src payload payload_size s
      else if prot = 6 then tcp_handle_packet src payload payload_size s
      else if prot = 1 then icmp_handle_packet payload payload_size src s
      else s)"

definition ipv4_handle_packet :: "mem \<Rightarrow> u32 \<Rightarrow> 'a ipv6_scheme \<Rightarrow> 'a ipv6_scheme" where
  "ipv4_handle_packet data sz s =
     (if sz < IPV4_SIZE then s
      else let header = ipv4_view data;
               hlen = ucast (version_ihl header AND 0x0F) * 4 :: u32
           in ipv4_dispatch (protocol header) (src_ip header) (mem_at data (unat hlen))
                (ucast (swap_uint16 (ip_length header)) - hlen) s)"

definition ethernet_handle_packet :: "mem \<Rightarrow> u32 \<Rightarrow> 'a ipv6_scheme \<Rightarrow> 'a ipv6_scheme" where
  "ethernet_handle_packet data sz s =
     (if sz < 14 then s
      else let type = le16 data 12; payload = mem_at data 14; payload_size = sz - 14
           in if type = 0x0608 \<or> type = 0x0806 \<or> type = swap_uint16 0x0806 then arp_handle_packet payload payload_size s
              else if type = 0x0008 \<or> type = 0x0800 \<or> type = swap_uint16 0x0800 then ipv4_handle_packet payload payload_size s
              else if type = 0xDD86 \<or> type = swap_uint16 0x86DD then ipv6_handle_packet payload payload_size s
              else s)"

section \<open>Headers read back\<close>

lemma swap_swap [simp]: "swap_uint16 (swap_uint16 w) = w"
  unfolding swap_uint16_def by (rule bit_word_eqI) (auto simp: bit_simps)

lemma length_ipv4_bytes [simp]: "length (ipv4_bytes h) = 20"
  by (simp add: ipv4_bytes_def)

lemma ipv4_view_bytes: "ipv4_view (mem_of (ipv4_bytes h @ data)) = h"
proof -
  have le2: "le16_bytes w = [ucast w, ucast (drop_bit 8 w)]" for w by (simp add: le16_bytes_def)
  have le4: "le32_bytes x = [ucast x, ucast (drop_bit 8 x), ucast (drop_bit 16 x), ucast (drop_bit 24 x)]" for x
    by (simp add: le32_bytes_def)
  have "le16 (mem_of (ipv4_bytes h @ data)) 2 = ip_length h" "le16 (mem_of (ipv4_bytes h @ data)) 4 = ip_id h"
    "le16 (mem_of (ipv4_bytes h @ data)) 6 = flags_fragment h" "le16 (mem_of (ipv4_bytes h @ data)) 10 = ip_checksum h"
    by (rule le16_of_bytes; simp add: ipv4_bytes_def le2 le4 mem_of_def)+
  moreover have "le32 (mem_of (ipv4_bytes h @ data)) 12 = src_ip h" "le32 (mem_of (ipv4_bytes h @ data)) 16 = dest_ip h"
    by (rule le32_of_bytes; simp add: ipv4_bytes_def le2 le4 mem_of_def)+
  moreover have "mem_of (ipv4_bytes h @ data) 0 = version_ihl h" "mem_of (ipv4_bytes h @ data) 1 = tos h"
    "mem_of (ipv4_bytes h @ data) 8 = ttl h" "mem_of (ipv4_bytes h @ data) 9 = protocol h"
    by (simp_all add: ipv4_bytes_def le2 mem_of_def)
  ultimately show ?thesis by (simp add: ipv4_view_def)
qed

lemma ipv4_header_checksum:
  "calculate_checksum (mem_of (ipv4_bytes (ipv4_header_for dest prot n s))) 20 = 0"
proof -
  let ?len = "swap_uint16 (of_nat (20 + n))"
  define pre where "pre = [0x45, 0] @ le16_bytes ?len @ le16_bytes (swap_uint16 (next_id s)) @ le16_bytes 0 @ [64, prot]"
  define post where "post = le32_bytes (my_ip s) @ le32_bytes dest"
  have l: "length pre = 10" "length post = 8" by (simp_all add: pre_def post_def)
  have "0 < wsum pre" by (simp add: pre_def)
  note v = checksum_verifies [of pre post, unfolded l, OF _ _ this]
  have "ipv4_bytes (ipv4_header_for dest prot n s) =
      pre @ le16_bytes (calculate_checksum (mem_of (pre @ le16_bytes 0 @ post)) 20) @ post"
    by (simp add: ipv4_header_for_def ipv4_bytes_def pre_def post_def Let_def)
  then show ?thesis using v by simp
qed

lemma ipv4_view_cong: "(\<And>i. i < 20 \<Longrightarrow> m i = m' i) \<Longrightarrow> ipv4_view m = ipv4_view m'"
  by (simp add: ipv4_view_def le16_def le32_def)

lemma mem_bytes_prefix_nth: "mem_bytes m n = xs \<Longrightarrow> i < n \<Longrightarrow> m i = xs ! i"
  by auto

text \<open>A frame with a datagram in memory, whatever lies behind it, and whatever padding the length counts.\<close>

lemma ipv4_frame_dispatched:
  assumes m: "mem_bytes m (34 + length data) = frame_for mac dest prot data s"
    and macs: "length mac = 6" "length (get_mac_address s) = 6" and len: "20 + length data < 65536" "34 + length data \<le> unat sz"
  shows "ethernet_handle_packet m sz t = ipv4_dispatch prot (my_ip s) (mem_at m 34) (of_nat (length data)) t"
proof -
  let ?h = "ipv4_header_for dest prot (length data) s"
  have split: "frame_for mac dest prot data s = (mac @ get_mac_address s) @ [8, 0] @ ipv4_bytes ?h @ data"
    by (simp add: frame_for_def)
  have at: "m (12 + i) = ([8, 0] @ ipv4_bytes ?h @ data) ! i" if "i < 22 + length data" for i
    using mem_bytes_prefix_nth [OF m, of "12 + i"] that macs by (simp add: split nth_append)
  have "m 12 = 8" "m 13 = 0" using at [of 0] at [of 1] by simp_all
  then have eth: "le16 m 12 = 0x0008" by (simp add: le16_def)
  have "ipv4_view (mem_at m 14) = ipv4_view (mem_of (ipv4_bytes ?h @ data))"
  proof (rule ipv4_view_cong)
    fix i :: nat assume "i < 20"
    then show "mem_at m 14 i = mem_of (ipv4_bytes ?h @ data) i" using at [of "2 + i"] by (simp add: mem_of_def)
  qed
  then have view: "ipv4_view (mem_at m 14) = ?h" by (simp add: ipv4_view_bytes)
  have n16: "ucast (of_nat (20 + length data) :: u16) = (of_nat (20 + length data) :: u32)"
    using len(1) by (simp add: word_unat_eq_iff unsigned_ucast_eq unsigned_of_nat take_bit_nat_eq_self del: of_nat_add)
  have hl: "(ucast ((0x45 :: u8) AND 0x0F) * 4 :: u32) = 20" by simp
  have le: "14 \<le> sz" using len(2) by (simp add: word_le_nat_alt)
  then have sz: "\<not> sz < 14" "\<not> sz - 14 < IPV4_SIZE"
    using len(2) unat_sub_u32 [OF le] by (simp_all add: word_less_nat_alt IPV4_SIZE_def)
  have h: "version_ihl ?h = 0x45" "protocol ?h = prot" "src_ip ?h = my_ip s" "ip_length ?h = swap_uint16 (of_nat (20 + length data))"
    by (simp_all add: ipv4_header_for_def Let_def)
  have "ethernet_handle_packet m sz t = ipv4_handle_packet (mem_at m 14) (sz - 14) t"
    using sz(1) eth by (simp add: ethernet_handle_packet_def Let_def swap_uint16_def)
  also have "\<dots> = ipv4_dispatch prot (my_ip s) (mem_at m 34) (of_nat (length data)) t"
    unfolding ipv4_handle_packet_def view Let_def h hl swap_swap n16 using sz(2) by simp
  finally show ?thesis .
qed

lemma datagram_dispatched:
  assumes "length (get_mac_address s) = 6" and "length (cache_mac s) = 6" and "20 + length data < 65536"
    and "f = last (wire (ipv4_send dest prot data s))"
  shows "\<exists>mac. f = frame_for mac dest prot data s \<and> length mac = 6" "length f = 34 + length data"
    and "ethernet_handle_packet (mem_of f) (of_nat (length f)) t =
      ipv4_dispatch prot (my_ip s) (mem_of data) (of_nat (length data)) t"
proof -
  obtain W mac where w: "wire (ipv4_send dest prot data s) = wire s @ W @ [frame_for mac dest prot data s]"
    "mac \<in> {cache_mac s, replicate 6 0xFF}"
    using ipv4_send_wire [of dest prot data s] by auto
  then have f: "f = frame_for mac dest prot data s" "length mac = 6" using assms by auto
  then show "\<exists>mac. f = frame_for mac dest prot data s \<and> length mac = 6" by blast
  show l: "length f = 34 + length data" using f assms by (simp add: frame_for_def)
  have "unat (of_nat (length f) :: u32) = length f" by (rule unat_of_nat_u32) (use assms(3) l in simp)
  then have "ethernet_handle_packet (mem_of f) (of_nat (length f)) t =
      ipv4_dispatch prot (my_ip s) (mem_at (mem_of f) 34) (of_nat (length data)) t"
    using f assms l by (intro ipv4_frame_dispatched [where dest = dest and mac = mac]) simp_all
  moreover have "mem_at (mem_of f) 34 = mem_of data"
    using f assms by (simp add: mem_at_mem_of frame_for_def)
  ultimately show "ethernet_handle_packet (mem_of f) (of_nat (length f)) t =
      ipv4_dispatch prot (my_ip s) (mem_of data) (of_nat (length data)) t" by simp
qed

section \<open>Properties of the stack\<close>

text \<open>C18. A datagram of any protocol that fits into a packet arrives as it was sent: the frame that
  \<open>IPv4::send_packet\<close> puts on the wire carries a valid header checksum, and the receiving stack hands
  the same bytes, with their length and the sender's address, to the protocol it was sent for.\<close>

theorem ip_datagram_arrives:
  assumes "length (get_mac_address s) = 6" and "length (cache_mac s) = 6" and "20 + length data < 65536"
    and "f = last (wire (ipv4_send dest prot data s))"
  shows "ethernet_handle_packet (mem_of f) (of_nat (length f)) t =
      ipv4_dispatch prot (my_ip s) (mem_of data) (of_nat (length data)) t \<and>
    calculate_checksum (mem_at (mem_of f) 14) 20 = 0"
proof -
  let ?h = "ipv4_header_for dest prot (length data) s"
  obtain mac where f: "f = frame_for mac dest prot data s" "length mac = 6" using datagram_dispatched(1) [OF assms] by blast
  then have "mem_at (mem_of f) 14 = mem_of (ipv4_bytes ?h @ data)" using assms(1) by (simp add: mem_at_mem_of frame_for_def)
  moreover have "calculate_checksum (mem_of (ipv4_bytes ?h @ data)) 20 = calculate_checksum (mem_of (ipv4_bytes ?h)) 20"
    unfolding calculate_checksum_def by (intro arg_cong [where f = "\<lambda>x. NOT (ucast (fold_sum x))"] sum_words_cong)
      (simp add: mem_of_def nth_append)
  ultimately show ?thesis using datagram_dispatched(3) [OF assms, where t = t] by (simp add: ipv4_header_checksum)
qed

theorem ip_datagram_arrives_witness:
  "let s = net0\<lparr>my_ip := 0x0A000001, rtl_mac := [2, 0, 0, 0, 0, 1]\<rparr>;
       f = last (wire (ipv4_send 0x0A000002 99 [1, 2, 3] s))
   in \<forall>t :: ipv6. ethernet_handle_packet (mem_of f) (of_nat (length f)) t = t"
proof -
  let ?s = "net0\<lparr>my_ip := 0x0A000001, rtl_mac := [2, 0, 0, 0, 0, 1]\<rparr>"
  have "length (get_mac_address ?s) = 6" "length (cache_mac ?s) = 6" "20 + length [1 :: u8, 2, 3] < 65536"
    by (simp_all add: get_mac_address_def net0_def)
  note arrives = ip_datagram_arrives [OF this refl, where dest = "0x0A000002" and prot = 99]
  show ?thesis unfolding Let_def
  proof
    fix t :: ipv6
    show "ethernet_handle_packet (mem_of (last (wire (ipv4_send 0x0A000002 99 [1, 2, 3] ?s))))
        (of_nat (length (last (wire (ipv4_send 0x0A000002 99 [1, 2, 3] ?s))))) t = t"
      using arrives [where t = t] by (simp add: ipv4_dispatch_def)
  qed
qed

definition dhcp_offer :: "u32 \<Rightarrow> u8 list \<Rightarrow> (u8 \<times> u8 list) list \<Rightarrow> u8 list" where
  "dhcp_offer yi mac opts =
     [2, 1, 6, 0] @ replicate 12 0 @ le32_bytes yi @ replicate 8 0 @ mac @ replicate 10 0 @ replicate 192 0 @
     [0x63, 0x82, 0x53, 0x63] @ encode_options opts @ [255]"

lemma mem_at_append: "n = length xs \<Longrightarrow> mem_at (mem_of (xs @ ys)) n = mem_of ys"
  by (simp add: mem_of_append_right)

lemma mem_bytes_prefix: "n = length xs \<Longrightarrow> mem_bytes (mem_of (xs @ ys)) n = xs"
  by (simp add: mem_bytes_take)

lemma le32_at: "n = length xs \<Longrightarrow> le32 (mem_of (xs @ le32_bytes w @ ys)) n = w"
  by (rule le32_of_bytes) (simp_all add: mem_of_def nth_append le32_bytes_def)

lemma le16_at: "n = length xs \<Longrightarrow> le16 (mem_of (xs @ le16_bytes w @ ys)) n = w"
  by (rule le16_of_bytes) (simp_all add: mem_of_def nth_append le16_bytes_def)

lemma dhcp_offer_handled:
  assumes mac: "length (get_mac_address t) = 6" and yi: "yi \<noteq> 0" and opts: "\<forall>opt \<in> set opts. option_ok opt"
    and small: "length (encode_options opts) < 65000"
  defines "data \<equiv> dhcp_offer yi (get_mac_address t) opts"
  shows "dhcp_handle_packet (mem_of data) (of_nat (length data)) t =
    write_string ([10] @ bytes ''[ NETWORK: IP Address Successfully Configured ]'' @ [10])
      (fold apply_option opts (t\<lparr>my_ip := yi\<rparr>))"
proof -
  let ?mac = "get_mac_address t" and ?e = "encode_options opts"
  have len: "length data = 241 + length ?e" using mac by (simp add: data_def dhcp_offer_def)
  have u: "unat (of_nat (241 + length ?e) :: u32) = 241 + length ?e"
    by (rule unat_of_nat_u32) (use small in simp)
  have sz: "\<not> of_nat (length data) < DHCP_SIZE - 312"
    using u by (simp add: len DHCP_SIZE_def word_less_nat_alt del: of_nat_add)
  have "le32 (mem_of (([2, 1, 6, 0] @ replicate 12 0) @ le32_bytes yi @ replicate 8 0 @ ?mac @ replicate 10 0 @
      replicate 192 0 @ [0x63, 0x82, 0x53, 0x63] @ ?e @ [255])) 16 = yi"
    by (rule le32_at) simp
  then have y: "le32 (mem_of data) 16 = yi" by (simp add: data_def dhcp_offer_def)
  define p where "p = [2, 1, 6, 0] @ replicate 12 0 @ le32_bytes yi @ replicate 8 (0 :: u8)"
  have d: "data = p @ ?mac @ (replicate 10 0 @ replicate 192 0 @ [0x63, 0x82, 0x53, 0x63] @ ?e @ [255])" "length p = 28"
    by (simp_all add: data_def dhcp_offer_def p_def)
  have "mem_bytes (mem_at (mem_of data) 28) 6 = ?mac"
    unfolding d(1) by (subst mem_at_append) (use d(2) mac in \<open>simp_all add: mem_bytes_prefix\<close>)
  then have c: "memcmp (mem_bytes (mem_at (mem_of data) 28) 6) ?mac 6 = Some 0"
    using memcmp_total [of 6 ?mac ?mac] memcmp_zero_iff [of ?mac ?mac 6] mac by auto
  define q where "q = p @ ?mac @ replicate 10 0 @ replicate 192 0 @ [0x63, 0x82, 0x53, 0x63 :: u8]"
  have dq: "data = q @ (?e @ [255])" "length q = 240" using mac d(2) by (simp_all add: d(1) q_def)
  have "mem_of data (240 + j) = (?e @ [255]) ! j" if "j < length ?e + 1" for j
    using that by (simp add: dq nth_append mem_of_def)
  then have o: "dhcp_options (mem_of data) (241 + length ?e) 240 s = fold apply_option opts s" for s :: "'a net_scheme"
    by (intro dhcp_options_encode [OF opts]) simp_all
  show ?thesis using sz c y yi o u by (simp add: dhcp_handle_packet_def len del: of_nat_add)
qed

text \<open>C14. A DHCP offer sent by a server on the same wire configures the machine it is addressed to: UDP,
  IPv4 and Ethernet deliver it, the address it offers is taken, and of its options the netmask and
  the router are applied in order, whatever other options surround them.\<close>

theorem dhcp_offer_configures:
  assumes "length (get_mac_address s) = 6" and "length (cache_mac s) = 6"
    and "length (get_mac_address t) = 6" and "yi \<noteq> 0" and "\<forall>opt \<in> set opts. option_ok opt"
    and "length (encode_options opts) < 65000"
    and f: "f = last (wire (udp_send 0xFFFFFFFF 67 68 (dhcp_offer yi (get_mac_address t) opts) s))"
  shows "ethernet_handle_packet (mem_of f) (of_nat (length f)) t =
    write_string ([10] @ bytes ''[ NETWORK: IP Address Successfully Configured ]'' @ [10])
      (fold apply_option opts (t\<lparr>my_ip := yi\<rparr>))"
proof -
  let ?data = "dhcp_offer yi (get_mac_address t) opts"
  have len: "length ?data = 241 + length (encode_options opts)" using assms(3) by (simp add: dhcp_offer_def)
  define hd where "hd = le16_bytes (swap_uint16 67) @ le16_bytes (swap_uint16 68) @
    le16_bytes (swap_uint16 (of_nat (length ?data + 8))) @ le16_bytes 0"
  have h: "length hd = 8" by (simp add: hd_def)
  have f: "f = last (wire (ipv4_send 0xFFFFFFFF 17 (hd @ ?data) s))"
    using f by (simp add: udp_send_def hd_def)
  have "20 + length (hd @ ?data) < 65536" using assms(6) len h by simp
  from datagram_dispatched(3) [OF assms(1,2) this f, where t = t]
  have "ethernet_handle_packet (mem_of f) (of_nat (length f)) t =
      udp_handle_packet (my_ip s) (mem_of (hd @ ?data)) (of_nat (length (hd @ ?data))) t"
    by (simp add: ipv4_dispatch_def)
  also have "\<dots> = dhcp_handle_packet (mem_of ?data) (of_nat (length ?data)) t"
  proof -
    have "unat (of_nat (8 + length ?data) :: u32) = 8 + length ?data"
      by (rule unat_of_nat_u32) (use assms(6) len in simp)
    then have "\<not> of_nat (length (hd @ ?data)) < UDP_SIZE"
      using h by (simp add: UDP_SIZE_def word_less_nat_alt del: of_nat_add)
    moreover have "le16 (mem_of (le16_bytes (swap_uint16 67) @ le16_bytes (swap_uint16 68) @
        (le16_bytes (swap_uint16 (of_nat (length ?data + 8))) @ le16_bytes 0 @ ?data))) 2 = swap_uint16 68"
      by (rule le16_at) simp
    then have "le16 (mem_of (hd @ ?data)) 2 = swap_uint16 68" by (simp add: hd_def)
    moreover have "mem_at (mem_of (hd @ ?data)) 8 = mem_of ?data" using h by (simp add: mem_at_append)
    moreover have "of_nat (length (hd @ ?data)) - UDP_SIZE = of_nat (length ?data)" using h by (simp add: UDP_SIZE_def)
    ultimately show ?thesis by (simp add: udp_handle_packet_def)
  qed
  also have "\<dots> = write_string ([10] @ bytes ''[ NETWORK: IP Address Successfully Configured ]'' @ [10])
      (fold apply_option opts (t\<lparr>my_ip := yi\<rparr>))"
    by (rule dhcp_offer_handled [OF assms(3-6)])
  finally show ?thesis .
qed

definition machine :: "u8 \<Rightarrow> ipv6" where
  "machine n = net.extend (net0\<lparr>rtl_mac := [2, 0, 0, 0, 0, n]\<rparr>)
     \<lparr>connections = [], next_ephemeral_port = 49152, syn_count = 0, last_syn_time = 0, heap_answers = [],
      link_local_addr = replicate 16 0, global_addr = replicate 16 0, has_global_addr = False,
      neighbor_cache = replicate 8 (replicate 6 0), neighbor_addrs = replicate 8 (replicate 16 0), neighbor_count = 0\<rparr>"

theorem dhcp_offer_configures_witness:
  "let f = last (wire (udp_send 0xFFFFFFFF 67 68
        (dhcp_offer 0x0500000A (get_mac_address (machine 2)) [(54, [10, 0, 0, 1]), (1, [255, 255, 255, 0]), (3, [10, 0, 0, 1])])
        (machine 1)));
       t = ethernet_handle_packet (mem_of f) (of_nat (length f)) (machine 2)
   in my_ip t = 0x0500000A \<and> subnet_mask t = 0x00FFFFFF \<and> gateway_ip t = 0x0100000A"
proof -
  let ?opts = "[(54, [10, 0, 0, 1]), (1, [255, 255, 255, 0]), (3, [10, 0, 0, 1])] :: (u8 \<times> u8 list) list"
  have m: "length (get_mac_address (machine n)) = 6" "length (cache_mac (machine n)) = 6" if "n \<noteq> 0" for n
    using that by (simp_all add: machine_def net.defs net0_def get_mac_address_def)
  have o: "\<forall>opt \<in> set ?opts. option_ok opt" "length (encode_options ?opts) < 65000"
    by (simp_all add: option_ok_def encode_options_def)
  have l: "le32 (mem_of [255, 255, 255, 0]) 0 = 0x00FFFFFF" "le32 (mem_of [10, 0, 0, 1]) 0 = 0x0100000A"
    by (simp_all add: le32_def mem_of_def)
  show ?thesis unfolding Let_def
    using dhcp_offer_configures [where s = "machine 1" and t = "machine 2" and yi = "0x0500000A" and opts = ?opts,
        OF _ _ _ _ o refl] m l
    by (simp add: apply_option_def write_string_def)
qed

end
