(* ===== verification/VGA.thy ===== *)
theory VGA
  imports CString Ports
begin

text \<open>
  The text console, \<open>drivers/vga.cpp\<close>: the 80 by 25 screen, four virtual terminals, the scroll-back
  ring of 200 lines and the escape sequences for colors. The screen memory at 0xB8000 is the list
  \<open>screen\<close>; the cursor goes to the display controller through \<open>vports\<close>. Rows, columns and indices are
  naturals: the invariant shows that none of them leaves its array.
\<close>

unbundle bit_operations_syntax

section \<open>State\<close>

record vga =
  terminal_row :: nat
  terminal_column :: nat
  terminal_color :: u8
  screen :: "u16 list"
  current_tty :: nat
  tty_buffers :: "u16 list list"
  tty_rows :: "nat list"
  tty_columns :: "nat list"
  tty_colors :: "u8 list"
  scroll_buffer :: "u8 list list"
  scroll_write_line :: nat
  scroll_view_offset :: nat
  scroll_mode :: bool
  in_escape :: bool
  escape_buffer :: "u8 list"
  escape_index :: nat
  vports :: ports

definition vga_entry_color :: "u8 \<Rightarrow> u8 \<Rightarrow> u8" where
  "vga_entry_color fg bg = fg OR push_bit 4 bg"

definition vga_entry :: "u8 \<Rightarrow> u8 \<Rightarrow> u16" where
  "vga_entry uc color = ucast uc OR push_bit 8 (ucast color)"

definition LIGHT_GREY :: u8 where "LIGHT_GREY = 7"

definition blank_cell :: u16 where
  "blank_cell = vga_entry 0x20 (vga_entry_color LIGHT_GREY 0)"

definition vga_boot :: vga where
  "vga_boot = \<lparr>terminal_row = 0, terminal_column = 0, terminal_color = 0x07, screen = replicate 2000 0,
     current_tty = 0, tty_buffers = replicate 4 (replicate 2000 0), tty_rows = replicate 4 0,
     tty_columns = replicate 4 0, tty_colors = replicate 4 0x07, scroll_buffer = replicate 200 (replicate 80 0),
     scroll_write_line = 0, scroll_view_offset = 0, scroll_mode = False, in_escape = False,
     escape_buffer = replicate 16 0, escape_index = 0, vports = \<lparr>inputs = [], trace = []\<rparr>\<rparr>"

definition vga_initialize :: "vga \<Rightarrow> vga" where
  "vga_initialize s =
     s\<lparr>terminal_row := 0, terminal_column := 0, terminal_color := vga_entry_color LIGHT_GREY 0,
       screen := replicate 2000 blank_cell, tty_buffers := replicate 4 (replicate 2000 blank_cell),
       current_tty := 0, scroll_buffer := replicate 200 (replicate 80 0x20), scroll_write_line := 0,
       scroll_view_offset := 0, scroll_mode := False\<rparr>"

section \<open>Cursor and terminals\<close>

definition put_cursor :: "nat \<Rightarrow> nat \<Rightarrow> ports \<Rightarrow> ports" where
  "put_cursor row col p =
     (let pos = of_nat (row * 80 + col) :: u16
      in outb 0x3D5 (ucast (drop_bit 8 pos AND 0xFF))
           (outb 0x3D4 0x0E (outb 0x3D5 (ucast (pos AND 0xFF)) (outb 0x3D4 0x0F p))))"

definition update_cursor :: "vga \<Rightarrow> vga" where
  "update_cursor s =
     (if terminal_row s \<ge> 25 \<or> terminal_column s \<ge> 80 then s
      else s\<lparr>vports := put_cursor (terminal_row s) (terminal_column s) (vports s)\<rparr>)"

definition switch_tty :: "int \<Rightarrow> vga \<Rightarrow> vga" where
  "switch_tty tty_id s =
     (if tty_id < 0 \<or> tty_id \<ge> 4 \<or> tty_id = int (current_tty s) then s
      else let s1 = s\<lparr>tty_rows := (tty_rows s)[current_tty s := terminal_row s],
                 tty_columns := (tty_columns s)[current_tty s := terminal_column s],
                 tty_colors := (tty_colors s)[current_tty s := terminal_color s],
                 tty_buffers := (tty_buffers s)[current_tty s := screen s]\<rparr>;
               t = nat tty_id;
               s2 = s1\<lparr>current_tty := t, terminal_row := tty_rows s1 ! t, terminal_column := tty_columns s1 ! t,
                 terminal_color := tty_colors s1 ! t, screen := tty_buffers s1 ! t\<rparr>
           in s2\<lparr>vports := put_cursor (terminal_row s2) (terminal_column s2) (vports s2)\<rparr>)"

section \<open>The scroll-back view\<close>

definition add_line_to_buffer :: "u8 list \<Rightarrow> vga \<Rightarrow> vga" where
  "add_line_to_buffer line s =
     s\<lparr>scroll_buffer := (scroll_buffer s)[scroll_write_line s :=
         map (\<lambda>i. if i < length line then line ! i else 0x20) [0..<80]],
       scroll_write_line := (scroll_write_line s + 1) mod 200\<rparr>"

definition history_cells :: "vga \<Rightarrow> u16 list" where
  "history_cells s =
     (let start_line = nat ((int (scroll_write_line s) - int (scroll_view_offset s) - 25 + 200) mod 4294967296 mod 200)
      in map (\<lambda>i. let c = scroll_buffer s ! ((start_line + i div 80) mod 200) ! (i mod 80)
                  in vga_entry (if c = 0 then 0x20 else c) (terminal_color s)) [0..<2000])"

definition render_view :: "vga \<Rightarrow> vga" where
  "render_view s =
     (if \<not> scroll_mode s \<or> current_tty s \<ge> 4 then s
      else s\<lparr>screen := history_cells s, tty_buffers := (tty_buffers s)[current_tty s := history_cells s]\<rparr>)"

definition scroll_message :: "nat \<Rightarrow> u8 list" where
  "scroll_message n =
     bytes ''[SCROLL-'' @ (if n < 100 then [0x30 + of_nat (n div 10), 0x30 + of_nat (n mod 10)] else [0x20, 0x20]) @ bytes '']''"

definition overlay :: "nat \<Rightarrow> u16 list \<Rightarrow> u16 list \<Rightarrow> u16 list" where
  "overlay off cells xs = take off xs @ cells @ drop (off + length cells) xs"

definition scroll_up :: "vga \<Rightarrow> vga" where
  "scroll_up s =
     (if scroll_view_offset s \<ge> 174 then s
      else let s1 = render_view (s\<lparr>scroll_view_offset := scroll_view_offset s + 1, scroll_mode := True\<rparr>)
           in s1\<lparr>screen := overlay 68
                (map (\<lambda>c. vga_entry c (vga_entry_color 0 LIGHT_GREY)) (scroll_message (scroll_view_offset s1))) (screen s1)\<rparr>)"

definition scroll_down :: "vga \<Rightarrow> vga" where
  "scroll_down s =
     (if scroll_view_offset s = 0 then s
      else let s1 = s\<lparr>scroll_view_offset := scroll_view_offset s - 1\<rparr>
           in if scroll_view_offset s1 = 0
              then let s2 = s1\<lparr>scroll_mode := False\<rparr>
                   in if current_tty s2 < 4 then s2\<lparr>screen := tty_buffers s2 ! current_tty s2\<rparr> else s2
              else render_view s1)"

section \<open>Output\<close>

definition set_color :: "u8 \<Rightarrow> vga \<Rightarrow> vga" where
  "set_color color s = s\<lparr>terminal_color := color\<rparr>"

definition put_entry_at :: "u8 \<Rightarrow> u8 \<Rightarrow> nat \<Rightarrow> nat \<Rightarrow> vga \<Rightarrow> vga" where
  "put_entry_at c color x y s =
     (if x \<ge> 80 \<or> y \<ge> 25 \<or> current_tty s \<ge> 4 then s
      else let index = y * 80 + x; entry = vga_entry c color
           in s\<lparr>screen := (screen s)[index := entry],
                tty_buffers := (tty_buffers s)[current_tty s := (tty_buffers s ! current_tty s)[index := entry]]\<rparr>)"

definition scroll :: "vga \<Rightarrow> vga" where
  "scroll s =
     (if terminal_row s < 25 then s
      else s\<lparr>screen := drop 80 (screen s) @ replicate 80 blank_cell, terminal_row := 24\<rparr>)"

text \<open>
  VGA numbers of the ANSI colors; a code that sets one half resets the other. The code is a C int; a
  sequence of up to twelve digits fits the buffer, so the digits are accumulated with wrap-around.
\<close>

definition ansi_fg :: "u32 \<Rightarrow> u8" where
  "ansi_fg n =
     (case map_of (zip [30, 31, 32, 33, 34, 35, 36, 37, 90, 91, 92, 93, 94, 95, 96, 97]
         [0, 4, 2, 6, 1, 5, 3, 7, 8, 12, 10, 14, 9, 13, 11, 15]) n of Some c \<Rightarrow> c | None \<Rightarrow> LIGHT_GREY)"

definition ansi_bg :: "u32 \<Rightarrow> u8" where
  "ansi_bg n =
     (case map_of (zip [40, 41, 42, 43, 44, 45, 46, 47, 100, 101, 102, 103, 104, 105, 106, 107]
         [0, 4, 2, 6, 1, 5, 3, 7, 8, 12, 10, 14, 9, 13, 11, 15]) n of Some c \<Rightarrow> c | None \<Rightarrow> 0)"

definition set_color_from_ansi :: "u32 \<Rightarrow> vga \<Rightarrow> vga" where
  "set_color_from_ansi n s = s\<lparr>terminal_color := vga_entry_color (ansi_fg n) (ansi_bg n)\<rparr>"

fun ansi_codes :: "u8 list \<Rightarrow> u32 \<Rightarrow> bool \<Rightarrow> vga \<Rightarrow> vga" where
  "ansi_codes [] n parsing s = (if parsing then set_color_from_ansi n s else s)"
| "ansi_codes (c # cs) n parsing s =
     (if c \<ge> 0x30 \<and> c \<le> 0x39 then ansi_codes cs (n * 10 + (ucast c - 0x30)) True s
      else if c = 0x3B then ansi_codes cs 0 False (set_color_from_ansi n s)
      else ansi_codes cs n parsing s)"

definition process_ansi_sequence :: "u8 list \<Rightarrow> vga \<Rightarrow> vga" where
  "process_ansi_sequence sequence s =
     (if length sequence < 3 \<or> sequence ! 0 \<noteq> 0x1B \<or> sequence ! 1 \<noteq> 0x5B then s
      else if last sequence = 0x6D then ansi_codes (butlast (drop 2 sequence)) 0 False s
      else s)"

definition current_line :: "vga \<Rightarrow> u8 list" where
  "current_line s =
     cstr (map (\<lambda>i. let index = terminal_row s * 80 + i in if index < 2000 then ucast (screen s ! index AND 0xFF) else 0) [0..<80])"

definition is_final :: "u8 \<Rightarrow> bool" where
  "is_final c \<longleftrightarrow> (c \<ge> 0x41 \<and> c \<le> 0x5A) \<or> (c \<ge> 0x61 \<and> c \<le> 0x7A) \<or> c = 0x40 \<or> c = 0x60"

definition escape_char :: "u8 \<Rightarrow> vga \<Rightarrow> vga" where
  "escape_char c s =
     (let s1 = s\<lparr>escape_buffer := (escape_buffer s)[escape_index s := c], escape_index := escape_index s + 1\<rparr> in
      if escape_index s1 \<ge> 15 then s1\<lparr>in_escape := False\<rparr>
      else if is_final c then (process_ansi_sequence (take (escape_index s1) (escape_buffer s1)) s1)\<lparr>in_escape := False\<rparr>
      else s1)"

definition print_char :: "u8 \<Rightarrow> vga \<Rightarrow> vga" where
  "print_char c s =
     (if c = 0x0A
      then (add_line_to_buffer (current_line s) s)\<lparr>terminal_column := 0, terminal_row := terminal_row s + 1\<rparr>
      else if c = 0x08
      then (if terminal_column s > 0 then s\<lparr>terminal_column := terminal_column s - 1\<rparr> else s)
      else if c \<ge> 32
      then let s1 = put_entry_at c (terminal_color s) (terminal_column s) (terminal_row s) s
           in if terminal_column s + 1 \<ge> 80 then s1\<lparr>terminal_column := 0, terminal_row := terminal_row s + 1\<rparr>
              else s1\<lparr>terminal_column := terminal_column s + 1\<rparr>
      else s)"

definition put_char :: "u8 \<Rightarrow> vga \<Rightarrow> vga" where
  "put_char c s =
     (if scroll_mode s then (if c = 0x0A then add_line_to_buffer (current_line s) s else s)
      else if c = 0x1B then s\<lparr>in_escape := True, escape_buffer := (escape_buffer s)[0 := c], escape_index := 1\<rparr>
      else if in_escape s then escape_char c s
      else update_cursor (scroll (print_char c s)))"

definition vga_write :: "u8 list \<Rightarrow> vga \<Rightarrow> vga" where
  "vga_write data s = fold put_char data s"

definition vga_write_string :: "u8 list \<Rightarrow> vga \<Rightarrow> vga" where
  "vga_write_string data s = fold put_char (cstr data) s"

section \<open>The invariant\<close>

definition vga_ok :: "vga \<Rightarrow> bool" where
  "vga_ok s \<longleftrightarrow> terminal_row s < 25 \<and> terminal_column s < 80 \<and> length (screen s) = 2000
     \<and> current_tty s < 4 \<and> length (tty_buffers s) = 4 \<and> list_all (\<lambda>b. length b = 2000) (tty_buffers s)
     \<and> length (tty_rows s) = 4 \<and> list_all (\<lambda>r. r < 25) (tty_rows s)
     \<and> length (tty_columns s) = 4 \<and> list_all (\<lambda>c. c < 80) (tty_columns s) \<and> length (tty_colors s) = 4
     \<and> length (scroll_buffer s) = 200 \<and> list_all (\<lambda>l. length l = 80) (scroll_buffer s)
     \<and> scroll_write_line s < 200 \<and> scroll_view_offset s \<le> 174 \<and> (scroll_mode s \<longleftrightarrow> scroll_view_offset s > 0)
     \<and> length (escape_buffer s) = 16 \<and> (in_escape s \<longrightarrow> 1 \<le> escape_index s \<and> escape_index s < 15)"

text \<open>What any sequence of calls of the driver's operations can reach after boot.\<close>

inductive vga_reachable :: "vga \<Rightarrow> bool" where
  reach_init: "vga_reachable (vga_initialize vga_boot)"
| reach_put: "vga_reachable s \<Longrightarrow> vga_reachable (put_char c s)"
| reach_entry: "vga_reachable s \<Longrightarrow> vga_reachable (put_entry_at c color x y s)"
| reach_color: "vga_reachable s \<Longrightarrow> vga_reachable (set_color color s)"
| reach_switch: "vga_reachable s \<Longrightarrow> vga_reachable (switch_tty t s)"
| reach_up: "vga_reachable s \<Longrightarrow> vga_reachable (scroll_up s)"
| reach_down: "vga_reachable s \<Longrightarrow> vga_reachable (scroll_down s)"
| reach_line: "vga_reachable s \<Longrightarrow> vga_reachable (add_line_to_buffer line s)"
| reach_ansi: "vga_reachable s \<Longrightarrow> vga_reachable (process_ansi_sequence sq s)"
| reach_again: "vga_reachable s \<Longrightarrow> vga_reachable (vga_initialize s)"

lemma list_all_update: "list_all P xs \<Longrightarrow> P x \<Longrightarrow> list_all P (xs[i := x])"
  by (induction xs arbitrary: i) (auto split: nat.split)

lemma lengths_at: "list_all (\<lambda>b. length b = n) bs \<Longrightarrow> i < length bs \<Longrightarrow> length (bs ! i) = n"
  by (simp add: list_all_length)

lemma vga_ok_initialize: "vga_ok (vga_initialize vga_boot)"
  by (simp add: vga_ok_def vga_initialize_def vga_boot_def list_all_length)

lemma vga_ok_reinitialize: "vga_ok s \<Longrightarrow> vga_ok (vga_initialize s)"
  by (simp add: vga_ok_def vga_initialize_def list_all_length)

lemma vga_ok_color: "vga_ok s \<Longrightarrow> vga_ok (set_color color s)"
  by (simp add: vga_ok_def set_color_def)

lemma vga_ok_entry: "vga_ok s \<Longrightarrow> vga_ok (put_entry_at c color x y s)"
  by (simp add: vga_ok_def put_entry_at_def Let_def list_all_update lengths_at)

lemma vga_ok_switch: "vga_ok s \<Longrightarrow> vga_ok (switch_tty t s)"
  by (auto simp: vga_ok_def switch_tty_def Let_def nth_list_update list_all_length)

lemma vga_ok_line: "vga_ok s \<Longrightarrow> vga_ok (add_line_to_buffer line s)"
  by (simp add: vga_ok_def add_line_to_buffer_def list_all_update)

lemma length_history_cells [simp]: "length (history_cells s) = 2000"
  by (simp add: history_cells_def Let_def)

lemma length_scroll_message [simp]: "length (scroll_message n) = 11"
  by (simp add: scroll_message_def)

lemma length_overlay [simp]: "off + length cells \<le> length xs \<Longrightarrow> length (overlay off cells xs) = length xs"
  by (simp add: overlay_def)

lemma vga_ok_up: "vga_ok s \<Longrightarrow> vga_ok (scroll_up s)"
  by (simp add: vga_ok_def scroll_up_def render_view_def Let_def list_all_update)

lemma vga_ok_down: "vga_ok s \<Longrightarrow> vga_ok (scroll_down s)"
  by (auto simp: vga_ok_def scroll_down_def render_view_def Let_def list_all_update lengths_at)

lemma vga_ok_ansi_codes: "vga_ok s \<Longrightarrow> vga_ok (ansi_codes cs n parsing s)"
  by (induction cs n parsing s rule: ansi_codes.induct) (auto simp: set_color_from_ansi_def vga_ok_def)

lemma vga_ok_ansi: "vga_ok s \<Longrightarrow> vga_ok (process_ansi_sequence sq s)"
  by (simp add: process_ansi_sequence_def vga_ok_ansi_codes)

lemma vga_ok_cursor: "vga_ok (update_cursor s) = vga_ok s"
  by (simp add: update_cursor_def vga_ok_def)

lemma vga_ok_print_scroll: "vga_ok s \<Longrightarrow> vga_ok (scroll (print_char c s))"
  using vga_ok_entry [of s c "terminal_color s" "terminal_column s" "terminal_row s"]
    vga_ok_line [of s "current_line s"]
  by (auto simp: vga_ok_def scroll_def print_char_def Let_def add_line_to_buffer_def put_entry_at_def)

lemma vga_ok_stop_escape: "vga_ok s \<Longrightarrow> vga_ok (s\<lparr>in_escape := False\<rparr>)"
  by (simp add: vga_ok_def)

lemma vga_ok_escape: "vga_ok s \<Longrightarrow> in_escape s \<Longrightarrow> vga_ok (escape_char c s)"
proof -
  assume ok: "vga_ok s" "in_escape s"
  define s1 where "s1 = s\<lparr>escape_buffer := (escape_buffer s)[escape_index s := c], escape_index := escape_index s + 1\<rparr>"
  have "escape_index s1 < 15 \<Longrightarrow> vga_ok s1" and "vga_ok (s1\<lparr>in_escape := False\<rparr>)"
    using ok by (simp_all add: vga_ok_def s1_def)
  then show "vga_ok (escape_char c s)"
    unfolding escape_char_def Let_def s1_def [symmetric] by (auto simp: vga_ok_stop_escape vga_ok_ansi)
qed

lemma vga_ok_put: "vga_ok s \<Longrightarrow> vga_ok (put_char c s)"
  by (simp add: put_char_def vga_ok_line vga_ok_escape vga_ok_cursor vga_ok_print_scroll)
    (simp add: vga_ok_def)

lemmas vga_ok_intros = vga_ok_put vga_ok_entry vga_ok_color vga_ok_switch vga_ok_up vga_ok_down
  vga_ok_line vga_ok_ansi vga_ok_reinitialize

lemma vga_reachable_ok: "vga_reachable s \<Longrightarrow> vga_ok s"
  by (induction rule: vga_reachable.induct) (simp_all add: vga_ok_initialize vga_ok_intros)

text \<open>C20. In every state the console reaches from boot by printing, terminal switches, scrolling, color
  changes and re-initialisation, the cursor is on the screen, every array has its C length, the saved
  cursors and the scroll-back indices are in range, scroll mode is on exactly while the view is off the
  live screen, and the escape buffer has room for the next character.\<close>

theorem vga_invariant: "vga_reachable s \<Longrightarrow> vga_ok s"
  by (rule vga_reachable_ok)

theorem vga_invariant_witness: "vga_ok (scroll_up (put_char 0x41 (vga_initialize vga_boot)))"
  by (intro vga_invariant reach_up reach_put reach_init)

section \<open>Printing\<close>

text \<open>
  What the console promises: text goes onto a paper of 80 columns that grows by blank lines, and the
  screen is the last 25 lines of it. A paper is its cells and the position of the pen.
\<close>

definition paper_char :: "u8 \<Rightarrow> u8 \<Rightarrow> u16 list \<times> nat \<Rightarrow> u16 list \<times> nat" where
  "paper_char color c p =
     (let cells = (if c \<ge> 32 then (fst p)[snd p := vga_entry c color] else fst p);
          pos = (if c = 0x0A then (snd p div 80 + 1) * 80
                 else if c = 0x08 then (if snd p mod 80 > 0 then snd p - 1 else snd p)
                 else if c \<ge> 32 then snd p + 1 else snd p)
      in (if pos < length cells then cells else cells @ replicate 80 blank_cell, pos))"

definition live :: "vga \<Rightarrow> bool" where
  "live s \<longleftrightarrow> \<not> scroll_mode s \<and> \<not> in_escape s"

definition on_screen :: "vga \<Rightarrow> u16 list \<times> nat \<Rightarrow> bool" where
  "on_screen s p \<longleftrightarrow> (\<exists>k. length (fst p) = 80 * k + 2000 \<and> screen s = drop (80 * k) (fst p)
     \<and> snd p = 80 * k + (terminal_row s * 80 + terminal_column s))"

lemma cursor_fields [simp]:
  "screen (update_cursor s) = screen s" "terminal_row (update_cursor s) = terminal_row s"
  "terminal_column (update_cursor s) = terminal_column s" "terminal_color (update_cursor s) = terminal_color s"
  "live (update_cursor s) = live s"
  by (simp_all add: update_cursor_def live_def)

lemma put_char_live: "live s \<Longrightarrow> c \<noteq> 0x1B \<Longrightarrow> put_char c s = update_cursor (scroll (print_char c s))"
  by (simp add: put_char_def live_def)

lemma put_char_keeps:
  "live s \<Longrightarrow> c \<noteq> 0x1B \<Longrightarrow> live (put_char c s) \<and> terminal_color (put_char c s) = terminal_color s"
  by (simp add: put_char_live) (simp add: live_def scroll_def print_char_def add_line_to_buffer_def put_entry_at_def Let_def)

lemma word8_cases [case_names newline backspace print control]:
  obtains "(c :: u8) = 0x0A" | "c = 0x08" | "32 \<le> c" "c \<noteq> 0x0A" "c \<noteq> 0x08" | "\<not> 32 \<le> c" "c \<noteq> 0x0A" "c \<noteq> 0x08"
  by (cases "c = 0x0A"; cases "c = 0x08"; cases "32 \<le> c") auto

text \<open>Scrolling the screen is one more blank line on the paper.\<close>

lemma on_screen_scroll:
  assumes "length cells = 80 * k + 2000" and "screen s = drop (80 * k) cells"
    and "terminal_row s \<le> 25" and "terminal_row s = 25 \<longrightarrow> terminal_column s = 0"
    and "pos = 80 * k + (terminal_row s * 80 + terminal_column s)" and "terminal_column s < 80"
  shows "on_screen (scroll s) (if pos < length cells then cells else cells @ replicate 80 blank_cell, pos)"
proof (cases "terminal_row s < 25")
  case True
  then have "pos < length cells" using assms by simp
  then show ?thesis using assms True by (auto simp: on_screen_def scroll_def)
next
  case False
  then have row: "terminal_row s = 25" "terminal_column s = 0" using assms by auto
  have "drop (80 * (k + 1)) (cells @ replicate 80 blank_cell) = drop 80 (screen s) @ replicate 80 blank_cell"
    using assms by (simp add: add.commute)
  then show ?thesis using assms row
    by (auto simp: on_screen_def scroll_def intro!: exI [of _ "k + 1"])
qed

lemma on_screen_put:
  assumes ok: "vga_ok s" and live: "live s" "c \<noteq> 0x1B" and scr: "on_screen s p"
  shows "on_screen (put_char c s) (paper_char (terminal_color s) c p)"
proof -
  obtain cells pos where p: "p = (cells, pos)" by force
  obtain k where k: "length cells = 80 * k + 2000" "screen s = drop (80 * k) cells"
    "pos = 80 * k + (terminal_row s * 80 + terminal_column s)"
    using scr p by (auto simp: on_screen_def)
  have b: "terminal_row s < 25" "terminal_column s < 80" "current_tty s < 4" using ok by (auto simp: vga_ok_def)
  have pd: "pos div 80 = k + terminal_row s" "pos mod 80 = terminal_column s" using k(3) b(2) by auto
  have "on_screen (scroll (print_char c s)) (paper_char (terminal_color s) c p)"
    unfolding paper_char_def Let_def p fst_conv snd_conv
    by (rule on_screen_scroll [where k = k])
      (cases c rule: word8_cases; use k b pd in \<open>auto simp: print_char_def Let_def add_line_to_buffer_def
        put_entry_at_def drop_update_swap\<close>)+
  then show ?thesis using live by (simp add: put_char_live on_screen_def)
qed

lemma on_screen_write:
  "vga_ok s \<Longrightarrow> live s \<Longrightarrow> 0x1B \<notin> set cs \<Longrightarrow> on_screen s p
     \<Longrightarrow> on_screen (vga_write cs s) (fold (paper_char (terminal_color s)) cs p)"
proof (induction cs arbitrary: s p)
  case Nil
  then show ?case by (simp add: vga_write_def)
next
  case (Cons c cs)
  then have "live (put_char c s)" "terminal_color (put_char c s) = terminal_color s"
    using put_char_keeps [of s c] by auto
  with Cons show ?case
    using Cons.IH [of "put_char c s" "paper_char (terminal_color s) c p"]
    by (simp add: vga_write_def vga_ok_put on_screen_put)
qed

lemma on_screen_self: "vga_ok s \<Longrightarrow> on_screen s (screen s, terminal_row s * 80 + terminal_column s)"
  by (auto simp: on_screen_def vga_ok_def intro: exI [of _ 0])

lemma on_screen_window:
  "on_screen s p \<Longrightarrow> screen s = drop (length (fst p) - 2000) (fst p)
     \<and> terminal_row s * 80 + terminal_column s = snd p - (length (fst p) - 2000)"
  by (auto simp: on_screen_def)

text \<open>C19. The console is a window onto a paper: writing any text without escape characters to a console
  that shows its live view leaves on the screen the last 25 lines of the paper on which the text continues
  at the cursor (line feeds, backspaces, wrapping at column 80 and scrolling at the last row included),
  in the current color, with the cursor at the pen.\<close>

theorem vga_prints_paper:
  assumes "vga_reachable s" and "live s" and "0x1B \<notin> set cs"
  defines "paper \<equiv> fold (paper_char (terminal_color s)) cs (screen s, terminal_row s * 80 + terminal_column s)"
  shows "screen (vga_write cs s) = drop (length (fst paper) - 2000) (fst paper)
    \<and> terminal_row (vga_write cs s) * 80 + terminal_column (vga_write cs s) = snd paper - (length (fst paper) - 2000)"
proof -
  have "vga_ok s" using assms(1) by (rule vga_reachable_ok)
  then show ?thesis unfolding paper_def
    by (intro on_screen_window on_screen_write on_screen_self) (use assms in simp_all)
qed

lemma live_boot: "live (vga_initialize vga_boot)"
  by (simp add: live_def vga_initialize_def vga_boot_def)

theorem vga_prints_paper_witness:
  "terminal_row (vga_write [0x41, 0x0A, 0x42] (vga_initialize vga_boot)) * 80
     + terminal_column (vga_write [0x41, 0x0A, 0x42] (vga_initialize vga_boot)) = 81"
  using vga_prints_paper [OF reach_init live_boot, of "[0x41, 0x0A, 0x42]"]
  by (simp add: paper_char_def vga_initialize_def vga_boot_def)

text \<open>Looking at the history destroys the live screen: scrolling up by one and back down leaves the
  window of the history that ends one line early, rendered in the current color, whatever was on the
  screen; the cursor stays and output continues from there.\<close>

lemma vga_scroll_view_lost:
  assumes "vga_ok s" and "scroll_view_offset s = 0"
  shows "screen (scroll_down (scroll_up (s\<lparr>screen := cells\<rparr>))) = history_cells (s\<lparr>scroll_view_offset := 1\<rparr>)
    \<and> live (scroll_down (scroll_up s)) = (\<not> in_escape s)
    \<and> terminal_row (scroll_down (scroll_up s)) = terminal_row s
    \<and> terminal_column (scroll_down (scroll_up s)) = terminal_column s"
  using assms
  by (simp add: vga_ok_def scroll_up_def scroll_down_def render_view_def Let_def live_def history_cells_def)

lemma vga_scroll_view_lost_example:
  "screen (scroll_down (scroll_up ((vga_initialize vga_boot)\<lparr>screen := replicate 2000 0x0741\<rparr>))) ! 0 = blank_cell"
proof -
  have "vga_ok (vga_initialize vga_boot)" "scroll_view_offset (vga_initialize vga_boot) = 0"
    by (simp_all add: vga_ok_initialize) (simp add: vga_initialize_def)
  from vga_scroll_view_lost [OF this, of "replicate 2000 0x0741"] show ?thesis
    by (simp add: history_cells_def Let_def vga_initialize_def blank_cell_def)
qed

end
