(* ===== verification/Keyboard.thy ===== *)
theory Keyboard
  imports Ports
begin

text \<open>
  The PS/2 keyboard, \<open>drivers/keyboard.cpp\<close>: scan codes to characters, the modifier keys, the console
  hot keys and the delivery of a character to the installed input handler or to the shell. What a scan
  code makes the driver call is a list of \<open>key_event\<close>s; \<open>'h\<close> names the handlers that can be installed.
\<close>

unbundle bit_operations_syntax

section \<open>State\<close>

datatype 'h input_handler = Shell_input | Dummy_handler | Handler 'h

record 'h keyboard =
  shift_pressed :: bool
  ctrl_pressed :: bool
  alt_pressed :: bool
  e0_escape :: bool
  current_input_handler :: "'h input_handler"

datatype 'h key_event = Scroll_up | Scroll_down | Switch_tty int | Signal nat | To_shell u8 | To_handler 'h u8

definition keyboard0 :: "'h keyboard" where
  "keyboard0 = \<lparr>shift_pressed = False, ctrl_pressed = False, alt_pressed = False, e0_escape = False,
     current_input_handler = Shell_input\<rparr>"

definition is_ctrl_pressed :: "'h keyboard \<Rightarrow> bool" where
  "is_ctrl_pressed k = ctrl_pressed k"

definition set_input_handler :: "'h input_handler \<Rightarrow> 'h keyboard \<Rightarrow> 'h keyboard" where
  "set_input_handler h k = k\<lparr>current_input_handler := h\<rparr>"

definition set_dummy_handler :: "'h keyboard \<Rightarrow> 'h keyboard" where
  "set_dummy_handler k = k\<lparr>current_input_handler := Dummy_handler\<rparr>"

definition kbd_us :: "u8 list" where
  "kbd_us = [0, 27] @ bytes ''1234567890-='' @ [8, 9] @ bytes ''qwertyuiop[]'' @ [10, 0] @ bytes ''asdfghjkl;''
     @ [39, 96, 0, 92] @ bytes ''zxcvbnm,./'' @ [0, 42, 0, 32, 0]"

definition kbd_us_shift :: "u8 list" where
  "kbd_us_shift = [0, 27] @ bytes ''!@#$%^&*()_+'' @ [8, 9] @ bytes ''QWERTYUIOP{}'' @ [10, 0] @ bytes ''ASDFGHJKL:''
     @ [34, 126, 0, 124] @ bytes ''ZXCVBNM<>?'' @ [0, 42, 0, 32, 0]"

section \<open>Scan codes\<close>

definition send_char :: "u8 \<Rightarrow> 'h keyboard \<Rightarrow> 'h key_event list" where
  "send_char c k =
     (case current_input_handler k of Shell_input \<Rightarrow> [To_shell c] | Dummy_handler \<Rightarrow> [] | Handler h \<Rightarrow> [To_handler h c])"

definition extended_key :: "bool \<Rightarrow> u8 \<Rightarrow> 'h keyboard \<Rightarrow> 'h key_event list" where
  "extended_key nano_running sc k =
     (if sc = 0x48 then (if ctrl_pressed k then (if nano_running then [] else [Scroll_up]) else [To_shell 0x11])
      else if sc = 0x50 then (if ctrl_pressed k then (if nano_running then [] else [Scroll_down]) else [To_shell 0x12])
      else [])"

definition key_char :: "u8 \<Rightarrow> 'h keyboard \<Rightarrow> 'h key_event list" where
  "key_char sc k =
     (if sc AND 0x80 \<noteq> 0 then []
      else if unat sc < length kbd_us
      then let c = (if shift_pressed k then kbd_us_shift else kbd_us) ! unat sc
           in if c \<noteq> 0 then send_char c k else []
      else [])"

definition handle_scancode :: "bool \<Rightarrow> u8 \<Rightarrow> 'h keyboard \<Rightarrow> 'h keyboard \<times> 'h key_event list" where
  "handle_scancode nano_running sc k =
     (if sc = 0x2A \<or> sc = 0x36 then (k\<lparr>shift_pressed := True\<rparr>, [])
      else if sc = 0xAA \<or> sc = 0xB6 then (k\<lparr>shift_pressed := False\<rparr>, [])
      else if sc = 0xE0 then (k\<lparr>e0_escape := True\<rparr>, [])
      else if sc = 0x1D then (k\<lparr>ctrl_pressed := True, e0_escape := False\<rparr>, [])
      else if sc = 0x9D then (k\<lparr>ctrl_pressed := False, e0_escape := False\<rparr>, [])
      else if e0_escape k then (k\<lparr>e0_escape := False\<rparr>, extended_key nano_running sc k)
      else if sc = 0x38 then (k\<lparr>alt_pressed := True\<rparr>, [])
      else if sc = 0xB8 then (k\<lparr>alt_pressed := False\<rparr>, [])
      else if alt_pressed k \<and> sc \<ge> 0x3B \<and> sc \<le> 0x3E then (k, [Switch_tty (uint sc - 0x3B)])
      else let k1 = k\<lparr>e0_escape := False\<rparr>
           in if ctrl_pressed k1 \<and> sc = 0x2E then (k1, [Signal 2])
              else (k1, key_char sc k1))"

definition keyboard_callback :: "bool \<Rightarrow> 'h keyboard \<Rightarrow> ports \<Rightarrow> 'h keyboard \<times> 'h key_event list \<times> ports" where
  "keyboard_callback nano_running k io =
     (let (sc, io1) = inb 0x60 io
      in if sc \<noteq> 0 \<and> sc \<noteq> 0xFF then let (k1, es) = handle_scancode nano_running sc k in (k1, es, io1)
         else (k, [], io1))"

text \<open>One interrupt per scan code the controller delivers.\<close>

fun keyboard_irqs :: "bool \<Rightarrow> nat \<Rightarrow> 'h keyboard \<Rightarrow> ports \<Rightarrow> 'h keyboard \<times> 'h key_event list \<times> ports" where
  "keyboard_irqs nano 0 k io = (k, [], io)"
| "keyboard_irqs nano (Suc n) k io =
     (let (k1, e, io1) = keyboard_callback nano k io; (k2, es, io2) = keyboard_irqs nano n k1 io1 in (k2, e @ es, io2))"

fun scan_all :: "bool \<Rightarrow> u8 list \<Rightarrow> 'h keyboard \<Rightarrow> 'h keyboard \<times> 'h key_event list" where
  "scan_all nano [] k = (k, [])"
| "scan_all nano (sc # scs) k =
     (let (k1, e) = handle_scancode nano sc k; (k2, es) = scan_all nano scs k1 in (k2, e @ es))"

section \<open>Typing\<close>

lemma length_kbd [simp]: "length kbd_us = 59" "length kbd_us_shift = 59"
  by (simp_all add: kbd_us_def kbd_us_shift_def)

lemma scan_all_append:
  "scan_all nano (xs @ ys) k =
     (fst (scan_all nano ys (fst (scan_all nano xs k))),
      snd (scan_all nano xs k) @ snd (scan_all nano ys (fst (scan_all nano xs k))))"
  by (induction xs arbitrary: k) (simp_all add: split_beta Let_def)

lemma irqs_scan_all:
  "inputs io = map ucast scs @ rest \<Longrightarrow> \<forall>sc\<in>set scs. sc \<noteq> 0 \<and> sc \<noteq> 0xFF
     \<Longrightarrow> \<exists>io'. keyboard_irqs nano (length scs) k io = (fst (scan_all nano scs k), snd (scan_all nano scs k), io') \<and> inputs io' = rest"
proof (induction scs arbitrary: k io)
  case Nil
  then show ?case by simp
next
  case (Cons sc scs)
  obtain io1 where "inb 0x60 io = (sc, io1)" "inputs io1 = map ucast scs @ rest"
    using Cons.prems(1) by (simp add: inb_def next_input_def ucast_down_ucast_id is_down)
  with Cons.prems Cons.IH [of io1 "fst (handle_scancode nano sc k)"] show ?case
    by (auto simp: keyboard_callback_def split_beta Let_def)
qed

text \<open>A key and the shift key around it: make codes and break codes.\<close>

definition stroke :: "bool \<times> u8 \<Rightarrow> u8 list" where
  "stroke p = (if fst p then [0x2A, snd p, snd p OR 0x80, 0xAA] else [snd p, snd p OR 0x80])"

text \<open>The key of the US layout for a character.\<close>

definition key_for :: "u8 \<Rightarrow> (bool \<times> u8) option" where
  "key_for c =
     (case map_of (zip (drop 1 kbd_us) [1..<59]) c of Some i \<Rightarrow> Some (False, of_nat i)
      | None \<Rightarrow> map_option (\<lambda>i. (True, of_nat i)) (map_of (zip (drop 1 kbd_us_shift) [1..<59]) c))"

definition type_text :: "u8 list \<Rightarrow> u8 list" where
  "type_text cs = concat (map (\<lambda>c. case key_for c of None \<Rightarrow> [] | Some p \<Rightarrow> stroke p) cs)"

definition idle :: "'h keyboard \<Rightarrow> bool" where
  "idle k \<longleftrightarrow> \<not> shift_pressed k \<and> \<not> ctrl_pressed k \<and> \<not> alt_pressed k \<and> \<not> e0_escape k"

definition good_stroke :: "u8 \<Rightarrow> bool \<times> u8 \<Rightarrow> bool" where
  "good_stroke c p \<longleftrightarrow> c \<noteq> 0 \<and> unat (snd p) < 59 \<and> (if fst p then kbd_us_shift else kbd_us) ! unat (snd p) = c
     \<and> snd p AND 0x80 = 0 \<and> (snd p OR 0x80) AND 0x80 \<noteq> 0 \<and> snd p \<notin> {0, 0xFF, 0x2A, 0x36, 0xAA, 0xB6, 0xE0, 0x1D, 0x9D, 0x38, 0xB8}
     \<and> (snd p OR 0x80) \<notin> {0, 0xFF, 0x2A, 0x36, 0xAA, 0xB6, 0xE0, 0x1D, 0x9D, 0x38, 0xB8}"

lemma key_codes:
  "list_all (\<lambda>i. (of_nat i :: u8) AND 0x80 = 0 \<and> (of_nat i OR 0x80 :: u8) AND 0x80 \<noteq> 0
     \<and> (i \<notin> {0, 0x2A, 0x36, 0x1D, 0x38} \<longrightarrow>
        (of_nat i :: u8) \<notin> {0, 0xFF, 0x2A, 0x36, 0xAA, 0xB6, 0xE0, 0x1D, 0x9D, 0x38, 0xB8}
        \<and> (of_nat i OR 0x80 :: u8) \<notin> {0, 0xFF, 0x2A, 0x36, 0xAA, 0xB6, 0xE0, 0x1D, 0x9D, 0x38, 0xB8})) [0..<59]"
  by (simp add: upt_rec)

lemma modifier_slots:
  "i \<in> {0, 0x2A, 0x36, 0x1D, 0x38} \<Longrightarrow> kbd_us ! i = 0 \<and> kbd_us_shift ! i = 0"
  by (auto simp: kbd_us_def kbd_us_shift_def bytes_def)

lemma good_stroke_nth:
  assumes "i < 59" and "(if sh then kbd_us_shift else kbd_us) ! i = c" and "c \<noteq> 0"
  shows "good_stroke c (sh, of_nat i)"
proof -
  have "i \<notin> {0, 0x2A, 0x36, 0x1D, 0x38}" using modifier_slots assms by (metis (full_types))
  moreover have "unat (of_nat i :: u8) = i" using assms(1) by (simp add: unsigned_of_nat take_bit_nat_eq_self)
  ultimately show ?thesis using key_codes assms
    by (simp only: good_stroke_def list_all_iff fst_conv snd_conv set_upt) auto
qed

lemma zip_drop_Suc:
  assumes "(c, i) \<in> set (zip (drop 1 xs) [1..<length xs])"
  shows "i < length xs \<and> xs ! i = c"
  using assms by (auto simp: in_set_zip)

lemma key_for_good:
  assumes "c \<noteq> 0" and "c \<in> set (drop 1 kbd_us) \<union> set (drop 1 kbd_us_shift)"
  obtains p where "key_for c = Some p" "good_stroke c p"
proof (cases "map_of (zip (drop 1 kbd_us) [1..<59]) c")
  case (Some i)
  then have "i < 59 \<and> kbd_us ! i = c" using zip_drop_Suc [of c i kbd_us] by (auto dest: map_of_SomeD)
  then show ?thesis using that Some assms good_stroke_nth [of i False c] by (simp add: key_for_def)
next
  case None
  then have "c \<notin> set (drop 1 kbd_us)" by (simp add: map_of_zip_is_None)
  then have "c \<in> set (drop 1 kbd_us_shift)" using assms by blast
  then obtain i where i: "map_of (zip (drop 1 kbd_us_shift) [1..<59]) c = Some i"
    by (cases "map_of (zip (drop 1 kbd_us_shift) [1..<59]) c") (simp_all add: map_of_zip_is_None)
  then have key: "key_for c = Some (True, of_nat i)" using None by (simp only: key_for_def option.case option.map)
  from i have "i < 59 \<and> kbd_us_shift ! i = c" using zip_drop_Suc [of c i kbd_us_shift] by (auto dest: map_of_SomeD)
  then show ?thesis using that key assms good_stroke_nth [of i True c] by simp
qed

text \<open>The printable ASCII characters, backspace, tab, line feed and escape are on the keyboard.\<close>

definition typable :: "u8 \<Rightarrow> bool" where
  "typable c \<longleftrightarrow> c \<in> {8, 9, 10, 27} \<or> 32 \<le> c \<and> c \<le> 126"

lemma ascii_on_keyboard:
  "list_all (\<lambda>n. (of_nat n :: u8) \<in> set (drop 1 kbd_us) \<union> set (drop 1 kbd_us_shift)) [32..<127]"
  by (simp add: upt_rec kbd_us_def kbd_us_shift_def bytes_def)

lemma typable_key:
  assumes "typable c"
  obtains p where "key_for c = Some p" "good_stroke c p"
proof -
  have "c \<in> set (drop 1 kbd_us) \<union> set (drop 1 kbd_us_shift)"
  proof (cases "32 \<le> c \<and> c \<le> 126")
    case True
    then have "32 \<le> unat c" "unat c < 127" by (simp_all add: word_le_nat_alt)
    then have "unat c \<in> set [32..<127]" unfolding set_upt by (simp only: atLeastLessThan_iff)
    then show ?thesis using ascii_on_keyboard unfolding list_all_iff by (metis unsigned_0 word_unat_eq_iff of_nat_unat ucast_id)
  next
    case False
    then show ?thesis using assms by (auto simp: typable_def kbd_us_def bytes_def)
  qed
  moreover have "c \<noteq> 0" using assms by (auto simp: typable_def)
  ultimately show ?thesis using key_for_good that by blast
qed

lemma good_stroke_sends:
  assumes "good_stroke c p" and "idle k"
  shows "scan_all nano (stroke p) k = (k, send_char c k)"
  using assms by (cases "fst p") (auto simp: stroke_def handle_scancode_def good_stroke_def idle_def key_char_def send_char_def Let_def)

lemma scan_typed:
  "list_all typable cs \<Longrightarrow> idle k
     \<Longrightarrow> scan_all nano (type_text cs) k = (k, concat (map (\<lambda>c. send_char c k) cs))"
proof (induction cs)
  case Nil
  then show ?case by (simp add: type_text_def)
next
  case (Cons c cs)
  then obtain p where p: "key_for c = Some p" "good_stroke c p" using typable_key [of c] by auto
  then have "type_text (c # cs) = stroke p @ type_text cs" by (simp add: type_text_def)
  then show ?case using Cons good_stroke_sends [OF p(2) Cons.prems(2)] by (simp add: scan_all_append)
qed

lemma type_text_codes:
  "list_all typable cs \<Longrightarrow> \<forall>sc\<in>set (type_text cs). sc \<noteq> 0 \<and> sc \<noteq> 0xFF"
proof (induction cs)
  case Nil
  then show ?case by (simp add: type_text_def)
next
  case (Cons c cs)
  then obtain p where p: "key_for c = Some p" "good_stroke c p" using typable_key [of c] by auto
  then have "type_text (c # cs) = stroke p @ type_text cs" by (simp add: type_text_def)
  then show ?case using Cons p(2) by (auto simp: stroke_def good_stroke_def)
qed

text \<open>C23. Typing works: for every text of printable ASCII characters, backspaces, tabs, line feeds and
  escapes, the make and break codes of its keys on the US layout (with shift where it is needed), read by
  one interrupt each, deliver exactly the characters of the text, in order, to the input handler that is
  installed (to the shell when there is none), and leave no modifier pressed.\<close>

theorem keyboard_types_text:
  assumes "list_all typable cs" and "idle k" and "inputs io = map ucast (type_text cs) @ rest"
  shows "\<exists>io'. keyboard_irqs nano (length (type_text cs)) k io
      = (k, concat (map (\<lambda>c. send_char c k) cs), io') \<and> inputs io' = rest"
  using irqs_scan_all [OF assms(3) type_text_codes [OF assms(1)], of nano k] scan_typed [OF assms(1,2), of nano] by simp

theorem keyboard_types_text_witness:
  "\<exists>io'. keyboard_irqs False (length (type_text [0x48, 0x69])) (keyboard0 :: unit keyboard)
      \<lparr>inputs = map ucast (type_text [0x48, 0x69]), trace = []\<rparr>
    = (keyboard0, [To_shell 0x48, To_shell 0x69], io') \<and> inputs io' = []"
  using keyboard_types_text [of "[0x48, 0x69]" "keyboard0 :: unit keyboard"
      "\<lparr>inputs = map ucast (type_text [0x48, 0x69]), trace = []\<rparr>" "[]" False]
  by (simp add: typable_def idle_def keyboard0_def send_char_def)

section \<open>Modifiers\<close>

text \<open>
  The codes E0 2A and E0 AA, which keyboards send around the arrow keys while num lock is on, are taken
  for the shift key; the escape flag stays set, so the next key is swallowed as an extended one.
\<close>

lemma fake_shift_taken:
  "idle k \<Longrightarrow> scan_all nano [0xE0, 0x2A, 0x1E] k = (k\<lparr>shift_pressed := True\<rparr>, [])"
  by (simp add: handle_scancode_def extended_key_def idle_def)

lemma arrow_keys:
  assumes "idle k"
  shows "scan_all nano [0xE0, 0x48, 0xE0, 0xC8] k = (k, [To_shell 0x11])"
    and "scan_all nano [0xE0, 0x50, 0xE0, 0xD0] k = (k, [To_shell 0x12])"
    and "scan_all nano [0x1D, 0xE0, 0x48, 0xE0, 0xC8, 0x9D] k = (k, if nano then [] else [Scroll_up])"
  using assms by (simp_all add: handle_scancode_def extended_key_def idle_def)

lemma console_keys:
  assumes "idle k"
  shows "scan_all nano [0x1D, 0x2E, 0xAE, 0x9D] k = (k, [Signal 2])"
    and "scan_all nano [0x38, 0x3D, 0xBD, 0xB8] k = (k, [Switch_tty 2])"
  using assms by (simp_all add: handle_scancode_def key_char_def idle_def Let_def)

end
