(* ===== verification/Files.thy ===== *)
theory Files
  imports MesaFS
begin

text \<open>
  The file tree of the running kernel: both back ends behind the dispatch of \<open>fs/vfs.cpp\<close>, the tree
  \<open>kernel_main\<close> builds (the RAM file system at the root, the disk file system mounted in it as
  \<open>disk\<close>) and path lookup through both. Paths are C strings without their terminator.
\<close>

section \<open>Dispatch to the back ends\<close>

record fstree = mesafs +
  fs_root :: nat

definition backend_read :: "backend \<Rightarrow> 'a mesafs_scheme \<Rightarrow> nat \<Rightarrow> u32 \<Rightarrow> u32 \<Rightarrow> u8 list option" where
  "backend_read b = (case b of RamBackend \<Rightarrow> ram_read | MesaBackend \<Rightarrow> mesa_read)"

definition backend_write :: "backend \<Rightarrow> 'a mesafs_scheme \<Rightarrow> nat \<Rightarrow> u32 \<Rightarrow> u8 list \<Rightarrow> ('a mesafs_scheme \<times> u32) option" where
  "backend_write b = (case b of RamBackend \<Rightarrow> ram_write | MesaBackend \<Rightarrow> mesa_write)"

definition backend_readdir :: "backend \<Rightarrow> 'a mesafs_scheme \<Rightarrow> nat \<Rightarrow> u32 \<Rightarrow> (u8 list \<times> u32) option" where
  "backend_readdir b = (case b of RamBackend \<Rightarrow> ram_readdir | MesaBackend \<Rightarrow> mesa_readdir)"

definition backend_finddir :: "backend \<Rightarrow> 'a mesafs_scheme \<Rightarrow> nat \<Rightarrow> u8 list \<Rightarrow> 'a mesafs_scheme \<times> nat option" where
  "backend_finddir b = (case b of RamBackend \<Rightarrow> ram_finddir | MesaBackend \<Rightarrow> mesa_finddir)"

definition file_read :: "'a mesafs_scheme \<Rightarrow> nat \<Rightarrow> u32 \<Rightarrow> u32 \<Rightarrow> u8 list option" where
  "file_read = read_fs backend_read"

definition file_write :: "'a mesafs_scheme \<Rightarrow> nat \<Rightarrow> u32 \<Rightarrow> u8 list \<Rightarrow> ('a mesafs_scheme \<times> u32) option" where
  "file_write = write_fs backend_write"

definition dir_entry :: "'a mesafs_scheme \<Rightarrow> nat \<Rightarrow> u32 \<Rightarrow> (u8 list \<times> u32) option" where
  "dir_entry = readdir_fs backend_readdir"

definition find_dir :: "'a mesafs_scheme \<Rightarrow> nat \<Rightarrow> u8 list \<Rightarrow> 'a mesafs_scheme \<times> nat option" where
  "find_dir s n name = finddir_fs backend_finddir s n (name @ [0])"

definition lookup :: "'a fstree_scheme \<Rightarrow> u8 list \<Rightarrow> 'a fstree_scheme \<times> nat option" where
  "lookup s path = find_path_fs find_dir s (fs_root s) path"

text \<open>What \<open>kernel_main\<close> does to the file systems; the frame allocation for the first file can fail.\<close>

definition boot_files :: "bool \<Rightarrow> 'a fstree_scheme \<Rightarrow> 'a fstree_scheme option" where
  "boot_files frame s =
     (case ram_initialize s of (s1, root) \<Rightarrow>
        case create_file (s1\<lparr>fs_root := root\<rparr>) (bytes ''readme.txt'' @ [0])
               (Some (bytes ''Welcome to MesaOS Filesystem!'' @ [0])) frame of
          None \<Rightarrow> None
        | Some (s2, _) \<Rightarrow> (case mesa_initialize 2048 s2 of (s3, disk_node) \<Rightarrow> Some (mount s3 disk_node)))"

section \<open>The mounted tree\<close>

definition dir_of :: "backend \<Rightarrow> 'a vfs_scheme \<Rightarrow> nat \<Rightarrow> bool" where
  "dir_of b s n \<longleftrightarrow> n < length (nodes s) \<and> is_directory (nodes s ! n) \<and> finddir_op (nodes s ! n) = Some b"

definition tree_ok :: "'a fstree_scheme \<Rightarrow> nat \<Rightarrow> bool" where
  "tree_ok s d \<longleftrightarrow> dir_of RamBackend s (fs_root s) \<and> dir_of MesaBackend s d
     \<and> (\<forall>k<file_count s. files s ! k < length (nodes s)) \<and> snd (ram_finddir s (fs_root s) (bytes ''disk'' @ [0])) = Some d"

lemma find_dir_ram: "dir_of RamBackend s n \<Longrightarrow> find_dir s n name = ram_finddir s n (name @ [0])"
  by (simp add: find_dir_def finddir_fs_def dir_of_def backend_finddir_def)

lemma find_dir_mesa: "dir_of MesaBackend s n \<Longrightarrow> find_dir s n name = mesa_finddir s n (name @ [0])"
  by (simp add: find_dir_def finddir_fs_def dir_of_def backend_finddir_def)

text \<open>States that differ in what lookups in the root do not see.\<close>

definition same_tree :: "'a fstree_scheme \<Rightarrow> 'a fstree_scheme \<Rightarrow> bool" where
  "same_tree s s' \<longleftrightarrow> fs_root s' = fs_root s \<and> files s' = files s \<and> file_count s' = file_count s
     \<and> (\<exists>ns. nodes s' = nodes s @ ns)"

lemma same_tree_trans: "same_tree s s' \<Longrightarrow> same_tree s' s'' \<Longrightarrow> same_tree s s''"
  by (auto simp: same_tree_def)

lemma slot_of_same_tree:
  "same_tree s s' \<Longrightarrow> \<forall>k<file_count s. files s ! k < length (nodes s) \<Longrightarrow> slot_of s' name = slot_of s name"
  unfolding slot_of_def by (rule find_cong) (auto simp: same_tree_def node_at_def nth_append)

lemma dir_of_same_tree: "same_tree s s' \<Longrightarrow> dir_of b s n \<Longrightarrow> dir_of b s' n"
  by (auto simp: dir_of_def same_tree_def nth_append)

lemma tree_ok_same: "same_tree s s' \<Longrightarrow> tree_ok s d \<Longrightarrow> tree_ok s' d"
proof -
  assume st: "same_tree s s'" and ok: "tree_ok s d"
  have "slot_of s' name = slot_of s name" for name
    using slot_of_same_tree [OF st] ok by (simp add: tree_ok_def)
  moreover have "length (nodes s) \<le> length (nodes s')" "files s' = files s" "file_count s' = file_count s" "fs_root s' = fs_root s"
    using st by (auto simp: same_tree_def)
  ultimately show "tree_ok s' d"
    using ok dir_of_same_tree [OF st, of RamBackend "fs_root s"] dir_of_same_tree [OF st, of MesaBackend d]
    by (auto simp: tree_ok_def ram_finddir_def)
qed

text \<open>Below the mount point a path is looked up in the registry of the disk.\<close>

lemma lookup_disk:
  assumes "tree_ok s d" and "good_component name"
  shows "lookup s (bytes ''/disk/'' @ name) = mesa_finddir s d (name @ [0])"
proof -
  have g: "\<forall>c \<in> set [bytes ''disk'', name]. good_component c" using assms(2) by (simp add: good_component_def bytes_def)
  have "find_dir s (fs_root s) (bytes ''disk'') = (s, Some d)"
    using assms(1) find_dir_ram [of s "fs_root s"] by (simp add: tree_ok_def ram_finddir_def)
  then show ?thesis
    using find_path_components [of "bytes ''disk''" "[name]" "bytes ''/disk/'' @ name" find_dir s "fs_root s"]
      g assms(1) find_dir_mesa [of s d name]
    by (auto simp: lookup_def join_def bytes_def tree_ok_def split: option.splits prod.splits)
qed

section \<open>Files on the disk\<close>

lemma save_metadata_tree:
  assumes "mesa_wf s" and "metadata_valid s"
  shows "\<exists>d. save_metadata s = Some (s\<lparr>disk := d\<rparr>, True) \<and> disk_ok d"
  using save_metadata_wf [OF assms(1)] assms(2) by auto

text \<open>Creating a file takes the first free entry and appends a node for it.\<close>

lemma mesa_create_file_wf:
  fixes s :: "'a fstree_scheme" and uid gid mode :: u32
  assumes wf: "mesa_wf s" and free: "free_entry s = Some i" and name: "length name \<le> 64"
  defines "e \<equiv> fill_entry (entries s ! i) name (100 + of_nat i * 10) 1 uid gid mode"
  shows "\<exists>s'. mesa_create_file s name uid gid mode = Some (s', Some (length (nodes s))) \<and> mesa_wf s'
    \<and> entries s' = (entries s)[i := e] \<and> same_tree s s' \<and> i < 8
    \<and> nodes s' ! length (nodes s) = zero_node\<lparr>nname := name, ninode := of_nat i, nflags := FS_FILE,
         nuid := uid, ngid := gid, nmask := mode, read_op := Some MesaBackend, write_op := Some MesaBackend\<rparr>
    \<and> length (nodes s) < length (nodes s')"
proof -
  have i: "i < 8" using free by (auto simp: free_entry_def find_Some_iff)
  let ?s = "s\<lparr>entries := (entries s)[i := e], metadata_valid := True\<rparr>"
  have "entry_wf (entries s ! i)" using wf i by (simp add: mesa_wf_def)
  then have "entry_wf e" using name by (simp add: entry_wf_def e_def fill_entry_def)
  then have "mesa_wf ?s" using wf set_update_subset_insert [of "entries s" i e] by (auto simp: mesa_wf_def)
  from save_metadata_tree [OF this] obtain d where "save_metadata ?s = Some (?s\<lparr>disk := d\<rparr>, True)" "disk_ok d" by auto
  then show ?thesis using \<open>mesa_wf ?s\<close> free name i
    by (simp add: mesa_create_file_def e_def same_tree_def mesa_wf_def)
qed

lemma entry_of_new:
  assumes "entry_of s (name @ [0]) = None" and "i < 8" and "length (entries s) = 8" and "0 \<notin> set name"
    and "entries s' = (entries s)[i := fill_entry (entries s ! i) (name @ [0]) lba fl uid gid mode]"
  shows "entry_of s' (name @ [0]) = Some i"
proof -
  have "strcmp (patch (ename (entries s ! i)) 0 (name @ [0])) (name @ [0]) = Some 0"
    using assms(4) by (subst strcmp_eq) (simp_all add: patch_def)
  then have "present (entries s' ! i) \<noteq> 0" "strcmp (ename (entries s' ! i)) (name @ [0]) = Some 0"
    using assms by (simp_all add: fill_entry_def)
  moreover have "\<forall>j<8. j \<noteq> i \<longrightarrow> \<not> (present (entries s' ! j) \<noteq> 0 \<and> strcmp (ename (entries s' ! j)) (name @ [0]) = Some 0)"
    using assms(1,5) by (auto simp: entry_of_def find_None_iff)
  ultimately show ?thesis using assms(2) unfolding entry_of_def find_Some_iff
    by (intro exI [of _ i]) auto
qed

lemma mesa_write_frame:
  fixes s :: "'a fstree_scheme"
  assumes "mesa_write s n off data = Some (s', k)" and "length (entries s) = 8"
  shows "nodes s' = nodes s \<and> same_tree s s'
    \<and> (\<forall>j. present (entries s' ! j) = present (entries s ! j) \<and> ename (entries s' ! j) = ename (entries s ! j))"
  using assms
  by (auto simp: mesa_write_def Let_def save_metadata_def same_tree_def nth_list_update split: if_splits option.splits)

lemma mesa_content_length: "mesa_ok s n \<Longrightarrow> length (mesa_content s n) = unat (elength (entries s ! mesa_index s n))"
  by (simp add: mesa_content_def mesa_ok_def mesa_wf_def ide.length_area)

lemma entry_of_cong:
  "\<forall>j. present (entries s' ! j) = present (entries s ! j) \<and> ename (entries s' ! j) = ename (entries s ! j)
     \<Longrightarrow> entry_of s' name = entry_of s name"
  by (simp add: entry_of_def)

text \<open>The node a lookup makes reads the same file as any other node of the entry.\<close>

lemma mesa_found:
  fixes s :: "'a fstree_scheme"
  assumes ok: "mesa_ok s n" and i: "entry_of s nm = Some i" "mesa_index s n = i"
  shows "\<exists>s' m. mesa_finddir s d nm = (s', Some m) \<and> same_tree s s' \<and> mesa_ok s' m \<and> mesa_content s' m = mesa_content s n
    \<and> m < length (nodes s') \<and> read_op (nodes s' ! m) = Some MesaBackend \<and> unat (nlength (nodes s' ! m)) = length (mesa_content s n)"
proof -
  let ?m = "length (nodes s)" and ?s = "s\<lparr>nodes := nodes s @ [entry_node i (entries s ! i)]\<rparr>"
  have "i < 8" using ok i(2) by (auto simp: mesa_ok_def)
  then have idx: "mesa_index ?s ?m = i"
    by (simp add: mesa_index_def entry_node_def unat_of_nat_u32)
  have node: "nodes ?s ! ?m = entry_node i (entries s ! i)" by simp
  have "mesa_ok ?s ?m" using ok i(2) unfolding mesa_ok_def idx by (simp add: mesa_wf_def)
  moreover have "mesa_content ?s ?m = mesa_content s n"
    unfolding mesa_content_def idx i(2) by (simp add: file_start_def)
  moreover have "unat (nlength (nodes ?s ! ?m)) = length (mesa_content s n)"
    using mesa_content_length [OF ok] i(2) by (simp add: node entry_node_def)
  moreover have "mesa_finddir s d nm = (?s, Some ?m)" using i(1) by (simp add: mesa_finddir_def)
  ultimately show ?thesis
    by (intro exI [of _ ?s] exI [of _ ?m]) (simp add: same_tree_def entry_node_def)
qed


section \<open>The tree at boot\<close>

definition fresh_fs :: "'a fstree_scheme \<Rightarrow> bool" where
  "fresh_fs s \<longleftrightarrow> length (files s) = MAX_FILES \<and> length (file_contents s) = MAX_FILES \<and> disk_ok (disk s)
     \<and> length (header_hmac s) = 32 \<and> 496 \<le> stack_room s"

lemma boot_files_tree:
  assumes "fresh_fs s"
  shows "\<exists>s' d. boot_files True s = Some s' \<and> tree_ok s' d \<and> mesa_wf s' \<and> entries s' = replicate 8 zero_entry
    \<and> file_count s' = 2 \<and> length (files s') = MAX_FILES
    \<and> (\<forall>nm. 0 \<in> set nm \<longrightarrow> slot_of s' nm = (if cstr nm = bytes ''readme.txt'' then Some 0
           else if cstr nm = bytes ''disk'' then Some 1 else None))"
proof -
  let ?n = "length (nodes s)"
  obtain s' where s': "boot_files True s = Some s'" "nodes s' = nodes s @ [
      zero_node\<lparr>nname := bytes ''root'' @ [0], nflags := FS_DIRECTORY, readdir_op := Some RamBackend, finddir_op := Some RamBackend\<rparr>,
      zero_node\<lparr>nname := bytes ''readme.txt'' @ [0], nflags := FS_FILE, ninode := 0, read_op := Some RamBackend,
        write_op := Some RamBackend, nlength := 29\<rparr>,
      zero_node\<lparr>nname := bytes ''disk'' @ [0], nflags := FS_DIRECTORY, nmask := 493, readdir_op := Some MesaBackend,
        finddir_op := Some MesaBackend\<rparr>]"
    "files s' = (files s)[0 := Suc ?n, Suc 0 := Suc (Suc ?n)]" "file_count s' = 2" "fs_root s' = ?n"
    "entries s' = replicate 8 zero_entry" "base_lba s' = 2048" "disk s' = disk s" "header_hmac s' = header_hmac s"
    "stack_room s' = stack_room s"
    by (simp add: boot_files_def ram_initialize_def create_file_def mesa_initialize_def mount_def MAX_FILES_def
        FILE_BLOCK_def load_metadata_def bytes_def Let_def)
  have len: "length (files s) = 64" using assms by (simp add: fresh_fs_def MAX_FILES_def)
  have f: "files s' ! 0 = Suc ?n" "files s' ! Suc 0 = Suc (Suc ?n)" using s'(3) len by simp_all
  have nd: "nodes s' ! Suc (Suc ?n) = zero_node\<lparr>nname := bytes ''disk'' @ [0], nflags := FS_DIRECTORY, nmask := 493,
      readdir_op := Some MesaBackend, finddir_op := Some MesaBackend\<rparr>"
    "nname (nodes s' ! Suc ?n) = bytes ''readme.txt'' @ [0]"
    using s'(2) by (simp_all add: nth_append)
  have b: "cstr (bytes ''readme.txt'' @ [0]) = bytes ''readme.txt''" "cstr (bytes ''disk'' @ [0]) = bytes ''disk''"
    by (simp_all add: bytes_def)
  have two: "[0..<2] = [0, Suc 0 :: nat]" by (simp add: upt_rec)
  have slots: "slot_of s' nm = (if cstr nm = bytes ''readme.txt'' then Some 0
      else if cstr nm = bytes ''disk'' then Some 1 else None)" if "0 \<in> set nm" for nm
    using that b by (simp add: slot_of_def s'(4) two f nd node_at_def strcmp_eq)
  have slot: "slot_of s' (bytes ''disk'' @ [0]) = Some 1"
    by (subst slots) (simp_all add: bytes_def)
  have k: "\<forall>k<file_count s'. files s' ! k < length (nodes s')"
    using f s'(2,4) by (auto simp: less_2_cases_iff)
  have "tree_ok s' (Suc (Suc ?n))" unfolding tree_ok_def
    using k slot nd f s'(2,5) by (simp add: dir_of_def is_directory_def FS_DIRECTORY_def ram_finddir_def nth_append)
  moreover have "mesa_wf s'" using assms s' by (simp add: mesa_wf_def fresh_fs_def entry_wf_def zero_entry_def)
  moreover have "length (files s') = MAX_FILES" using s'(3) len by (simp add: MAX_FILES_def)
  ultimately show ?thesis using s'(1,4,6) slots by blast
qed

definition fs_boot0 :: fstree where
  "fs_boot0 = \<lparr>nodes = [], blocks = [], files = replicate MAX_FILES 0, file_contents = replicate MAX_FILES 0,
     file_count = 0, entries = [], base_lba = 0, metadata_valid = False, keys = key_manager0,
     disk = (\<lambda>l. replicate 512 0), header_hmac = replicate 32 0, stack_room = 496, fs_root = 0\<rparr>"

lemma fresh_boot0: "fresh_fs fs_boot0"
  by (simp add: fresh_fs_def disk_ok_def fs_boot0_def)


section \<open>Directories of the RAM file system\<close>

lemma walk_ram_dirs:
  "dir_of RamBackend s n \<Longrightarrow> dir_of RamBackend s r \<Longrightarrow> walk find_dir s n (c # cs) = walk find_dir s r (c # cs)"
  by (simp add: find_dir_ram ram_finddir_def)

text \<open>Directories of the RAM file system are flat: after \<open>mkdir\<close> of a new name, every path that
  starts with the new directory resolves exactly as the same path without it, so the directory appears to
  hold every file of the root, the disk and itself.\<close>

lemma ram_directories_flat:
  fixes s :: "'a fstree_scheme"
  assumes "tree_ok s d" and "good_component dname" and "0 \<notin> set dname" and "slot_of s (dname @ [0]) = None"
    and "file_count s < MAX_FILES" and "length (files s) = MAX_FILES" and "\<forall>c \<in> set (c # cs). good_component c"
  shows "\<exists>s1 n. create_dir s (dname @ [0]) = Some (s1, Some n) \<and> lookup s1 (join (dname # c # cs)) = lookup s1 (join (c # cs))"
proof -
  let ?n = "length (nodes s)" and ?k = "file_count s"
  define s1 where "s1 = s\<lparr>nodes := nodes s @ [zero_node\<lparr>nname := dname @ [0], nflags := FS_DIRECTORY,
      readdir_op := Some RamBackend, finddir_op := Some RamBackend\<rparr>], files := (files s)[?k := ?n], file_count := ?k + 1\<rparr>"
  have cr: "create_dir s (dname @ [0]) = Some (s1, Some ?n)"
    using assms(2,5) by (simp add: create_dir_def s1_def good_component_def)
  have root: "dir_of RamBackend s1 (fs_root s1)" and new: "dir_of RamBackend s1 ?n"
    using assms(1) by (simp_all add: s1_def dir_of_def tree_ok_def nth_append is_directory_def FS_DIRECTORY_def)
  have old: "k < ?k \<Longrightarrow> node_at s1 (files s1 ! k) = node_at s (files s ! k)" for k
    using assms(1) by (simp add: s1_def node_at_def tree_ok_def nth_append)
  have last: "files s1 ! ?k = ?n" "nname (node_at s1 ?n) = dname @ [0]"
    using assms(5,6) by (simp_all add: s1_def node_at_def)
  have "find (\<lambda>i. strcmp (dname @ [0]) (nname (node_at s1 (files s1 ! i))) = Some 0) [0..<?k] = slot_of s (dname @ [0])"
    unfolding slot_of_def by (rule find_cong) (auto simp: old)
  moreover have "strcmp (dname @ [0]) (dname @ [0]) = Some 0" by (subst strcmp_eq) simp_all
  moreover have "file_count s1 = Suc ?k" by (simp add: s1_def)
  ultimately have "slot_of s1 (dname @ [0]) = Some ?k"
    using assms(4) last by (simp only: slot_of_def [of s1] find_upt_Suc option.case if_True simp_thms)
  then have "find_dir s1 (fs_root s1) dname = (s1, Some ?n)"
    using last by (simp add: find_dir_ram [OF root] ram_finddir_def)
  moreover have "find_path_fs find_dir s1 (fs_root s1) (join (dname # c # cs)) = walk find_dir s1 (fs_root s1) (dname # c # cs)"
    "find_path_fs find_dir s1 (fs_root s1) (join (c # cs)) = walk find_dir s1 (fs_root s1) (c # cs)"
    by (rule find_path_components; use assms(2,7) in \<open>simp add: join_def\<close>)+
  ultimately have "lookup s1 (join (dname # c # cs)) = lookup s1 (join (c # cs))"
    using walk_ram_dirs [OF new root, of c cs] unfolding lookup_def by simp
  then show ?thesis using cr by blast
qed

lemma ram_directories_flat_example:
  "\<exists>s s1 n. boot_files True fs_boot0 = Some s \<and> create_dir s (bytes ''tmp'' @ [0]) = Some (s1, Some n)
    \<and> lookup s1 (bytes ''/tmp/tmp/readme.txt'') = lookup s1 (bytes ''/tmp/readme.txt'')"
proof -
  obtain s d where s: "boot_files True fs_boot0 = Some s" "tree_ok s d" "file_count s = 2" "length (files s) = MAX_FILES" and
    slots: "\<And>nm. 0 \<in> set nm \<Longrightarrow> slot_of s nm = (if cstr nm = bytes ''readme.txt'' then Some 0
      else if cstr nm = bytes ''disk'' then Some 1 else None)"
    using boot_files_tree [OF fresh_boot0] by blast
  have "slot_of s (bytes ''tmp'' @ [0]) = None" by (subst slots) (simp_all add: bytes_def)
  moreover have "good_component (bytes ''tmp'')" "0 \<notin> set (bytes ''tmp'')" "file_count s < MAX_FILES"
    "\<forall>c \<in> set (bytes ''tmp'' # [bytes ''readme.txt'']). good_component c"
    by (simp_all add: good_component_def bytes_def s(3) MAX_FILES_def)
  moreover have "join (bytes ''tmp'' # bytes ''tmp'' # [bytes ''readme.txt'']) = bytes ''/tmp/tmp/readme.txt''"
    "join (bytes ''tmp'' # [bytes ''readme.txt'']) = bytes ''/tmp/readme.txt''" by (simp_all add: join_def bytes_def)
  ultimately show ?thesis
    using ram_directories_flat [OF s(2), of "bytes ''tmp''" "bytes ''tmp''" "[bytes ''readme.txt'']"] s(1,4) by metis
qed

end
