(* ===== verification/Nano.thy ===== *)
theory Nano
  imports VGA Files
begin

text \<open>
  The text editor, \<open>apps/nano.cpp\<close>, on the console of \<open>VGA\<close> and the file tree of \<open>Files\<close>. The two
  character arrays it edits keep their C size; \<open>current_file\<close> is the text of its array, and storing a name
  that does not fit is a fault. \<open>None\<close> is a memory fault: a read or write past an array. The state of the
  control key is an argument of the input handler.
\<close>

section \<open>State\<close>

record nano =
  buffer :: "u8 list"
  clipboard :: "u8 list"
  current_file :: "u8 list"
  cursor_pos :: nat
  running :: bool
  show_help :: bool

record desktop =
  display :: vga
  tree :: fstree
  editor :: nano

definition nano0 :: nano where
  "nano0 = \<lparr>buffer = replicate 4096 0, clipboard = replicate 512 0, current_file = [], cursor_pos = 0,
     running = False, show_help = False\<rparr>"

definition say :: "u8 list \<Rightarrow> 'a desktop_scheme \<Rightarrow> 'a desktop_scheme" where
  "say text d = d\<lparr>display := vga_write_string text (display d)\<rparr>"

definition ink :: "u8 \<Rightarrow> u8 \<Rightarrow> 'a desktop_scheme \<Rightarrow> 'a desktop_scheme" where
  "ink fg bg d = d\<lparr>display := set_color (vga_entry_color fg bg) (display d)\<rparr>"

definition clear_screen :: "'a desktop_scheme \<Rightarrow> 'a desktop_scheme" where
  "clear_screen d = d\<lparr>display := vga_initialize (display d)\<rparr>"

section \<open>The screen\<close>

definition help_text :: "u8 list" where
  "help_text = [10] @ bytes '' --- NANO HELP ---'' @ [10] @ bytes '' ^O: Save current file'' @ [10] @
     bytes '' ^X: Exit editor'' @ [10] @ bytes '' ^K: Delete ('' @ [39] @ bytes ''Cut'' @ [39] @ bytes '') until end of line'' @ [10] @
     bytes '' ^U: Paste last cut text'' @ [10] @ bytes '' ^G: Toggle this help'' @ [10] @
     bytes '' ^C: Show current cursor position'' @ [10] @ bytes '' ^W: Search (Placeholder functionality)'' @ [10] @
     bytes '' Press ^G to return to editor.'' @ [10]"

definition refresh_screen :: "'a desktop_scheme \<Rightarrow> 'a desktop_scheme" where
  "refresh_screen d =
     (let d1 = say (bytes '' ^O Save | ^X Exit | ^G Help | ^K Cut | ^U Paste | ^C Pos | ^W Search      '')
                 (ink 0 7 (clear_screen d))
      in if show_help (editor d1) then say help_text (ink 15 1 d1)
         else say (buffer (editor d1)) (say [10] (ink 15 0 d1)))"

definition show_cursor_pos :: "'a desktop_scheme \<Rightarrow> 'a desktop_scheme" where
  "show_cursor_pos d =
     say (bytes '' ]'') (say (itoa (int (cursor_pos (editor d))) 10)
       (say ([10] @ bytes ''[ Cursor at position: '') (ink 15 5 d)))"

definition search :: "'a desktop_scheme \<Rightarrow> 'a desktop_scheme" where
  "search d = say ([10] @ bytes ''[ Search not yet implemented: Need input prompt ]'') (ink 15 4 d)"

section \<open>Files\<close>

definition nano_run :: "u8 list option \<Rightarrow> 'a desktop_scheme \<Rightarrow> 'a desktop_scheme option" where
  "nano_run filename d =
     (let d1 = clear_screen (d\<lparr>editor := nano0\<lparr>running := True\<rparr>\<rparr>) in
      case filename of
        None \<Rightarrow> Some (refresh_screen d1)
      | Some f \<Rightarrow>
          if length f \<ge> 128 then None
          else (case lookup (tree d1) f of
                  (t, None) \<Rightarrow> Some (refresh_screen (d1\<lparr>tree := t, editor := (editor d1)\<lparr>current_file := f\<rparr>\<rparr>))
                | (t, Some n) \<Rightarrow>
                    (case file_read t n 0 (nlength (nodes t ! n)) of
                       None \<Rightarrow> None
                     | Some content \<Rightarrow>
                         if length content \<ge> 4096 \<and> 0 \<notin> set (take 4096 content) \<or> length content > 4096 then None
                         else let b = patch (replicate 4096 0) 0 content
                              in Some (refresh_screen (d1\<lparr>tree := t, editor := (editor d1)\<lparr>current_file := f,
                                   buffer := b, cursor_pos := length (cstr b)\<rparr>\<rparr>)))))"

definition save_node :: "u8 list \<Rightarrow> 'a fstree_scheme \<Rightarrow> ('a fstree_scheme \<times> nat option) option" where
  "save_node f t =
     (case lookup t f of
        (t1, Some n) \<Rightarrow> Some (t1, Some n)
      | (t1, None) \<Rightarrow>
          let name = (if take 6 f = bytes ''/disk/'' \<or> take 5 f = bytes ''disk/''
                      then (if take 1 f = bytes ''/'' then drop 6 f else drop 5 f) else f)
          in mesa_create_file t1 (name @ [0]) 0 0 420)"

definition save :: "'a desktop_scheme \<Rightarrow> 'a desktop_scheme option" where
  "save d =
     (if current_file (editor d) = [] then Some d
      else case save_node (current_file (editor d)) (tree d) of
             None \<Rightarrow> None
           | Some (t, None) \<Rightarrow> Some (d\<lparr>tree := t\<rparr>)
           | Some (t, Some n) \<Rightarrow>
               (case strlen (buffer (editor d)) of
                  None \<Rightarrow> None
                | Some k \<Rightarrow> map_option (\<lambda>(t1, _). d\<lparr>tree := t1\<rparr>) (file_write t n 0 (take k (buffer (editor d))))))"

section \<open>Cut and paste\<close>

text \<open>The inner loop of \<open>cut_line\<close> moves every byte up to the terminator one place left.\<close>

definition shift_left :: "nat \<Rightarrow> u8 list \<Rightarrow> u8 list option" where
  "shift_left c xs =
     (if 0 \<in> set (drop c xs) then Some (fold (\<lambda>j xs. xs[j := xs ! (j + 1)]) [c..<c + length (cstr (drop c xs))] xs) else None)"

text \<open>\<open>k\<close> counts down \<open>511 - i\<close>.\<close>

fun cut_loop :: "nat \<Rightarrow> nat \<Rightarrow> nano \<Rightarrow> (nat \<times> nano) option" where
  "cut_loop 0 i e = Some (i, e)"
| "cut_loop (Suc k) i e =
     (let b = buffer e ! cursor_pos e in
      if b \<noteq> 0 \<and> b \<noteq> 10
      then (case shift_left (cursor_pos e) (buffer e) of
              None \<Rightarrow> None
            | Some xs \<Rightarrow> cut_loop k (i + 1) (e\<lparr>clipboard := (clipboard e)[i := b], buffer := xs\<rparr>))
      else Some (i, e))"

definition cut_line :: "nano \<Rightarrow> nano option" where
  "cut_line e = (case cut_loop 511 0 e of None \<Rightarrow> None | Some (i, e1) \<Rightarrow> Some (e1\<lparr>clipboard := (clipboard e1)[i := 0]\<rparr>))"

definition paste_line :: "nano \<Rightarrow> nano option" where
  "paste_line e =
     (case (strlen (clipboard e), strlen (buffer e)) of
        (Some len, Some buf_len) \<Rightarrow>
          if cursor_pos e + len \<ge> 4095 then Some e
          else if cursor_pos e \<le> buf_len \<and> buf_len + len \<ge> 4096 then None
          else let moved = fold (\<lambda>j xs. xs[j + len := xs ! j]) (rev [cursor_pos e..<buf_len + 1]) (buffer e);
                   filled = fold (\<lambda>i xs. xs[cursor_pos e + i := clipboard e ! i]) [0..<len] moved
               in Some (e\<lparr>buffer := filled, cursor_pos := cursor_pos e + len\<rparr>)
      | (Some len, None) \<Rightarrow> if cursor_pos e + len \<ge> 4095 then Some e else None
      | _ \<Rightarrow> None)"

section \<open>Input\<close>

definition type_key :: "u8 \<Rightarrow> nano \<Rightarrow> nano" where
  "type_key c e =
     (if c = 8 then (if cursor_pos e > 0 then e\<lparr>cursor_pos := cursor_pos e - 1, buffer := (buffer e)[cursor_pos e - 1 := 0]\<rparr> else e)
      else if cursor_pos e < 4095
      then e\<lparr>cursor_pos := cursor_pos e + 1, buffer := (buffer e)[cursor_pos e := c, cursor_pos e + 1 := 0]\<rparr>
      else e)"

definition to_upper :: "u8 \<Rightarrow> u8" where
  "to_upper c = (if c \<ge> 0x61 \<and> c \<le> 0x7A then c - 0x61 + 0x41 else c)"

definition edit_key :: "u8 \<Rightarrow> 'a desktop_scheme \<Rightarrow> 'a desktop_scheme option" where
  "edit_key c d =
     (if show_help (editor d) then Some d
      else if c = 27 then map_option (\<lambda>d. d\<lparr>editor := (editor d)\<lparr>running := False\<rparr>\<rparr>) (save d)
      else Some (refresh_screen (d\<lparr>editor := type_key c (editor d)\<rparr>)))"

definition nano_handle_input :: "bool \<Rightarrow> u8 \<Rightarrow> 'a desktop_scheme \<Rightarrow> 'a desktop_scheme option" where
  "nano_handle_input ctrl c d =
     (if \<not> running (editor d) then Some d
      else if ctrl \<and> to_upper c = 0x4F
      then map_option (\<lambda>d. say ([10] @ bytes ''[ File saved successfully ]'') (ink 15 2 (refresh_screen d))) (save d)
      else if ctrl \<and> to_upper c = 0x58 then Some (clear_screen (d\<lparr>editor := (editor d)\<lparr>running := False\<rparr>\<rparr>))
      else if ctrl \<and> to_upper c = 0x47
      then Some (refresh_screen (d\<lparr>editor := (editor d)\<lparr>show_help := \<not> show_help (editor d)\<rparr>\<rparr>))
      else if ctrl \<and> to_upper c = 0x4B then map_option (\<lambda>e. refresh_screen (d\<lparr>editor := e\<rparr>)) (cut_line (editor d))
      else if ctrl \<and> to_upper c = 0x55 then map_option (\<lambda>e. refresh_screen (d\<lparr>editor := e\<rparr>)) (paste_line (editor d))
      else if ctrl \<and> to_upper c = 0x43 then Some (show_cursor_pos d)
      else if ctrl \<and> to_upper c = 0x57 then Some (search d)
      else edit_key c d)"

section \<open>The editor as a text\<close>

definition nano_wf :: "nano \<Rightarrow> bool" where
  "nano_wf e \<longleftrightarrow> length (buffer e) = 4096 \<and> length (clipboard e) = 512 \<and> cursor_pos e = length (cstr (buffer e))
     \<and> cursor_pos e \<le> 4095 \<and> clipboard e ! 0 = 0"

definition edit :: "u8 \<Rightarrow> u8 list \<Rightarrow> u8 list" where
  "edit c t = (if c = 8 then butlast t else if length t < 4095 then t @ [c] else t)"

lemma take_cstr: "n \<le> length (cstr xs) \<Longrightarrow> take n xs = take n (cstr xs)"
  by (metis cstr_def takeWhile_eq_take take_take min.absorb1)

lemma cstr_ends:
  assumes "length (cstr xs) < length xs"
  shows "xs ! length (cstr xs) = 0" "0 \<in> set (drop (length (cstr xs)) xs)"
proof -
  show z: "xs ! length (cstr xs) = 0"
    using nth_length_takeWhile [of "\<lambda>c. c \<noteq> 0" xs] assms by (simp add: cstr_def)
  show "0 \<in> set (drop (length (cstr xs)) xs)"
    using assms by (simp add: Cons_nth_drop_Suc [symmetric] z)
qed

lemma cstr_nonzero: "0 \<notin> set (cstr xs)"
  by (auto simp: cstr_def dest: set_takeWhileD)

lemma cstr_take_update:
  assumes "n \<le> length (cstr xs)" and "n < length xs"
  shows "cstr (xs[n := 0]) = take n (cstr xs)"
proof -
  have "xs[n := 0] = take n (cstr xs) @ 0 # drop (Suc n) xs"
    using assms by (simp add: upd_conv_take_nth_drop take_cstr)
  moreover have "0 \<notin> set (take n (cstr xs))" using cstr_nonzero [of xs] by (meson in_set_takeD)
  ultimately show ?thesis by simp
qed

lemma type_key_wf:
  assumes "nano_wf e" and "c \<noteq> 0"
  shows "nano_wf (type_key c e)" and "cstr (buffer (type_key c e)) = edit c (cstr (buffer e))"
proof -
  let ?b = "buffer e" and ?n = "cursor_pos e"
  have w: "length ?b = 4096" "?n = length (cstr ?b)" "?n \<le> 4095" "length (clipboard e) = 512" "clipboard e ! 0 = 0"
    using assms(1) by (simp_all add: nano_wf_def)
  have bk: "cstr (?b[?n - 1 := 0]) = butlast (cstr ?b)"
    using w cstr_take_update [of "?n - 1" ?b] by (simp add: butlast_conv_take)
  have ins: "cstr (?b[?n := c, ?n + 1 := 0]) = cstr ?b @ [c]" if "?n < 4095"
  proof -
    have "?b[?n := c, ?n + 1 := 0] = (cstr ?b @ [c]) @ 0 # drop (?n + 2) ?b"
    proof (rule nth_equalityI)
      show "length (?b[?n := c, ?n + 1 := 0]) = length ((cstr ?b @ [c]) @ 0 # drop (?n + 2) ?b)" using w that by simp
      fix i assume "i < length (?b[?n := c, ?n + 1 := 0])"
      then show "?b[?n := c, ?n + 1 := 0] ! i = ((cstr ?b @ [c]) @ 0 # drop (?n + 2) ?b) ! i"
        using w that take_cstr [of ?n ?b] nth_take [of i ?n ?b]
        by (auto simp: nth_append nth_list_update nth_Cons') (rule arg_cong [where f = "(!) ?b"], arith)
    qed
    then show ?thesis using cstr_nonzero [of ?b] assms(2) by (metis cstr_append0 set_append Un_iff empty_iff list.set insert_iff)
  qed
  show t: "cstr (buffer (type_key c e)) = edit c (cstr ?b)"
    using bk ins w by (auto simp: type_key_def edit_def)
  show "nano_wf (type_key c e)"
    using w t by (auto simp: nano_wf_def type_key_def edit_def)
qed

text \<open>The cursor is always at the terminator: there is nothing to cut, so there is nothing to paste.\<close>

lemma cut_line_inert: "nano_wf e \<Longrightarrow> cut_line e = Some e"
proof -
  assume wf: "nano_wf e"
  then have "buffer e ! cursor_pos e = 0" using cstr_ends(1) [of "buffer e"] by (simp add: nano_wf_def)
  then have "cut_loop 511 0 e = Some (0, e)" by (simp add: numeral_eq_Suc)
  moreover have "(clipboard e)[0 := 0] = clipboard e" using wf by (metis list_update_id nano_wf_def)
  ultimately show ?thesis by (simp add: cut_line_def)
qed

lemma paste_line_inert: "nano_wf e \<Longrightarrow> paste_line e = Some e"
proof -
  assume wf: "nano_wf e"
  then have len: "length (clipboard e) = 512" "length (buffer e) = 4096" "clipboard e ! 0 = 0"
    "cursor_pos e = length (cstr (buffer e))" "cursor_pos e \<le> 4095" by (simp_all add: nano_wf_def)
  have "0 \<in> set (clipboard e)" using len nth_mem [of 0 "clipboard e"] by simp
  moreover have "cstr (clipboard e) = []" using len by (cases "clipboard e") simp_all
  ultimately have c: "strlen (clipboard e) = Some 0" by (simp add: strlen_cstr)
  have "0 \<in> set (buffer e)" using cstr_ends(2) [of "buffer e"] len by (simp add: in_set_dropD)
  then have b: "strlen (buffer e) = Some (cursor_pos e)" using len by (simp add: strlen_cstr)
  have "[cursor_pos e..<cursor_pos e + 1] = [cursor_pos e]" by simp
  then show ?thesis using c b len by (simp add: paste_line_def)
qed

section \<open>Sessions\<close>

lemma desk_frame [simp]:
  "editor (say t d) = editor d" "tree (say t d) = tree d" "editor (ink f b d) = editor d" "tree (ink f b d) = tree d"
  "editor (clear_screen d) = editor d" "tree (clear_screen d) = tree d"
  "editor (refresh_screen d) = editor d" "tree (refresh_screen d) = tree d"
  "editor (show_cursor_pos d) = editor d" "tree (show_cursor_pos d) = tree d"
  "editor (search d) = editor d" "tree (search d) = tree d"
  by (simp_all add: say_def ink_def clear_screen_def refresh_screen_def show_cursor_pos_def search_def Let_def)

fun nano_input :: "(bool \<times> u8) list \<Rightarrow> 'a desktop_scheme \<Rightarrow> 'a desktop_scheme option" where
  "nano_input [] d = Some d"
| "nano_input (k # ks) d = (case nano_handle_input (fst k) (snd k) d of None \<Rightarrow> None | Some d1 \<Rightarrow> nano_input ks d1)"

text \<open>Keys that neither save, leave nor open the help; the commands among them.\<close>

definition editing_key :: "bool \<times> u8 \<Rightarrow> bool" where
  "editing_key k \<longleftrightarrow> snd k \<noteq> 0 \<and> snd k \<noteq> 27 \<and> \<not> (fst k \<and> to_upper (snd k) \<in> {0x4F, 0x58, 0x47})"

definition nano_command :: "bool \<times> u8 \<Rightarrow> bool" where
  "nano_command k \<longleftrightarrow> fst k \<and> to_upper (snd k) \<in> {0x4B, 0x55, 0x43, 0x57}"

lemma nano_key_edits:
  assumes "nano_wf (editor d)" and "running (editor d)" and "\<not> show_help (editor d)" and "editing_key k"
  shows "\<exists>d1. nano_handle_input (fst k) (snd k) d = Some d1 \<and> tree d1 = tree d
    \<and> nano_wf (editor d1) \<and> running (editor d1) \<and> \<not> show_help (editor d1)
    \<and> cstr (buffer (editor d1)) = (if nano_command k then cstr (buffer (editor d)) else edit (snd k) (cstr (buffer (editor d))))"
proof (cases "nano_command k")
  case True
  then show ?thesis using assms cut_line_inert [OF assms(1)] paste_line_inert [OF assms(1)]
    by (auto simp: nano_handle_input_def nano_command_def editing_key_def)
next
  case False
  have "running (type_key c e) = running e" "show_help (type_key c e) = show_help e" for c e
    by (simp_all add: type_key_def)
  then show ?thesis using assms False type_key_wf [OF assms(1), of "snd k"]
    by (auto simp: nano_handle_input_def nano_command_def editing_key_def edit_key_def)
qed

text \<open>C24. The editor is a text with the cursor at its end: from an open editor, any sequence of keys that
  does not save, leave or open the help changes the text exactly as appending the characters (up to 4095)
  and removing the last one on backspace does. The commands cut, paste, position and search change
  nothing in the text: with the cursor at the terminator, cut never captures a character.\<close>

theorem nano_edits_text:
  assumes "nano_wf (editor d)" and "running (editor d)" and "\<not> show_help (editor d)" and "list_all editing_key ks"
  shows "\<exists>d1. nano_input ks d = Some d1 \<and> tree d1 = tree d \<and> nano_wf (editor d1)
    \<and> cstr (buffer (editor d1)) = fold edit (map snd (filter (\<lambda>k. \<not> nano_command k) ks)) (cstr (buffer (editor d)))"
  using assms
proof (induction ks arbitrary: d)
  case Nil
  then show ?case by simp
next
  case (Cons k ks)
  then obtain d1 where d1: "nano_handle_input (fst k) (snd k) d = Some d1" "tree d1 = tree d"
    "nano_wf (editor d1)" "running (editor d1)" "\<not> show_help (editor d1)"
    "cstr (buffer (editor d1)) = (if nano_command k then cstr (buffer (editor d)) else edit (snd k) (cstr (buffer (editor d))))"
    using nano_key_edits [of d k] by auto
  with Cons.IH [OF d1(3-5)] Cons.prems(4) show ?case by auto
qed

lemma cstr_zeros: "cstr (replicate n 0) = []"
  by (cases n) simp_all

lemma nano0_wf: "nano_wf (nano0\<lparr>running := b\<rparr>)"
  by (simp add: nano_wf_def nano0_def cstr_zeros)

definition desk0 :: desktop where
  "desk0 = \<lparr>display = vga_initialize vga_boot, tree = fs_boot0, editor = nano0\<lparr>running := True\<rparr>\<rparr>"

theorem nano_edits_text_witness:
  "\<exists>d1. nano_input [(False, 0x61), (False, 0x62), (False, 8), (True, 0x6B), (False, 0x63), (True, 0x75)] desk0 = Some d1
    \<and> cstr (buffer (editor d1)) = [0x61, 0x63]"
proof -
  have "cstr (buffer (editor desk0)) = []"
    by (simp add: desk0_def nano0_def cstr_zeros)
  moreover have "nano_wf (editor desk0)" "running (editor desk0)" "\<not> show_help (editor desk0)"
    by (simp_all add: desk0_def nano0_wf) (simp_all add: nano0_def)
  ultimately show ?thesis
    using nano_edits_text [of desk0 "[(False, 0x61), (False, 0x62), (False, 8), (True, 0x6B), (False, 0x63), (True, 0x75)]"]
    by (auto simp: editing_key_def nano_command_def to_upper_def edit_def)
qed

section \<open>Saving\<close>

lemma strlen_text: "nano_wf e \<Longrightarrow> strlen (buffer e) = Some (cursor_pos e) \<and> take (cursor_pos e) (buffer e) = cstr (buffer e)"
  using cstr_ends(2) [of "buffer e"] take_cstr [of "cursor_pos e" "buffer e"]
  by (simp add: nano_wf_def strlen_cstr in_set_dropD)

lemma lookup_root:
  assumes "dir_of RamBackend t (fs_root t)" and "good_component name"
  shows "lookup t (slash # name) = (t, map_option (\<lambda>i. files t ! i) (slot_of t (name @ [0])))"
  using find_path_components [of name "[]" "slash # name" find_dir t "fs_root t"] assms find_dir_ram [OF assms(1)]
  by (auto simp: lookup_def join_def ram_finddir_def split: option.splits)

text \<open>Saving a new file outside the disk loses it: for a path \<open>/name\<close> without a file behind it, the
  save command makes an entry on the disk whose name is the whole path, slash included, writes the text
  there and reports success; the path still resolves to nothing, and one of the eight entries is gone.\<close>

lemma nano_save_lost:
  assumes ed: "nano_wf (editor d)" "running (editor d)" "current_file (editor d) = slash # name"
    and fs: "tree_ok (tree d) dn" "mesa_wf (tree d)" "free_entry (tree d) = Some i"
    and name: "good_component name" "slot_of (tree d) (name @ [0]) = None"
  shows "\<exists>d1. nano_handle_input True 0x6F d = Some d1 \<and> snd (lookup (tree d1) (slash # name)) = None
    \<and> present (entries (tree d) ! i) = 0 \<and> present (entries (tree d1) ! i) = 1 \<and> mesa_wf (tree d1) \<and> tree_ok (tree d1) dn"
proof -
  let ?f = "slash # name" and ?t = "tree d" and ?text = "cstr (buffer (editor d))"
  let ?n = "length (nodes ?t)"
  have root: "dir_of RamBackend ?t (fs_root ?t)" using fs(1) by (simp add: tree_ok_def)
  have nf: "lookup ?t ?f = (?t, None)" using lookup_root [OF root name(1)] name(2) by simp
  have "length (?f @ [0]) \<le> 64" using name(1) by (simp add: good_component_def)
  from mesa_create_file_wf [OF fs(2,3) this, of 0 0 420] obtain s1 where
    s1: "mesa_create_file ?t (?f @ [0]) 0 0 420 = Some (s1, Some ?n)" "mesa_wf s1"
      "entries s1 = (entries ?t)[i := fill_entry (entries ?t ! i) (?f @ [0]) (100 + of_nat i * 10) 1 0 0 420]"
      "same_tree ?t s1" "i < 8" and
    n: "nodes s1 ! ?n = zero_node\<lparr>nname := ?f @ [0], ninode := of_nat i, nflags := FS_FILE,
         nuid := 0, ngid := 0, nmask := 420, read_op := Some MesaBackend, write_op := Some MesaBackend\<rparr>"
    by blast
  have len: "length (entries ?t) = 8" "length (entries s1) = 8" using fs(2) s1(2) by (simp_all add: mesa_wf_def)
  have nd: "take 6 ?f \<noteq> bytes ''/disk/''" "take 5 ?f \<noteq> bytes ''disk/''"
    using name(1) by (auto simp: good_component_def bytes_def take_Cons' dest!: arg_cong [where f = set] in_set_takeD)
  have sn: "save_node ?f ?t = Some (s1, Some ?n)" using nf nd s1(1) by (simp add: save_node_def del: take_Suc_Cons)
  have ok1: "mesa_ok s1 ?n" using s1 len n
    by (simp add: mesa_ok_def mesa_index_def unat_of_nat_u32 fill_entry_def)
  have "length ?text \<le> 5120" using ed(1) by (simp add: nano_wf_def)
  with mesa_write_content [OF ok1, of 0 ?text] obtain s2 where
    s2: "mesa_write s1 ?n 0 ?text = Some (s2, of_nat (length ?text))" "mesa_ok s2 ?n" by auto
  note fr = mesa_write_frame [OF s2(1) len(2)]
  have st: "same_tree ?t s2" using s1(4) fr same_tree_trans by blast
  have "file_write s1 ?n 0 ?text = Some (s2, of_nat (length ?text))"
    using s2(1) n by (simp add: file_write_def write_fs_def backend_write_def)
  then have sv: "save d = Some (d\<lparr>tree := s2\<rparr>)"
    using ed(3) sn strlen_text [OF ed(1)] by (simp add: save_def)
  have "slot_of s2 (name @ [0]) = None" using slot_of_same_tree [OF st] fs(1) name(2) by (simp add: tree_ok_def)
  moreover have ok2: "tree_ok s2 dn" using tree_ok_same [OF st fs(1)] .
  ultimately have "snd (lookup s2 ?f) = None"
    using lookup_root [of s2 name] name(1) by (simp add: tree_ok_def)
  moreover have "present (entries s2 ! i) = 1" using fr s1(3,5) len by (simp add: fill_entry_def)
  moreover have "present (entries ?t ! i) = 0" using fs(3) by (auto simp: free_entry_def find_Some_iff)
  moreover have "nano_handle_input True 0x6F d
      = Some (say ([10] @ bytes ''[ File saved successfully ]'') (ink 15 2 (refresh_screen (d\<lparr>tree := s2\<rparr>))))"
    using ed(2) sv by (simp add: nano_handle_input_def to_upper_def)
  ultimately show ?thesis using s2(2) ok2 by (simp add: mesa_ok_def)
qed

lemma nano_save_lost_example:
  "\<exists>t d1. boot_files True fs_boot0 = Some t
    \<and> nano_handle_input True 0x6F (desk0\<lparr>tree := t, editor := nano0\<lparr>running := True, current_file := bytes ''/notes''\<rparr>\<rparr>) = Some d1
    \<and> snd (lookup (tree d1) (bytes ''/notes'')) = None \<and> present (entries (tree d1) ! 0) = 1"
proof -
  obtain t dn where t: "boot_files True fs_boot0 = Some t" "tree_ok t dn" "mesa_wf t" "entries t = replicate 8 zero_entry" and
    slots: "\<And>nm. 0 \<in> set nm \<Longrightarrow> slot_of t nm = (if cstr nm = bytes ''readme.txt'' then Some 0
      else if cstr nm = bytes ''disk'' then Some 1 else None)"
    using boot_files_tree [OF fresh_boot0] by blast
  let ?d = "desk0\<lparr>tree := t, editor := nano0\<lparr>running := True, current_file := bytes ''/notes''\<rparr>\<rparr>"
  have f: "bytes ''/notes'' = slash # bytes ''notes''" by (simp add: bytes_def)
  have free: "free_entry t = Some 0" by (simp add: free_entry_def t(4) upt_rec zero_entry_def)
  have slot: "slot_of t (bytes ''notes'' @ [0]) = None" by (subst slots) (simp_all add: bytes_def)
  have good: "good_component (bytes ''notes'')" by (simp add: good_component_def bytes_def)
  have ed: "nano_wf (editor ?d)" "running (editor ?d)" "current_file (editor ?d) = slash # bytes ''notes''"
    using nano0_wf [of True] by (simp_all add: f nano_wf_def)
  have tr: "tree ?d = t" by simp
  show ?thesis
    using nano_save_lost [OF ed, unfolded tr, OF t(2,3) free good slot] t(1) unfolding f by blast
qed

text \<open>Saving over an existing file patches its beginning: a shorter text leaves the old tail behind it.\<close>

lemma nano_save_keeps_tail:
  assumes ed: "nano_wf (editor d)" "running (editor d)" "current_file (editor d) \<noteq> []"
    and fnode: "lookup (tree d) (current_file (editor d)) = (t, Some n)" "mesa_ok t n" "write_op (nodes t ! n) = Some MesaBackend"
  shows "\<exists>d1. nano_handle_input True 0x6F d = Some d1 \<and> mesa_content (tree d1) n
    = cstr (buffer (editor d)) @ drop (length (cstr (buffer (editor d)))) (mesa_content t n)"
proof -
  let ?text = "cstr (buffer (editor d))"
  have "length ?text \<le> 5120" using ed(1) by (simp add: nano_wf_def)
  with mesa_write_content [OF fnode(2), of 0 ?text] obtain t1 where
    t1: "mesa_write t n 0 ?text = Some (t1, of_nat (length ?text))" "mesa_content t1 n = patch (mesa_content t n) 0 ?text" by auto
  have "file_write t n 0 ?text = Some (t1, of_nat (length ?text))"
    using t1(1) fnode(3) by (simp add: file_write_def write_fs_def backend_write_def)
  then have "save d = Some (d\<lparr>tree := t1\<rparr>)"
    using ed(3) fnode(1) strlen_text [OF ed(1)] by (simp add: save_def save_node_def)
  then show ?thesis using ed(2) t1(2) by (simp add: nano_handle_input_def to_upper_def patch_def)
qed

end
