(* ===== verification/MBR.thy ===== *)
theory MBR
  imports VGA IDE
begin

text \<open>
  The partition table, \<open>fs/mbr.cpp\<close>: \<open>list_partitions\<close> reads sector 0 and prints one line per used entry
  on the console. The disk is the map of sectors of \<open>IDE\<close>.
\<close>

record partition_entry =
  attributes :: u8
  ptype :: u8
  plba_start :: u32
  sector_count :: u32

definition partition_at :: "u8 list \<Rightarrow> nat \<Rightarrow> partition_entry" where
  "partition_at sector i =
     (let m = mem_of (drop (446 + 16 * i) sector)
      in \<lparr>attributes = m 0, ptype = m 4, plba_start = le32 m 8, sector_count = le32 m 12\<rparr>)"

definition mbr_signature :: "u8 list \<Rightarrow> u16" where
  "mbr_signature sector = le16 (mem_of sector) 510"

definition format_name :: "u8 \<Rightarrow> u8 list" where
  "format_name t = (if t = 0x83 then bytes ''Linux      '' else if t = 0x07 then bytes ''NTFS/HPFS  ''
     else if t = 0x0C then bytes ''FAT32 LBA  '' else if t = 0x0B then bytes ''FAT32      '' else bytes ''Unknown    '')"

definition size_mb :: "partition_entry \<Rightarrow> u32" where
  "size_mb p = (sector_count p * 512) div (1024 * 1024)"

definition partition_line :: "nat \<Rightarrow> partition_entry \<Rightarrow> u8 list" where
  "partition_line i p =
     (let size_text = itoa (sint (size_mb p)) 10
      in itoa (int i + 1) 10 @ bytes ''    '' @ (if attributes p AND 0x80 \<noteq> 0 then bytes ''*'' else bytes '' '') @ bytes ''     ''
         @ bytes ''0x'' @ itoa (uint (ptype p)) 16 @ bytes ''       '' @ format_name (ptype p)
         @ size_text @ bytes '' MiB'' @ replicate (7 - length size_text) 0x20
         @ itoa (sint (sector_count p)) 10 @ [10])"

definition show_text :: "u8 \<Rightarrow> u8 list \<Rightarrow> vga \<Rightarrow> vga" where
  "show_text color text v = vga_write_string text (set_color color v)"

definition list_partitions :: "disk \<Rightarrow> vga \<Rightarrow> vga" where
  "list_partitions d v =
     (let sector = disk_read d 0 in
      if mbr_signature sector \<noteq> 0xAA55
      then show_text (vga_entry_color 12 0) (bytes ''Error: Disk not partitioned or invalid MBR signature.'' @ [10]) v
      else let v1 = show_text (vga_entry_color 11 0) ([10] @ bytes ''--- MesaOS Disk Manager ---'' @ [10]) v;
               v2 = show_text (vga_entry_color 15 0) (bytes ''Disk /dev/hda: 64 MiB (67108864 bytes)'' @ [10, 10]) v1;
               v3 = show_text (vga_entry_color 7 0) (bytes ''Num  Boot  Type         Format      Size (MB)   Sectors'' @ [10]
                      @ bytes ''-----------------------------------------------------------'' @ [10]) v2;
               v4 = fold (\<lambda>i v. if ptype (partition_at sector i) = 0 then v
                                 else vga_write_string (partition_line i (partition_at sector i)) v) [0..<4] v3
           in vga_write_string [10] v4)"

text \<open>
  The product of the sector count and 512 wraps at 4 GiB, so every size is shown modulo 4096 MiB.
\<close>

lemma size_mb_mod: "unat (size_mb p) = (unat (sector_count p) div 2048) mod 4096"
proof -
  have "unat (size_mb p) = (unat (sector_count p) * 512 mod 4294967296) div 1048576"
    by (simp add: size_mb_def unat_div unat_word_ariths)
  also have "\<dots> = (unat (sector_count p) mod 8388608 * 512) div 1048576"
    using mod_mult_mult2 [of "unat (sector_count p)" 512 8388608] by simp
  also have "\<dots> = unat (sector_count p) mod 8388608 div 2048"
    using div_mult_mult2 [of 512 "unat (sector_count p) mod 8388608" 2048] by simp
  also have "\<dots> = (unat (sector_count p) div 2048) mod 4096"
    using mod_mult2_eq [of "unat (sector_count p)" 2048 4096] by simp
  finally show ?thesis .
qed

end
