(* ===== verification/Services.thy ===== *)
theory Services
  imports TCP
begin

text \<open>
  The servers on top of TCP, \<open>net/http.cpp\<close> and \<open>net/ssh.cpp\<close>: their start, one round of each server
  process, the page and the header the web server sends, and the packet builder and the password check
  of the shell server. Processes handed to the scheduler are recorded in \<open>spawned\<close>. \<open>None\<close> is a memory
  fault; a socket variable of -1 is \<open>None\<close> in the state.
\<close>

section \<open>State\<close>

datatype service = Httpd | Sshd | Ssh_session

record services = tcp +
  http_socket :: "nat option"
  ssh_socket :: "nat option"
  current_ssh_client_socket :: "nat option"
  spawned :: "service list"

section \<open>The web server\<close>

definition html_head :: "u8 list list" where
  "html_head =
    [bytes ''<!DOCTYPE html>'',
     bytes ''<html lang='' @ [34] @ bytes ''en'' @ [34] @ bytes ''>'',
     bytes ''<head>'',
     bytes ''    <meta charset='' @ [34] @ bytes ''UTF-8'' @ [34] @ bytes ''>'',
     bytes ''    <meta name='' @ [34] @ bytes ''viewport'' @ [34] @ bytes '' content='' @ [34] @ bytes ''width=device-width, initial-scale=1.0'' @ [34] @ bytes ''>'',
     bytes ''    <title>MesaOS - Network Successfully!</title>'',
     bytes ''    <style>'',
     bytes ''        body {'',
     bytes ''            font-family: '' @ [39] @ bytes ''Segoe UI'' @ [39] @ bytes '', Tahoma, Geneva, Verdana, sans-serif;'',
     bytes ''            background: linear-gradient(135deg, #667eea 0%, #764ba2 100%);'',
     bytes ''            margin: 0;'',
     bytes ''            padding: 0;'',
     bytes ''            display: flex;'',
     bytes ''            justify-content: center;'',
     bytes ''            align-items: center;'',
     bytes ''            min-height: 100vh;'',
     bytes ''            color: white;'',
     bytes ''        }'',
     bytes ''        .container {'',
     bytes ''            text-align: center;'',
     bytes ''            background: rgba(255, 255, 255, 0.1);'',
     bytes ''            padding: 40px;'',
     bytes ''            border-radius: 20px;'',
     bytes ''            backdrop-filter: blur(10px);'',
     bytes ''            box-shadow: 0 8px 32px rgba(0, 0, 0, 0.3);'',
     bytes ''            border: 1px solid rgba(255, 255, 255, 0.2);'',
     bytes ''        }'',
     bytes ''        h1 {'',
     bytes ''            font-size: 3em;'',
     bytes ''            margin-bottom: 20px;'',
     bytes ''            text-shadow: 2px 2px 4px rgba(0, 0, 0, 0.3);'',
     bytes ''        }'',
     bytes ''        .success {'',
     bytes ''            font-size: 1.5em;'',
     bytes ''            color: #4CAF50;'',
     bytes ''            margin: 20px 0;'',
     bytes ''            font-weight: bold;'',
     bytes ''        }'',
     bytes ''        .info {'',
     bytes ''            background: rgba(255, 255, 255, 0.2);'',
     bytes ''            padding: 20px;'',
     bytes ''            border-radius: 10px;'',
     bytes ''            margin: 20px 0;'',
     bytes ''        }'',
     bytes ''        .services {'',
     bytes ''            display: flex;'',
     bytes ''            justify-content: space-around;'',
     bytes ''            margin-top: 30px;'',
     bytes ''        }'',
     bytes ''        .service {'',
     bytes ''            background: rgba(255, 255, 255, 0.1);'',
     bytes ''            padding: 15px;'',
     bytes ''            border-radius: 10px;'',
     bytes ''            flex: 1;'',
     bytes ''            margin: 0 10px;'',
     bytes ''        }'',
     bytes ''        .service h3 {'',
     bytes ''            margin-top: 0;'',
     bytes ''            color: #81C784;'',
     bytes ''        }'',
     bytes ''        .footer {'',
     bytes ''            margin-top: 30px;'',
     bytes ''            opacity: 0.8;'',
     bytes ''            font-size: 0.9em;'',
     bytes ''        }'',
     bytes ''    </style>'',
     bytes ''</head>'']"

definition html_body :: "u8 list list" where
  "html_body =
    [bytes ''<body>'',
     bytes ''    <div class='' @ [34] @ bytes ''container'' @ [34] @ bytes ''>'',
     bytes ''        <h1>'' @ [240, 159, 154, 128] @ bytes '' MesaOS</h1>'',
     bytes ''        <div class='' @ [34] @ bytes ''success'' @ [34] @ bytes ''>'' @ [226, 156, 133] @ bytes '' Network Successfully!</div>'',
     bytes ''        <div class='' @ [34] @ bytes ''info'' @ [34] @ bytes ''>'',
     bytes ''            <p><strong>Hello World from MesaOS!</strong></p>'',
     bytes ''            <p>This page is being served by a custom HTTP server running on MesaOS - a fully custom operating system written from scratch!</p>'',
     bytes ''            <p>You are accessing this from your home network, proving that MesaOS has full TCP/IP networking capabilities.</p>'',
     bytes ''        </div>'',
     bytes ''        <div class='' @ [34] @ bytes ''services'' @ [34] @ bytes ''>'',
     bytes ''            <div class='' @ [34] @ bytes ''service'' @ [34] @ bytes ''>'',
     bytes ''                <h3>'' @ [240, 159, 140, 144] @ bytes '' HTTP</h3>'',
     bytes ''                <p>Port 80 - Web Server</p>'',
     bytes ''            </div>'',
     bytes ''            <div class='' @ [34] @ bytes ''service'' @ [34] @ bytes ''>'',
     bytes ''                <h3>'' @ [240, 159, 148, 144] @ bytes '' SSH</h3>'',
     bytes ''                <p>Port 22 - Secure Shell</p>'',
     bytes ''            </div>'',
     bytes ''            <div class='' @ [34] @ bytes ''service'' @ [34] @ bytes ''>'',
     bytes ''                <h3>'' @ [240, 159, 147, 161] @ bytes '' TCP/IP</h3>'',
     bytes ''                <p>Full Network Stack</p>'',
     bytes ''            </div>'',
     bytes ''        </div>'',
     bytes ''        <div class='' @ [34] @ bytes ''footer'' @ [34] @ bytes ''>'',
     bytes ''            <p>MesaOS v0.6 - Custom Operating System with Networking</p>'',
     bytes ''            <p>Built with '' @ [226, 157, 164, 239, 184, 143] @ bytes '' using C++ from scratch</p>'',
     bytes ''        </div>'',
     bytes ''    </div>'',
     bytes ''</body>'',
     bytes ''</html>'']"

definition html_content :: "u8 list" where
  "html_content = concat (map (\<lambda>l. l @ [13, 10]) (html_head @ html_body))"

definition http_header :: "nat \<Rightarrow> u8 list" where
  "http_header n =
     bytes ''HTTP/1.1 200 OK'' @ [13, 10] @ bytes ''Content-Type: text/html; charset=UTF-8'' @ [13, 10] @
     bytes ''Content-Length: '' @ itoa (int n) 10 @ [13, 10] @ bytes ''Connection: close'' @ [13, 10] @
     bytes ''Server: MesaOS/0.6'' @ [13, 10] @ [13, 10]"

definition send_http_response :: "nat \<Rightarrow> 'a tcp_scheme \<Rightarrow> 'a tcp_scheme option" where
  "send_http_response fd s =
     (case tcp_send fd (http_header (length html_content)) s of None \<Rightarrow> None
      | Some (_, s1) \<Rightarrow> map_option snd (tcp_send fd html_content s1))"

definition http_initialize :: "'a services_scheme \<Rightarrow> 'a services_scheme" where
  "http_initialize s =
     (case tcp_listen 80 s of
        (Inl (), s1) \<Rightarrow> s1\<lparr>http_socket := None\<rparr>
      | (Inr c, s1) \<Rightarrow> s1\<lparr>http_socket := Some c, spawned := spawned s1 @ [Httpd]\<rparr>)"

text \<open>One round of the endless loop of the server process.\<close>

definition http_server_round :: "'a services_scheme \<Rightarrow> 'a services_scheme option" where
  "http_server_round s =
     (case http_socket s of None \<Rightarrow> None
      | Some fd \<Rightarrow>
          (case tcp_accept fd s of
             None \<Rightarrow> None
           | Some (Inl ()) \<Rightarrow> Some s
           | Some (Inr (client, _, _)) \<Rightarrow>
               (case send_http_response client s of None \<Rightarrow> None | Some s1 \<Rightarrow> tcp_close client s1)))"

text \<open>\<open>send_response\<close> builds head and body in a buffer of 2048 bytes, the terminator included.\<close>

definition http_response :: "u8 list \<Rightarrow> u8 list \<Rightarrow> u8 list \<Rightarrow> u8 list" where
  "http_response status content_type body =
     bytes ''HTTP/1.1 '' @ status @ [13, 10] @ bytes ''Content-Type: '' @ content_type @ [13, 10] @
     bytes ''Content-Length: '' @ itoa (int (length body)) 10 @ [13, 10, 13, 10] @ body"

definition send_response :: "nat \<Rightarrow> u8 list \<Rightarrow> u8 list \<Rightarrow> u8 list \<Rightarrow> 'a tcp_scheme \<Rightarrow> 'a tcp_scheme option" where
  "send_response fd status content_type body s =
     (let response = http_response status content_type body in
      if length response \<ge> 2048 then None else map_option snd (tcp_send fd response s))"

section \<open>The shell server\<close>

definition ssh_users :: "(u8 list \<times> u8 list) list" where
  "ssh_users = [(bytes ''mesa'', bytes ''password''), (bytes ''root'', bytes ''rootpass'')]"

definition ssh_initialize :: "'a services_scheme \<Rightarrow> 'a services_scheme" where
  "ssh_initialize s =
     (case tcp_listen 22 s of
        (Inl (), s1) \<Rightarrow> s1\<lparr>ssh_socket := None\<rparr>
      | (Inr c, s1) \<Rightarrow> s1\<lparr>ssh_socket := Some c, spawned := spawned s1 @ [Sshd]\<rparr>)"

definition send_and_close :: "nat \<Rightarrow> u8 list \<Rightarrow> 'a tcp_scheme \<Rightarrow> 'a tcp_scheme option" where
  "send_and_close fd text s = (case tcp_send fd text s of None \<Rightarrow> None | Some (_, s1) \<Rightarrow> tcp_close fd s1)"

definition ssh_session_handler :: "'a services_scheme \<Rightarrow> 'a services_scheme option" where
  "ssh_session_handler s =
     (case current_ssh_client_socket s of None \<Rightarrow> None
      | Some fd \<Rightarrow> send_and_close fd (bytes ''SSH-2.0-MesaOS_1.0'' @ [13, 10]) s)"

definition ssh_server_round :: "'a services_scheme \<Rightarrow> 'a services_scheme option" where
  "ssh_server_round s =
     (case ssh_socket s of None \<Rightarrow> None
      | Some fd \<Rightarrow>
          (case tcp_accept fd s of
             None \<Rightarrow> None
           | Some (Inl ()) \<Rightarrow> Some s
           | Some (Inr (client, _, _)) \<Rightarrow>
               Some (s\<lparr>current_ssh_client_socket := Some client, spawned := spawned s @ [Ssh_session]\<rparr>)))"

definition handle_connection :: "nat \<Rightarrow> 'a tcp_scheme \<Rightarrow> 'a tcp_scheme option" where
  "handle_connection fd s = send_and_close fd (bytes ''SSH-2.0-MesaOS_SSH_1.0'' @ [13, 10]) s"

definition handle_ssh_session :: "nat \<Rightarrow> 'a tcp_scheme \<Rightarrow> 'a tcp_scheme option" where
  "handle_ssh_session fd s = send_and_close fd ([13, 10] @ bytes ''Welcome to MesaOS SSH Server'' @ [13, 10]) s"

definition authenticate_user :: "u8 list \<Rightarrow> u8 list \<Rightarrow> bool" where
  "authenticate_user username password =
     list_ex (\<lambda>u. strcmp (username @ [0]) (fst u @ [0]) = Some 0 \<and> strcmp (password @ [0]) (snd u @ [0]) = Some 0) ssh_users"

definition ssh_padding :: "u32 \<Rightarrow> u8" where
  "ssh_padding packet_length =
     (let p = ucast (8 - packet_length mod 8) :: u8 in if p < 4 then p + 8 else p)"

definition ssh_packet :: "u8 \<Rightarrow> u8 list \<Rightarrow> u8 list" where
  "ssh_packet t data =
     (let packet_length = 1 + of_nat (length data) :: u32;
          padding_length = ssh_padding packet_length;
          total = 4 + 1 + packet_length + ucast padding_length;
          len = total - 4
      in [ucast (drop_bit 24 len), ucast (drop_bit 16 len), ucast (drop_bit 8 len), ucast len, padding_length, t] @ data
         @ replicate (unat padding_length) 0)"

definition send_ssh_packet :: "nat \<Rightarrow> u8 \<Rightarrow> u8 list \<Rightarrow> 'a tcp_scheme \<Rightarrow> 'a tcp_scheme option" where
  "send_ssh_packet fd t data s =
     (let packet = ssh_packet t data in
      if length packet > 4096 then None else map_option snd (tcp_send fd packet s))"

section \<open>A listening socket\<close>

text \<open>The listener's own record: bound to the peer 0.0.0.0, which no segment from a real host matches.\<close>

definition listening :: "nat \<Rightarrow> 'a tcp_scheme \<Rightarrow> bool" where
  "listening fd s \<longleftrightarrow> (\<exists>k. conn_at s fd = Some k \<and> tstate k = LISTEN \<and> remote_ip k = 0)"

lemma find_other_map:
  assumes "c \<noteq> fd" and "\<And>k. cid (f k) = cid k"
  shows "find (\<lambda>k. cid k = fd) (map (\<lambda>k. if cid k = c then f k else k) ks) = find (\<lambda>k. cid k = fd) ks"
  using assms by (induction ks) auto

lemma conn_at_other_map: "c \<noteq> fd \<Longrightarrow> (\<And>k. cid (f k) = cid k) \<Longrightarrow> conn_at (map_conn c f s) fd = conn_at s fd"
  by (simp add: conn_at_def map_conn_def find_other_map)

lemma conn_at_other_send:
  fixes s :: "'a tcp_scheme"
  assumes "c \<noteq> fd"
  shows "conn_at (send_on c fl data s) fd = conn_at s fd"
proof -
  have adv: "conn_at (map_conn c (advance fl n) t) fd = conn_at t fd" for n and t :: "'a tcp_scheme"
    using assms by (intro conn_at_other_map) simp_all
  have io: "conn_at (ipv4_send d p x t) fd = conn_at t fd" "conn_at (snd (tcp_kmalloc t)) fd = conn_at t fd"
    for d p x and t :: "'a tcp_scheme" by (simp_all add: conn_at_def)
  have "conn_at (tcp_send_packet k fl data s) fd = conn_at s fd" if "cid k = c" for k
    using that by (simp add: tcp_send_packet_def Let_def split_beta adv io)
  then show ?thesis by (auto simp: send_on_def split: option.split dest: conn_at_mem)
qed

lemma conn_at_other_remove: "c \<noteq> fd \<Longrightarrow> conn_at (remove_connection c s) fd = conn_at s fd"
proof -
  assume c: "c \<noteq> fd"
  have "find (\<lambda>k. cid k = fd) (filter (\<lambda>k. cid k \<noteq> c) ks) = find (\<lambda>k. cid k = fd) ks" for ks
    using c by (induction ks) auto
  then show ?thesis by (simp add: conn_at_def remove_connection_def)
qed

lemma conn_at_other_react: "c \<noteq> fd \<Longrightarrow> conn_at (react c st h s) fd = conn_at s fd"
  by (cases st) (auto simp: react_def set_state_def receive_data_def conn_at_other_send conn_at_other_map conn_at_other_remove)

lemma create_other:
  assumes "fd \<notin> set (heap_answers s)" and "fd \<noteq> 0" and "create_connection a b c d s = (r, s2)"
  shows "conn_at s2 fd = conn_at s fd" and "r = Some p \<Longrightarrow> p \<noteq> fd"
  using assms by (auto simp: create_connection_def tcp_kmalloc_def conn_at_def new_conn_def split: list.splits if_splits)

lemma connection_for_other:
  assumes "fd \<notin> set (heap_answers s)" and "fd \<noteq> 0" and "\<forall>k\<in>set (connections s). remote_ip k = src \<longrightarrow> cid k \<noteq> fd"
    and "connection_for src h s = (r, s2)"
  shows "conn_at s2 fd = conn_at s fd \<and> r \<noteq> Some fd"
proof (cases "find_connection (my_ip s) src (s_dest_port h) (s_src_port h) s")
  case (Some k)
  then have "remote_ip k = src" "k \<in> set (connections s)" by (auto simp: find_connection_def find_Some_iff)
  then show ?thesis using Some assms(3,4) by (auto simp: connection_for_def)
next
  case None
  let ?s1 = "if 0 - last_syn_time s < 1000 then s\<lparr>syn_count := syn_count s + 1\<rparr> else s\<lparr>syn_count := 1, last_syn_time := 0\<rparr>"
  have h: "fd \<notin> set (heap_answers ?s1)" "conn_at ?s1 fd = conn_at s fd" using assms(1) by (simp_all add: conn_at_def)
  obtain r' s3 where cr: "create_connection (my_ip ?s1) src (s_dest_port h) (s_src_port h) ?s1 = (r', s3)" by force
  note c = create_other [OF h(1) assms(2) cr]
  have "conn_at (map_conn q (\<lambda>k. k\<lparr>tstate := LISTEN, syn_timestamp := 0\<rparr>) s3) fd = conn_at s3 fd" if "q \<noteq> fd" for q
    using that by (intro conn_at_other_map) simp_all
  then show ?thesis using None assms(4) c h(2) cr
    by (auto simp: connection_for_def Let_def split: if_splits option.splits prod.splits)
qed

lemma handle_listening:
  assumes ok: "tcp_ok s" and l: "listening fd s" and src: "src \<noteq> 0"
  shows "listening fd (tcp_handle_packet src m sz s)"
proof -
  let ?h = "segment_view m sz"
  obtain kl where kl: "conn_at s fd = Some kl" "tstate kl = LISTEN" "remote_ip kl = 0"
    using l by (auto simp: listening_def)
  then have mem: "kl \<in> set (connections s)" "cid kl = fd" using conn_at_mem by blast+
  then have fd: "fd \<notin> set (heap_answers s)" "fd \<noteq> 0" using ok by (auto simp: tcp_ok_def)
  have peers: "\<forall>k\<in>set (connections s). remote_ip k = src \<longrightarrow> cid k \<noteq> fd"
    using distinct_cid [OF ok] mem kl(3) src by force
  obtain r s1 where c: "connection_for src ?h s = (r, s1)" by force
  note o = connection_for_other [OF fd peers c]
  have "conn_at (tcp_handle_packet src m sz s) fd = conn_at s fd"
  proof (cases r)
    case None
    then show ?thesis using c o by (simp add: tcp_handle_packet_def)
  next
    case (Some q)
    then have q: "q \<noteq> fd" using o by simp
    have "conn_at (map_conn q (acked ?h) s1) fd = conn_at s1 fd"
      using q by (intro conn_at_other_map) (simp_all add: acked_def)
    then show ?thesis using c o Some q
      by (auto simp: tcp_handle_packet_def Let_def conn_at_other_react split: option.split)
  qed
  then show ?thesis using kl by (simp add: listening_def)
qed

text \<open>TCP touches none of the servers' own variables.\<close>

lemma tcp_more_send: "tcp.more (send_on c fl data s) = tcp.more s"
proof -
  have "tcp.more (map_conn c f t) = tcp.more t" "tcp.more (snd (tcp_kmalloc t)) = tcp.more t" "tcp.more (ipv4_send d p x t) = tcp.more t"
    for c f d p x and t :: "'a tcp_scheme"
    using ipv4_send_more [of d p x t] by (auto simp: map_conn_def tcp_kmalloc_def split: list.split)
  then show ?thesis by (simp add: send_on_def tcp_send_packet_def Let_def split_beta split: option.split)
qed

lemma tcp_more_simple:
  "tcp.more (map_conn c f s) = tcp.more s" "tcp.more (set_state c st s) = tcp.more s"
  "tcp.more (remove_connection c s) = tcp.more s" "tcp.more (snd (create_connection a b p q s)) = tcp.more s"
  by (auto simp: map_conn_def set_state_def remove_connection_def create_connection_def tcp_kmalloc_def split: list.split)

lemma tcp_more_react: "tcp.more (react c st h s) = tcp.more s"
  by (cases st) (simp_all add: react_def tcp_more_simple tcp_more_send)

lemma create_more: "create_connection a b p q s = (r, s2) \<Longrightarrow> tcp.more s2 = tcp.more s"
  using tcp_more_simple(4) [of a b p q s] by simp

lemma tcp_more_connection_for: "tcp.more (snd (connection_for src h s)) = tcp.more s"
  by (auto simp: connection_for_def Let_def tcp_more_simple(1) split: option.split prod.split dest!: create_more)

lemma tcp_more_handle: "tcp.more (tcp_handle_packet src m sz s) = tcp.more s"
  using tcp_more_connection_for [of src "segment_view m sz" s]
  by (cases "connection_for src (segment_view m sz) s")
    (simp add: tcp_handle_packet_def Let_def tcp_more_react tcp_more_simple(1) split: option.split)

lemma services_more:
  "tcp.more s = tcp.more s' \<Longrightarrow> http_socket s = http_socket s' \<and> ssh_socket s = ssh_socket s' \<and> spawned s = spawned s'"
  by (cases s; cases s') simp

lemma server_fields:
  "http_socket (tcp_handle_packet src m sz s) = http_socket s" "ssh_socket (tcp_handle_packet src m sz s) = ssh_socket s"
  "spawned (tcp_handle_packet src m sz s) = spawned s"
  using services_more [OF tcp_more_handle [of src m sz s]] by simp_all

lemma listen_more: "tcp_listen port s = (r, s1) \<Longrightarrow> tcp.more s1 = tcp.more s"
  by (auto simp: tcp_listen_def tcp_more_simple(2) split: prod.splits option.splits dest!: create_more)

lemma tcp_listen_listening:
  assumes "tcp_ok s" and "tcp_listen port s = (Inr c, s1)"
  shows "listening c s1" and "listening fd s \<Longrightarrow> listening fd s1" and "tcp_ok s1"
proof -
  obtain s2 where cr: "create_connection (my_ip s) 0 port 0 s = (Some c, s2)" and s1: "s1 = set_state c LISTEN s2"
    using assms(2) by (auto simp: tcp_listen_def split: prod.splits option.splits)
  have "conn_at s2 c = Some (new_conn c (my_ip s) 0 port 0)"
    using cr by (auto simp: create_connection_def conn_at_def new_conn_def split: prod.splits if_splits)
  then show "listening c s1" unfolding s1 listening_def by (simp add: new_conn_def)
  show "tcp_ok s1" using listen_ok [OF assms(1), of port] assms(2) by simp
  assume l: "listening fd s"
  then obtain k where k: "conn_at s fd = Some k" "tstate k = LISTEN" "remote_ip k = 0" by (auto simp: listening_def)
  then have fd: "fd \<notin> set (heap_answers s)" "fd \<noteq> 0" using assms(1) conn_at_mem [OF k(1)] by (auto simp: tcp_ok_def)
  note o = create_other [OF fd cr]
  then have "conn_at s1 fd = conn_at s2 fd"
    unfolding s1 set_state_def by (intro conn_at_other_map) auto
  then show "listening fd s1" using o k by (simp add: listening_def)
qed

section \<open>The servers at work\<close>

datatype net_event = Segment u32 mem u32 | Http_round | Ssh_round

fun serve :: "net_event list \<Rightarrow> 'a services_scheme \<Rightarrow> 'a services_scheme option" where
  "serve [] s = Some s"
| "serve (Segment src m sz # es) s = serve es (tcp_handle_packet src m sz s)"
| "serve (Http_round # es) s = (case http_server_round s of None \<Rightarrow> None | Some s1 \<Rightarrow> serve es s1)"
| "serve (Ssh_round # es) s = (case ssh_server_round s of None \<Rightarrow> None | Some s1 \<Rightarrow> serve es s1)"

fun from_host :: "net_event \<Rightarrow> bool" where
  "from_host (Segment src m sz) = (src \<noteq> 0)"
| "from_host e = True"

fun only_segment :: "net_event \<Rightarrow> 'a services_scheme \<Rightarrow> 'a services_scheme" where
  "only_segment (Segment src m sz) s = tcp_handle_packet src m sz s"
| "only_segment e s = s"

definition servers_up :: "'a services_scheme \<Rightarrow> bool" where
  "servers_up s \<longleftrightarrow> tcp_ok s \<and> (\<exists>h c. http_socket s = Some h \<and> ssh_socket s = Some c \<and> listening h s \<and> listening c s)"

lemma accept_listening: "listening fd s \<Longrightarrow> tcp_ok s \<Longrightarrow> tcp_accept fd s = Some (Inl ())"
  by (auto simp: listening_def tcp_accept_def)

lemma servers_idle: "servers_up s \<Longrightarrow> http_server_round s = Some s \<and> ssh_server_round s = Some s"
proof -
  assume "servers_up s"
  then obtain h c where hc: "tcp_ok s" "http_socket s = Some h" "ssh_socket s = Some c" "listening h s" "listening c s"
    unfolding servers_up_def by blast
  show ?thesis
    unfolding http_server_round_def ssh_server_round_def hc(2,3) option.case
      accept_listening [OF hc(4,1)] accept_listening [OF hc(5,1)] sum.case unit.case by blast
qed

lemma servers_up_segment: "servers_up s \<Longrightarrow> src \<noteq> 0 \<Longrightarrow> servers_up (tcp_handle_packet src m sz s)"
proof -
  assume up: "servers_up s" and src: "src \<noteq> 0"
  then obtain h c where hc: "tcp_ok s" "http_socket s = Some h" "ssh_socket s = Some c" "listening h s" "listening c s"
    by (auto simp: servers_up_def)
  then show "servers_up (tcp_handle_packet src m sz s)"
    using handle_ok [OF hc(1)] handle_listening [OF hc(1,4) src] handle_listening [OF hc(1,5) src]
    by (simp add: servers_up_def server_fields)
qed

lemma servers_started:
  fixes s :: "'a services_scheme"
  assumes "tcp_ok s" and "http_socket (ssh_initialize (http_initialize s)) \<noteq> None"
    and "ssh_socket (ssh_initialize (http_initialize s)) \<noteq> None"
  shows "servers_up (ssh_initialize (http_initialize s))"
proof -
  have cong: "tcp_ok (t\<lparr>http_socket := a, spawned := b\<rparr>) = tcp_ok t" "tcp_ok (t\<lparr>ssh_socket := a, spawned := b\<rparr>) = tcp_ok t"
    "listening fd (t\<lparr>http_socket := a, spawned := b\<rparr>) = listening fd t"
    "listening fd (t\<lparr>ssh_socket := a, spawned := b\<rparr>) = listening fd t" for a b fd and t :: "'a services_scheme"
    by (simp_all add: tcp_ok_def listening_def conn_at_def)
  let ?t = "http_initialize s"
  obtain r s2 where c: "tcp_listen 22 ?t = (r, s2)" by force
  then have keep: "http_socket s2 = http_socket ?t" using services_more [OF listen_more] by blast
  obtain r0 s1 where h: "tcp_listen 80 s = (r0, s1)" by force
  have "ssh_socket (ssh_initialize ?t) = None" if "r = Inl ()"
    unfolding ssh_initialize_def c that prod.case sum.case unit.case by simp
  then obtain b where b: "r = Inr b" using assms(3) by (cases r) auto
  have cs: "ssh_initialize ?t = s2\<lparr>ssh_socket := Some b, spawned := spawned s2 @ [Sshd]\<rparr>"
    unfolding ssh_initialize_def c b prod.case sum.case ..
  have "http_socket (ssh_initialize ?t) = http_socket ?t" unfolding cs using keep by simp
  then have "http_socket ?t \<noteq> None" using assms(2) by argo
  moreover have "http_socket ?t = None" if "r0 = Inl ()"
    unfolding http_initialize_def h that prod.case sum.case unit.case by simp
  ultimately obtain a where a: "r0 = Inr a" by (cases r0) auto
  note ab = a b
  have hs: "?t = s1\<lparr>http_socket := Some a, spawned := spawned s1 @ [Httpd]\<rparr>"
    unfolding http_initialize_def h a prod.case sum.case ..
  have t: "tcp_ok ?t" "listening a ?t"
    unfolding hs cong using tcp_listen_listening(1,3) [OF assms(1) h [unfolded ab]] by simp_all
  note l = tcp_listen_listening [OF t(1) c [unfolded ab]]
  have "http_socket s2 = Some a" using keep hs by simp
  then have "http_socket (ssh_initialize ?t) = Some a" "ssh_socket (ssh_initialize ?t) = Some b" unfolding cs by simp_all
  moreover have "tcp_ok (ssh_initialize ?t)" "listening a (ssh_initialize ?t)" "listening b (ssh_initialize ?t)"
    unfolding cs cong using l(3) l(2) [OF t(2)] l(1) .
  ultimately show ?thesis unfolding servers_up_def by blast
qed

lemma serve_idle:
  "servers_up s \<Longrightarrow> list_all from_host es \<Longrightarrow> serve es s = Some (fold only_segment es s) \<and> servers_up (fold only_segment es s)"
proof (induction es arbitrary: s)
  case Nil
  then show ?case by simp
next
  case (Cons e es)
  then show ?case
    using servers_idle [OF Cons.prems(1)] by (cases e) (simp_all add: servers_up_segment)
qed

text \<open>C27. The servers never serve: once both are started, in any interleaving of their rounds with segments
  from hosts with a non-zero address, every round leaves the state as it is, so no page, no banner and no
  session process ever comes of any connection. A SYN to port 80 makes a connection of its own; the
  listening socket, the only one the servers ask, stays a listener.\<close>

theorem servers_never_serve:
  assumes "tcp_reachable s0 s" and "distinct (filter (\<lambda>a. a \<noteq> 0) (heap_answers s0))" and "list_all from_host es"
    and "http_socket (ssh_initialize (http_initialize s)) \<noteq> None" and "ssh_socket (ssh_initialize (http_initialize s)) \<noteq> None"
  shows "serve es (ssh_initialize (http_initialize s)) = Some (fold only_segment es (ssh_initialize (http_initialize s)))"
  using serve_idle [OF servers_started [OF reachable_ok [OF assms(1,2)] assms(4,5)] assms(3)] by blast

definition services0 :: "nat list \<Rightarrow> services" where
  "services0 answers = tcp.extend (tcp_start answers)
     \<lparr>http_socket = None, ssh_socket = None, current_ssh_client_socket = None, spawned = []\<rparr>"

lemma listen_answers:
  assumes "heap_answers s = a # as" and "a \<noteq> 0"
  shows "\<exists>s1. tcp_listen port s = (Inr a, s1) \<and> heap_answers s1 = as"
  using assms by (simp add: tcp_listen_def create_connection_def tcp_kmalloc_def set_state_def)

lemma servers_start:
  assumes "heap_answers s = a # b # as" and "a \<noteq> 0" and "b \<noteq> 0"
  shows "http_socket (ssh_initialize (http_initialize s)) = Some a \<and> ssh_socket (ssh_initialize (http_initialize s)) = Some b"
proof -
  obtain s1 where s1: "tcp_listen 80 s = (Inr a, s1)" "heap_answers s1 = b # as" using listen_answers assms by blast
  have h: "http_initialize s = s1\<lparr>http_socket := Some a, spawned := spawned s1 @ [Httpd]\<rparr>"
    unfolding http_initialize_def s1 prod.case sum.case ..
  then have "heap_answers (http_initialize s) = b # as" using s1 by simp
  then obtain s2 where s2: "tcp_listen 22 (http_initialize s) = (Inr b, s2)" using listen_answers assms(3) by blast
  have c: "ssh_initialize (http_initialize s) = s2\<lparr>ssh_socket := Some b, spawned := spawned s2 @ [Sshd]\<rparr>"
    unfolding ssh_initialize_def s2 prod.case sum.case ..
  have "http_socket s2 = Some a" using services_more [OF listen_more [OF s2]] h by simp
  then show ?thesis unfolding c by simp
qed

theorem servers_never_serve_witness:
  "let s = ssh_initialize (http_initialize (tcp_initialize (services0 [16, 32, 48])))
   in serve [Http_round, Segment 0x0A000002 (mem_of [5, 5, 80, 0, 0, 0, 0, 0, 0, 0, 0, 0, 0x50, 2, 0, 0, 0, 0, 0, 0]) 20, Http_round, Ssh_round] s
      = Some (tcp_handle_packet 0x0A000002 (mem_of [5, 5, 80, 0, 0, 0, 0, 0, 0, 0, 0, 0, 0x50, 2, 0, 0, 0, 0, 0, 0]) 20 s)"
proof -
  let ?s = "tcp_initialize (services0 [16, 32, 48])"
  have a: "heap_answers (services0 [16, 32, 48]) = [16, 32, 48]" "heap_answers ?s = [16, 32, 48]"
    by (simp_all add: tcp_initialize_def services0_def tcp.defs tcp_start_def net.defs)
  have st: "http_socket (ssh_initialize (http_initialize ?s)) \<noteq> None" "ssh_socket (ssh_initialize (http_initialize ?s)) \<noteq> None"
    using servers_start [OF a(2)] by simp_all
  have d: "distinct (filter (\<lambda>x. x \<noteq> 0) (heap_answers (services0 [16, 32, 48])))" unfolding a by simp
  show ?thesis
    using servers_never_serve [OF tcp_reachable.boot d _ st, of "[Http_round, Segment 0x0A000002
      (mem_of [5, 5, 80, 0, 0, 0, 0, 0, 0, 0, 0, 0, 0x50, 2, 0, 0, 0, 0, 0, 0]) 20, Http_round, Ssh_round]"]
    unfolding Let_def by (simp only: list.pred_inject from_host.simps fold.simps only_segment.simps comp_apply id_apply) simp
qed

text \<open>The password check accepts exactly the two accounts of the table.\<close>

lemma authenticate_iff:
  "0 \<notin> set u \<Longrightarrow> 0 \<notin> set p \<Longrightarrow> authenticate_user u p \<longleftrightarrow> (u, p) \<in> set ssh_users"
proof -
  assume z: "0 \<notin> set u" "0 \<notin> set p"
  have eq: "strcmp (a @ [0]) (b @ [0]) = Some 0 \<longleftrightarrow> a = b" if "0 \<notin> set a" "0 \<notin> set b" for a b
    using strcmp_terminated [of "a @ [0]" "b @ [0]"] strcmp_zero_iff [of "a @ [0]" "b @ [0]"] that by auto
  have "\<forall>x\<in>set ssh_users. 0 \<notin> set (fst x) \<and> 0 \<notin> set (snd x)" by (simp add: ssh_users_def bytes_def)
  then show ?thesis using eq z by (force simp: authenticate_user_def list_ex_iff)
qed

text \<open>A packet's length is a multiple of eight only when its first five bytes are not counted.\<close>

lemma padded_mod_8:
  fixes n q r p l :: nat
  assumes "Suc n = 8 * q + r" and "r < 8" and "p = (if 8 - r < 4 then 16 - r else 8 - r)" and "l = 6 + n + p"
  shows "l mod 8 = 5"
proof -
  have "l = 8 * (q + 1) + 5 \<or> l = 8 * (q + 2) + 5" using assms by (cases "8 - r < 4") auto
  then show ?thesis by auto
qed

lemma ssh_packet_length:
  assumes "length data < 4000"
  shows "length (ssh_packet t data) mod 8 = 5"
proof -
  let ?n = "length data"
  let ?pl = "1 + of_nat ?n :: u32"
  have pl: "unat ?pl = Suc ?n" using assms by (subst unat_add_u32) (simp_all add: unat_of_nat_u32)
  have le: "?pl mod 8 \<le> 8" by (simp add: word_le_nat_alt unat_mod)
  have "unat (8 - ?pl mod 8) = 8 - Suc ?n mod 8"
    using unat_sub_u32 [OF le] pl by (simp add: unat_mod)
  then have "unat (ucast (8 - ?pl mod 8) :: u8) = 8 - Suc ?n mod 8"
    by (simp add: unsigned_ucast_eq take_bit_nat_eq_self)
  then have "unat (ssh_padding ?pl) = (if 8 - Suc ?n mod 8 < 4 then 16 - Suc ?n mod 8 else 8 - Suc ?n mod 8)"
    by (simp add: ssh_padding_def Let_def word_less_nat_alt unat_word_ariths)
  moreover have "length (ssh_packet t data) = 6 + ?n + unat (ssh_padding ?pl)" by (simp add: ssh_packet_def Let_def)
  moreover have "Suc ?n = 8 * (Suc ?n div 8) + Suc ?n mod 8" "Suc ?n mod 8 < 8" by simp_all
  ultimately show ?thesis using padded_mod_8 by blast
qed

end
