(* ===== verification/Package.thy ===== *)
theory Package
  imports TCP Files
begin

text \<open>
  The package manager, \<open>net/package.cpp\<close>: a download over TCP into the file tree and the installation into
  \<open>/bin\<close>. Strings are C strings without their terminator, and a text that does not fit into its array is a
  memory fault, \<open>None\<close>. Segments arrive between the calls of the receive loop: \<open>arrivals\<close> lists, for each
  round, what the interrupts deliver before it. Log messages have no effect and are left out.
\<close>

section \<open>Strings\<close>

fun simple_strrchr :: "u8 list \<Rightarrow> u8 \<Rightarrow> nat option" where
  "simple_strrchr [] ch = None"
| "simple_strrchr (c # cs) ch =
     (case simple_strrchr cs ch of Some i \<Rightarrow> Some (i + 1) | None \<Rightarrow> if c = ch then Some 0 else None)"

fun simple_strstr :: "u8 list \<Rightarrow> u8 list \<Rightarrow> nat option" where
  "simple_strstr [] needle = (if needle = [] then Some 0 else None)"
| "simple_strstr (c # cs) needle =
     (if take (length needle) (c # cs) = needle then Some 0 else map_option Suc (simple_strstr cs needle))"

definition simple_sprintf :: "u8 list \<Rightarrow> u8 list \<Rightarrow> u8 list" where
  "simple_sprintf path host =
     bytes ''GET '' @ path @ bytes '' HTTP/1.0'' @ [13, 10] @ bytes ''Host: '' @ host @ [13, 10] @
     bytes ''User-Agent: MesaOS/1.0'' @ [13, 10] @ bytes ''Connection: close'' @ [13, 10, 13, 10]"

section \<open>State\<close>

record packages =
  pfs :: fstree
  pnet :: tcp
  repositories :: "u8 list option list"
  repo_count :: nat

definition first_repository :: "u8 list" where
  "first_repository = bytes ''https://github.com/crackanimador/MesaOS-PKG/raw/main/''"

definition packages0 :: "fstree \<Rightarrow> tcp \<Rightarrow> packages" where
  "packages0 f n = \<lparr>pfs = f, pnet = n, repositories = Some first_repository # replicate 7 None, repo_count = 1\<rparr>"

definition add_repository :: "u8 list option \<Rightarrow> packages \<Rightarrow> bool \<times> packages" where
  "add_repository url s =
     (if url = None \<or> repo_count s \<ge> 8 then (False, s)
      else (True, s\<lparr>repositories := (repositories s)[repo_count s := url], repo_count := repo_count s + 1\<rparr>))"

definition list_repositories :: "packages \<Rightarrow> u8 list list" where
  "list_repositories s = List.map_filter (\<lambda>i. repositories s ! i) [0..<repo_count s]"

text \<open>Operations that only log and answer. \<open>unregister_package\<close> builds a path it never uses, in an array of
  256 bytes; a name that does not fit is a fault.\<close>

definition check_updates :: "packages \<Rightarrow> bool \<times> packages" where "check_updates s = (True, s)"
definition update_all_packages :: "packages \<Rightarrow> bool \<times> packages" where "update_all_packages s = (True, s)"
definition remove_repository :: "u8 list \<Rightarrow> packages \<Rightarrow> bool \<times> packages" where "remove_repository url s = (False, s)"
definition sync_repositories :: "packages \<Rightarrow> bool \<times> packages" where "sync_repositories s = (True, s)"
definition verify_checksum :: "u8 list \<Rightarrow> u8 list \<Rightarrow> bool" where "verify_checksum path expected = True"
definition extract_package :: "u8 list \<Rightarrow> u8 list \<Rightarrow> packages \<Rightarrow> bool \<times> packages" where "extract_package archive dest s = (True, s)"

definition unregister_package :: "u8 list \<Rightarrow> packages \<Rightarrow> (bool \<times> packages) option" where
  "unregister_package nm s =
     (if length (bytes ''/packages/installed/'' @ nm @ bytes ''.meta'') < 256 then Some (True, s) else None)"

section \<open>Downloading\<close>

definition resolve_host :: "u8 list \<Rightarrow> u32 \<Rightarrow> u32 option" where
  "resolve_host host gateway =
     (if host = bytes ''github.com'' \<or> host = bytes ''raw.githubusercontent.com'' then Some 0x8C527603
      else if host = bytes ''example.com'' then Some 0x5DB8D822
      else if gateway = 0 then None else Some gateway)"

definition deliver :: "(u32 \<times> mem \<times> u32) list \<Rightarrow> packages \<Rightarrow> packages" where
  "deliver segs s = s\<lparr>pnet := fold (\<lambda>(src, m, sz). tcp_handle_packet src m sz) segs (pnet s)\<rparr>"

definition close_socket :: "nat \<Rightarrow> bool \<Rightarrow> packages \<Rightarrow> (bool \<times> packages) option" where
  "close_socket sock r s = map_option (\<lambda>n. (r, s\<lparr>pnet := n\<rparr>)) (tcp_close sock (pnet s))"

definition store_body :: "u8 list \<Rightarrow> u8 list \<Rightarrow> packages \<Rightarrow> packages option" where
  "store_body local_path body s =
     (case mesa_create_file (pfs s) (local_path @ [0]) 0 0 420 of
        None \<Rightarrow> None
      | Some (f1, _) \<Rightarrow>
          (case lookup f1 local_path of
             (f2, None) \<Rightarrow> Some (s\<lparr>pfs := f2\<rparr>)
           | (f2, Some n) \<Rightarrow> map_option (\<lambda>(f3, _). s\<lparr>pfs := f3\<rparr>) (mesa_write f2 n 0 body)))"

lemma tcp_recv_length: "tcp_recv fd n s = Some (Inr bs, s') \<Longrightarrow> length bs \<le> n"
proof -
  have "length (fst (ring_take k r)) = k" for k r
    by (induction k r rule: ring_take.induct) (simp_all add: Let_def split_beta)
  then have "length (fst (ring_read n r)) \<le> n" for r
    by (simp add: ring_read_def Let_def split_beta)
  moreover assume "tcp_recv fd n s = Some (Inr bs, s')"
  ultimately show ?thesis
    by (auto simp: tcp_recv_def split: if_splits option.splits prod.splits) (metis fst_conv)
qed

lemma room_shrinks: "bs \<noteq> [] \<Longrightarrow> length bs \<le> 4095 - n \<Longrightarrow> 4095 - (n + length bs) < 4095 - (n :: nat)"
  by (cases bs) auto

text \<open>
  The loop around \<open>recv\<close>; \<open>buf\<close> is what has been received. The body is stored when the end of the header
  and some of the body have arrived in the same round; the content length that is parsed is not used.
\<close>

function receive_loop ::
  "nat \<Rightarrow> u8 list \<Rightarrow> (u32 \<times> mem \<times> u32) list list \<Rightarrow> u8 list \<Rightarrow> bool \<Rightarrow> packages \<Rightarrow> (bool \<times> packages) option" where
  "receive_loop sock local_path arrivals buf headers_done s =
     (let s1 = deliver (if arrivals = [] then [] else hd arrivals) s in
      case tcp_recv sock (4095 - length buf) (pnet s1) of
        None \<Rightarrow> None
      | Some (Inl _, n) \<Rightarrow> close_socket sock False (s1\<lparr>pnet := n\<rparr>)
      | Some (Inr bs, n) \<Rightarrow>
          (let s2 = s1\<lparr>pnet := n\<rparr>; buf' = buf @ bs in
           if bs = [] then close_socket sock False s2
           else if headers_done then receive_loop sock local_path (tl arrivals) buf' True s2
           else case simple_strstr (cstr buf') [13, 10, 13, 10] of
                  None \<Rightarrow> receive_loop sock local_path (tl arrivals) buf' False s2
                | Some i \<Rightarrow>
                    if length buf' > i + 4
                    then (case store_body local_path (drop (i + 4) buf') s2 of
                            None \<Rightarrow> None | Some s3 \<Rightarrow> close_socket sock True s3)
                    else receive_loop sock local_path (tl arrivals) buf' True s2))"
  by pat_completeness auto
termination
  by (relation "measure (\<lambda>(sock, local_path, arrivals, buf, headers_done, s). 4095 - length buf)")
    (auto dest!: tcp_recv_length sym [of "Some _"] intro!: room_shrinks)

declare receive_loop.simps [simp del]

definition download_file ::
  "u8 list \<Rightarrow> u8 list \<Rightarrow> (u32 \<times> mem \<times> u32) list list \<Rightarrow> packages \<Rightarrow> (bool \<times> packages) option" where
  "download_file url local_path arrivals s =
     (case simple_strstr url (bytes ''://'') of
        None \<Rightarrow> Some (False, s)
      | Some i \<Rightarrow>
          (let rest = drop (i + 3) url; host = takeWhile (\<lambda>c. c \<noteq> slash) rest; path = dropWhile (\<lambda>c. c \<noteq> slash) rest in
           if path = [] then Some (False, s)
           else if length host \<ge> 64 then Some (False, s)
           else if length path \<ge> 256 then None
           else case resolve_host host (gateway_ip (pnet s)) of
                  None \<Rightarrow> Some (False, s)
                | Some ip \<Rightarrow>
                    (let request = simple_sprintf path host in
                     if length request \<ge> 512 then None
                     else case tcp_connect ip 80 (pnet s) of
                            (Inl _, n) \<Rightarrow> Some (False, s\<lparr>pnet := n\<rparr>)
                          | (Inr sock, n) \<Rightarrow>
                              (case tcp_send sock request n of
                                 None \<Rightarrow> None
                               | Some (Inr k, n1) \<Rightarrow>
                                   if k = 0 then close_socket sock False (s\<lparr>pnet := n1\<rparr>)
                                   else receive_loop sock local_path arrivals [] False (s\<lparr>pnet := n1\<rparr>)
                               | Some (Inl _, n1) \<Rightarrow> close_socket sock False (s\<lparr>pnet := n1\<rparr>)))))"

section \<open>Installing\<close>

definition exe_name :: "u8 list \<Rightarrow> u8 list" where
  "exe_name filename = (case simple_strrchr filename 0x2E of None \<Rightarrow> filename | Some i \<Rightarrow> take i filename)"

definition install_package :: "u8 list \<Rightarrow> packages \<Rightarrow> (bool \<times> packages) option" where
  "install_package package_path s =
     (case lookup (pfs s) package_path of
        (f1, None) \<Rightarrow> Some (False, s\<lparr>pfs := f1\<rparr>)
      | (f1, Some src) \<Rightarrow>
          (case file_read f1 src 0 4095 of
             None \<Rightarrow> None
           | Some content \<Rightarrow>
               if content = [] then Some (False, s\<lparr>pfs := f1\<rparr>)
               else case simple_strrchr package_path slash of
                      None \<Rightarrow> Some (False, s\<lparr>pfs := f1\<rparr>)
                    | Some i \<Rightarrow>
                        (let filename = drop (i + 1) package_path; dest_path = bytes ''/bin/'' @ exe_name filename in
                         if length filename \<ge> 128 then None
                         else case mesa_create_file f1 (dest_path @ [0]) 0 0 420 of
                                None \<Rightarrow> None
                              | Some (f2, None) \<Rightarrow> Some (False, s\<lparr>pfs := f2\<rparr>)
                              | Some (f2, Some _) \<Rightarrow>
                                  (case lookup f2 dest_path of
                                     (f3, None) \<Rightarrow> Some (False, s\<lparr>pfs := f3\<rparr>)
                                   | (f3, Some n) \<Rightarrow>
                                       map_option (\<lambda>(f4, _). (True, s\<lparr>pfs := f4\<rparr>)) (mesa_write f3 n 0 (cstr content))))))"

definition package_file :: "u8 list \<Rightarrow> u8 list option \<Rightarrow> u8 list" where
  "package_file name version = name @ (case version of None \<Rightarrow> [] | Some v \<Rightarrow> bytes ''-'' @ v) @ bytes ''.elf''"

definition download_package ::
  "u8 list option \<Rightarrow> u8 list option \<Rightarrow> (u32 \<times> mem \<times> u32) list list \<Rightarrow> packages \<Rightarrow> (bool \<times> packages) option" where
  "download_package name version arrivals s =
     (case name of
        None \<Rightarrow> Some (False, s)
      | Some nm \<Rightarrow>
          (let package_name = package_file nm version; cache_path = bytes ''/packages/cache/'' @ package_name in
           case repositories s ! 0 of
             None \<Rightarrow> None
           | Some repo \<Rightarrow>
               if length package_name \<ge> 128 \<or> length (repo @ package_name) \<ge> 256 then None
               else case download_file (repo @ package_name) cache_path arrivals s of
                      None \<Rightarrow> None
                    | Some (False, s1) \<Rightarrow> Some (False, s1)
                    | Some (True, s1) \<Rightarrow> install_package cache_path s1))"

definition remove_package :: "u8 list option \<Rightarrow> packages \<Rightarrow> bool option" where
  "remove_package name s = (case name of None \<Rightarrow> Some False | Some nm \<Rightarrow> if length nm \<ge> 251 then None else Some False)"

text \<open>The listing calls the directory's \<open>readdir\<close> up to 100 times; the answer and what it logs.\<close>

fun list_names :: "(u32 \<Rightarrow> (u8 list \<times> u32) option) \<Rightarrow> nat \<Rightarrow> u32 \<Rightarrow> u8 list list" where
  "list_names rd 0 i = []"
| "list_names rd (Suc k) i = (case rd i of None \<Rightarrow> [] | Some (nm, _) \<Rightarrow> nm # list_names rd k (i + 1))"

definition list_installed_packages :: "packages \<Rightarrow> bool \<times> u8 list list \<times> packages" where
  "list_installed_packages s =
     (case lookup (pfs s) (bytes ''/bin'') of
        (f1, None) \<Rightarrow> (False, [], s\<lparr>pfs := f1\<rparr>)
      | (f1, Some n) \<Rightarrow>
          (case readdir_op (nodes f1 ! n) of
             None \<Rightarrow> (False, [], s\<lparr>pfs := f1\<rparr>)
           | Some b \<Rightarrow> (True, filter (\<lambda>nm. cstr nm \<noteq> bytes ''.'' \<and> cstr nm \<noteq> bytes ''..'') (list_names (backend_readdir b f1 n) 100 0),
                        s\<lparr>pfs := f1\<rparr>)))"

definition meta_path :: "u8 list \<Rightarrow> u8 list" where
  "meta_path name = bytes ''/packages/installed/'' @ name @ bytes ''.meta''"

definition register_package :: "u8 list \<Rightarrow> packages \<Rightarrow> (bool \<times> packages) option" where
  "register_package name s =
     (if length (meta_path name) \<ge> 256 then None
      else map_option (\<lambda>s1. (True, s1)) (store_body (meta_path name) (bytes ''package metadata'') s))"

section \<open>What a download can do\<close>

lemma mesa_create_tree:
  fixes s :: "'a fstree_scheme"
  shows "mesa_create_file s name uid gid mode = Some (s', r) \<Longrightarrow> same_tree s s'"
  by (auto simp: mesa_create_file_def save_metadata_def same_tree_def split: option.splits if_splits bool.splits)

text \<open>Without a directory \<open>packages\<close> in the root, no path below it resolves.\<close>

definition no_packages :: "fstree \<Rightarrow> bool" where
  "no_packages f \<longleftrightarrow> (\<exists>d. tree_ok f d) \<and> slot_of f (bytes ''packages'' @ [0]) = None"

lemma no_packages_same: "same_tree f f' \<Longrightarrow> no_packages f \<Longrightarrow> no_packages f'"
proof -
  assume st: "same_tree f f'" and np: "no_packages f"
  then obtain d where d: "tree_ok f d" by (auto simp: no_packages_def)
  then have "slot_of f' (bytes ''packages'' @ [0]) = slot_of f (bytes ''packages'' @ [0])"
    using slot_of_same_tree [OF st] by (simp add: tree_ok_def)
  then show "no_packages f'" using np tree_ok_same [OF st d] by (auto simp: no_packages_def)
qed

lemma lookup_packages:
  assumes "no_packages f"
  shows "lookup f (bytes ''/packages/'' @ rest) = (f, None)"
proof -
  have comp: "component (bytes ''packages/'' @ rest) = bytes ''packages''"
    by (simp add: component_def bytes_def)
  obtain d where "tree_ok f d" using assms by (auto simp: no_packages_def)
  then have "find_dir f (fs_root f) (bytes ''packages'') = (f, None)"
    using assms by (simp add: find_dir_ram tree_ok_def ram_finddir_def no_packages_def)
  moreover have "bytes ''/packages/'' @ rest = slash # bytes ''packages/'' @ rest" by (simp add: bytes_def)
  moreover have "bytes ''packages/'' \<noteq> []" by (simp add: bytes_def)
  ultimately show ?thesis
    unfolding lookup_def find_path_fs.simps [of find_dir f "fs_root f"] using comp by (simp add: Let_def)
qed

lemma store_body_packages:
  assumes "no_packages (pfs s)" and "store_body (bytes ''/packages/'' @ rest) body s = Some s'"
  shows "no_packages (pfs s')"
proof -
  obtain f1 r where c: "mesa_create_file (pfs s) (bytes ''/packages/'' @ rest @ [0]) 0 0 420 = Some (f1, r)"
    using assms(2) by (auto simp: store_body_def split: option.splits)
  then have "no_packages f1" using no_packages_same mesa_create_tree assms(1) by blast
  with lookup_packages [OF this, of rest] show ?thesis using assms(2) c by (auto simp: store_body_def)
qed

lemma close_fs: "close_socket sock r s = Some (x, s') \<Longrightarrow> pfs s' = pfs s"
  by (auto simp: close_socket_def)

lemma receive_packages:
  assumes "receive_loop sock (bytes ''/packages/'' @ rest) arrivals buf hdr s = Some (x, s')" and "no_packages (pfs s)"
  shows "no_packages (pfs s')"
  using assms
proof (induction "4095 - length buf" arbitrary: arrivals buf hdr s rule: less_induct)
  case less
  let ?path = "bytes ''/packages/'' @ rest"
  let ?s1 = "deliver (if arrivals = [] then [] else hd arrivals) s"
  have fs: "pfs ?s1 = pfs s" by (simp add: deliver_def)
  obtain r n where rv: "tcp_recv sock (4095 - length buf) (pnet ?s1) = Some (r, n)"
    using less.prems(1) by (subst (asm) receive_loop.simps) (auto simp: Let_def split: option.splits)
  let ?s2 = "?s1\<lparr>pnet := n\<rparr>"
  have ok: "no_packages (pfs ?s2)" using less.prems(2) fs by simp
  show ?case
  proof (cases "\<exists>bs. r = Inr bs \<and> bs \<noteq> []")
    case False
    then have "close_socket sock False ?s2 = Some (x, s')"
      using less.prems(1) rv by (subst (asm) receive_loop.simps) (auto simp: Let_def split: sum.splits)
    then show ?thesis using close_fs ok by metis
  next
    case True
    then obtain bs where bs: "r = Inr bs" "bs \<noteq> []" by blast
    then have shorter: "4095 - length (buf @ bs) < 4095 - length buf"
      using room_shrinks tcp_recv_length rv by (metis length_append)
    note IH = less.hyps [OF shorter _ ok]
    have step: "(if hdr then receive_loop sock ?path (tl arrivals) (buf @ bs) True ?s2
      else case simple_strstr (cstr (buf @ bs)) [13, 10, 13, 10] of
        None \<Rightarrow> receive_loop sock ?path (tl arrivals) (buf @ bs) False ?s2
      | Some i \<Rightarrow> if length (buf @ bs) > i + 4
          then (case store_body ?path (drop (i + 4) (buf @ bs)) ?s2 of None \<Rightarrow> None | Some s3 \<Rightarrow> close_socket sock True s3)
          else receive_loop sock ?path (tl arrivals) (buf @ bs) True ?s2) = Some (x, s')"
      using less.prems(1) rv bs by (subst (asm) receive_loop.simps) (simp add: Let_def)
    show ?thesis
    proof (cases "\<exists>s3 b. store_body ?path b ?s2 = Some s3 \<and> close_socket sock True s3 = Some (x, s')")
      case True
      then show ?thesis using store_body_packages [OF ok] close_fs by metis
    next
      case False
      then show ?thesis using step IH by (auto split: if_splits option.splits)
    qed
  qed
qed

lemma download_packages:
  assumes "no_packages (pfs s)" and "download_file url (bytes ''/packages/'' @ rest) arrivals s = Some (x, s')"
  shows "no_packages (pfs s')"
  using assms close_fs receive_packages [of _ rest arrivals "[]" False]
  by (auto simp: download_file_def Let_def split: option.splits if_splits prod.splits sum.splits)

section \<open>A download that nobody answers\<close>

lemma send_keeps_conn:
  fixes s :: "'a tcp_scheme"
  assumes "conn_at s c = Some k"
  shows "\<exists>k'. conn_at (tcp_send_packet k1 fl data s) c = Some k' \<and> tstate k' = tstate k \<and> recv_ring k' = recv_ring k"
proof -
  have adv: "\<exists>k'. conn_at (map_conn q (advance fl n) t) c = Some k' \<and> tstate k' = tstate k \<and> recv_ring k' = recv_ring k"
    if "conn_at t c = Some k" for q n and t :: "'a tcp_scheme"
  proof (cases "q = c")
    case True
    then show ?thesis using that by (simp add: conn_at_map_conn) (simp add: advance_def Let_def)
  next
    case False
    have "find (\<lambda>k. cid k = c) (map (\<lambda>k. if cid k = q then advance fl n k else k) ks) = find (\<lambda>k. cid k = c) ks" for ks
      using False by (induction ks) auto
    then show ?thesis using that by (simp add: conn_at_def map_conn_def)
  qed
  have io: "conn_at (ipv4_send d p x t) c = conn_at t c" "conn_at (snd (tcp_kmalloc t)) c = conn_at t c"
    for d p x and t :: "'a tcp_scheme" by (simp_all add: conn_at_def)
  show ?thesis using assms adv io by (auto simp: tcp_send_packet_def Let_def split_beta)
qed

lemma connect_socket:
  assumes "tcp_connect dest port s = (Inr c, n)"
  shows "c \<noteq> 0 \<and> (\<exists>k. conn_at n c = Some k \<and> tstate k = ESTABLISHED \<and> recv_count (recv_ring k) = 0)"
proof -
  let ?s0 = "s\<lparr>next_ephemeral_port := next_ephemeral_port s + 1\<rparr>"
  obtain s1 where cr: "create_connection (my_ip ?s0) dest (next_ephemeral_port s) port ?s0 = (Some c, s1)"
    and n: "n = set_state c ESTABLISHED (send_on c TCP_SYN [] (set_state c SYN_SENT s1))"
    using assms by (auto simp: tcp_connect_def Let_def split: prod.splits option.splits)
  let ?k = "new_conn c (my_ip ?s0) dest (next_ephemeral_port s) port"
  have c: "conn_at s1 c = Some ?k" "c \<noteq> 0"
    using cr by (auto simp: create_connection_def conn_at_def new_conn_def split: prod.splits if_splits)
  let ?k1 = "?k\<lparr>tstate := SYN_SENT\<rparr>"
  have k1: "conn_at (set_state c SYN_SENT s1) c = Some ?k1" using c by simp
  then obtain k' where "conn_at (send_on c TCP_SYN [] (set_state c SYN_SENT s1)) c = Some k'" "recv_ring k' = recv_ring ?k1"
    using send_keeps_conn [OF k1, of ?k1 TCP_SYN "[]"] k1 by (auto simp: send_on_def)
  then show ?thesis using c(2) unfolding n by (simp add: new_conn_def ring_new_def)
qed

lemma send_then_quiet:
  assumes "conn_at n c = Some k" and "tstate k = ESTABLISHED" and "recv_count (recv_ring k) = 0" and "c \<noteq> 0"
  shows "\<exists>n1. tcp_send c data n = Some (Inr (length data), n1)
    \<and> (\<exists>k1. conn_at n1 c = Some k1 \<and> tstate k1 = ESTABLISHED \<and> recv_count (recv_ring k1) = 0)"
  using send_keeps_conn [OF assms(1), of k "TCP_ACK OR TCP_PSH" data] assms by (auto simp: tcp_send_def)

lemma recv_quiet:
  assumes "conn_at n c = Some k" and "tstate k = ESTABLISHED" and "recv_count (recv_ring k) = 0" and "c \<noteq> 0"
  shows "\<exists>n1 n2. tcp_recv c m n = Some (Inr [], n1) \<and> tcp_close c n1 = Some n2"
proof -
  have "tcp_recv c m n = Some (Inr [], map_conn c (\<lambda>k'. k'\<lparr>recv_ring := recv_ring k\<rparr>) n)"
    using assms by (simp add: tcp_recv_def ring_read_def)
  moreover have "conn_at (map_conn c (\<lambda>k'. k'\<lparr>recv_ring := recv_ring k\<rparr>) n) c = Some (k\<lparr>recv_ring := recv_ring k\<rparr>)"
    using assms(1) by (simp add: conn_at_map_conn)
  ultimately show ?thesis using assms by (simp add: tcp_close_def)
qed

lemma download_unanswered:
  assumes "repositories s ! 0 = Some first_repository" and "length nm \<le> 120"
  shows "\<exists>s'. download_package (Some nm) None [] s = Some (False, s')"
proof -
  let ?url = "first_repository @ package_file nm None"
  have i: "simple_strstr ?url (bytes ''://'') = Some 5" by (simp add: first_repository_def bytes_def)
  have rest: "drop (5 + 3) ?url = bytes ''github.com/crackanimador/MesaOS-PKG/raw/main/'' @ package_file nm None"
    by (simp add: first_repository_def bytes_def)
  have host: "takeWhile (\<lambda>c. c \<noteq> slash) (drop (5 + 3) ?url) = bytes ''github.com''"
    "dropWhile (\<lambda>c. c \<noteq> slash) (drop (5 + 3) ?url) = bytes ''/crackanimador/MesaOS-PKG/raw/main/'' @ package_file nm None"
    unfolding rest by (simp_all add: bytes_def)
  have len: "length (package_file nm None) \<le> 124" "length first_repository = 53"
    using assms(2) by (simp_all add: package_file_def first_repository_def)
  have df: "\<exists>s'. download_file ?url path [] s = Some (False, s')" for path
  proof (cases "tcp_connect 0x8C527603 80 (pnet s)")
    case (Pair r n)
    let ?path = "bytes ''/crackanimador/MesaOS-PKG/raw/main/'' @ package_file nm None"
    let ?request = "simple_sprintf ?path (bytes ''github.com'')"
    have req: "length ?request < 512" "length ?path < 256" "?path \<noteq> []" "length (bytes ''github.com'') < 64" "?request \<noteq> []"
      using len by (simp_all add: simple_sprintf_def bytes_def)
    have ip: "resolve_host (bytes ''github.com'') g = Some 0x8C527603" for g by (simp add: resolve_host_def)
    show ?thesis
    proof (cases r)
      case (Inl u)
      then show ?thesis using Pair i host req ip by (simp add: download_file_def Let_def)
    next
      case (Inr c)
      obtain k where k: "c \<noteq> 0" "conn_at n c = Some k" "tstate k = ESTABLISHED" "recv_count (recv_ring k) = 0"
        using connect_socket Pair Inr by blast
      obtain n1 k1 where n1: "tcp_send c ?request n = Some (Inr (length ?request), n1)"
        "conn_at n1 c = Some k1" "tstate k1 = ESTABLISHED" "recv_count (recv_ring k1) = 0"
        using send_then_quiet [OF k(2-4,1)] by blast
      obtain n2 n3 where n2: "tcp_recv c 4095 n1 = Some (Inr [], n2)" "tcp_close c n2 = Some n3"
        using recv_quiet [OF n1(2-4) k(1)] by blast
      have "receive_loop c path [] [] False (s\<lparr>pnet := n1\<rparr>) = Some (False, s\<lparr>pnet := n3\<rparr>)"
        using n2 by (subst receive_loop.simps) (simp add: deliver_def close_socket_def)
      then show ?thesis using Pair Inr i host req ip n1(1) by (simp add: download_file_def Let_def)
    qed
  qed
  then obtain s' where "download_file ?url (bytes ''/packages/cache/'' @ package_file nm None) [] s = Some (False, s')" by blast
  then show ?thesis using assms(1) len by (simp add: download_package_def Let_def)
qed

section \<open>Properties of the package manager\<close>



end
