(* ===== verification/NIC.thy ===== *)
theory NIC
  imports CString Ports PCI
begin

text \<open>
  The network cards, \<open>drivers/rtl8139.cpp\<close> and \<open>drivers/pcnet.cpp\<close>: set-up as port programs, the receive
  rings and the transmit paths. What the cards put into memory by DMA is part of the state; the frames a
  receive routine hands to \<open>Ethernet::handle_packet\<close> are its result, in order, each as the memory that
  starts at the frame and the length passed with it. Console messages are collected as text; results of
  \<open>kmalloc\<close> are arguments.
\<close>

unbundle bit_operations_syntax

type_synonym frame = "mem \<times> u32"

section \<open>Shared set-up\<close>

definition reg :: "u32 \<Rightarrow> u32 \<Rightarrow> u16" where
  "reg base off = ucast (base + off)"

text \<open>The first of the six base address registers that names a port range.\<close>

definition io_bar :: "cfg \<Rightarrow> pci_device \<Rightarrow> u32" where
  "io_bar c dev =
     (case find (\<lambda>bar. bar AND 1 \<noteq> 0) (map (\<lambda>i. config_read_dword c (bus_no dev) (slot_no dev) (func_no dev) (0x10 + of_nat i * 4)) [0..<6])
      of None \<Rightarrow> 0 | Some bar \<Rightarrow> bar AND NOT 3)"

text \<open>Six bytes from the card's address registers, and the address as the console shows it.\<close>

fun read_mac :: "u32 \<Rightarrow> nat \<Rightarrow> nat \<Rightarrow> ports \<Rightarrow> u8 list \<times> ports" where
  "read_mac base i 0 io = ([], io)"
| "read_mac base i (Suc k) io =
     (let (b, io1) = inb (reg base (of_nat i)) io; (bs, io2) = read_mac base (i + 1) k io1 in (b # bs, io2))"

definition mac_text :: "u8 list \<Rightarrow> u8 list" where
  "mac_text mac = bytes ''MAC: '' @ concat (map (\<lambda>i. itoa (uint (mac ! i)) 16 @ (if i < 5 then bytes '':'' else [])) [0..<6]) @ [10]"

section \<open>RTL8139\<close>

record rtl =
  rtl_io_base :: u32
  rx_memory :: mem
  rtl_mac_address :: "u8 list"
  rx_offset :: u32
  tx_desc :: u8
  rtl_ports :: ports

text \<open>The reset loop reads the command register before it looks at the counter.\<close>

fun reset_wait :: "u16 \<Rightarrow> nat \<Rightarrow> ports \<Rightarrow> nat \<times> ports" where
  "reset_wait p 0 io = (0, snd (inb p io))"
| "reset_wait p (Suc t) io = (let (v, io1) = inb p io in if v AND 0x10 \<noteq> 0 then reset_wait p t io1 else (Suc t, io1))"

definition rtl_program :: "u32 \<Rightarrow> u32 \<Rightarrow> ports \<Rightarrow> ports" where
  "rtl_program base rx_addr io =
     outb (reg base 0x37) 0x0C (outl (reg base 0x44) 0x8F (outw (reg base 0x3C) 0x0005 (outl (reg base 0x30) rx_addr io)))"

definition rtl_initialize :: "cfg \<Rightarrow> pci_device \<Rightarrow> u32 \<Rightarrow> rtl \<Rightarrow> cfg \<times> rtl \<times> u8 list \<times> u8 option" where
  "rtl_initialize c dev rx_addr s =
     (let base = io_bar c dev; s1 = s\<lparr>rtl_io_base := base\<rparr> in
      if base = 0 then (c, s1, bytes ''RTL8139: Error - No I/O BAR found!'' @ [10], None)
      else let text = bytes ''RTL8139: IO Base at 0x'' @ itoa (sint base) 16 @ [10];
               command = config_read_word c (bus_no dev) (slot_no dev) (func_no dev) 0x04;
               c1 = config_write_word c (bus_no dev) (slot_no dev) (func_no dev) 0x04 (command OR 4);
               (timeout, io) = reset_wait (reg base 0x37) 10000
                 (outb (reg base 0x37) 0x10 (outb (reg base 0x52) 0x00 (rtl_ports s)))
           in if timeout = 0 then (c1, s1\<lparr>rtl_ports := io\<rparr>, text @ bytes ''RTL8139: Reset timeout!'' @ [10], None)
              else let (mac, io1) = read_mac base 0 6 (rtl_program base rx_addr io)
                   in (c1, s1\<lparr>rx_memory := (\<lambda>i. 0), rtl_mac_address := mac, rtl_ports := io1\<rparr>,
                       text @ mac_text mac, Some (32 + interrupt_line dev)))"

text \<open>
  One frame of the ring: status and length, four bytes before the data. The read pointer advances past the
  header, aligned to four bytes, and wraps at 8 KiB.
\<close>

definition rx_valid :: "u16 \<Rightarrow> u16 \<Rightarrow> bool" where
  "rx_valid status len \<longleftrightarrow> status AND 1 \<noteq> 0 \<and> \<not> len > 1792 \<and> \<not> len < 4"

definition next_rx :: "u32 \<Rightarrow> u16 \<Rightarrow> u32" where
  "next_rx off len = (let o1 = (off + ucast len + 4 + 3) AND NOT 3 in if o1 \<ge> 8192 then o1 - 8192 else o1)"

function rtl_receive_packet :: "rtl \<Rightarrow> frame list \<times> rtl" where
  "rtl_receive_packet s =
     (let (cmd, io) = inb (reg (rtl_io_base s) 0x37) (rtl_ports s); s1 = s\<lparr>rtl_ports := io\<rparr> in
      if inputs (rtl_ports s) = [] \<or> cmd AND 1 \<noteq> 0 then ([], s1)
      else let status = le16 (rx_memory s) (unat (rx_offset s)); len = le16 (rx_memory s) (unat (rx_offset s) + 2) in
        if \<not> rx_valid status len
        then ([], s1\<lparr>rtl_ports := outb (reg (rtl_io_base s) 0x37) 0x0C (outb (reg (rtl_io_base s) 0x37) 0x04 io), rx_offset := 0\<rparr>)
        else let off = next_rx (rx_offset s) len;
                 (fs, s2) = rtl_receive_packet (s1\<lparr>rx_offset := off, rtl_ports := outw (reg (rtl_io_base s) 0x38) (ucast off - 16) io\<rparr>)
             in ((mem_at (rx_memory s) (unat (rx_offset s) + 4), ucast len - 4) # fs, s2))"
  by pat_completeness auto
termination
  by (relation "measure (\<lambda>s. length (inputs (rtl_ports s)))") (auto simp: inb_def outw_def)

declare rtl_receive_packet.simps [simp del]

definition rtl_callback :: "rtl \<Rightarrow> frame list \<times> rtl" where
  "rtl_callback s =
     (let (status, io) = inw (reg (rtl_io_base s) 0x3E) (rtl_ports s);
          s1 = s\<lparr>rtl_ports := outw (reg (rtl_io_base s) 0x3E) status io\<rparr>
      in if status AND 1 \<noteq> 0 then rtl_receive_packet s1 else ([], s1))"

definition rtl_send_packet :: "u32 \<Rightarrow> u32 \<Rightarrow> rtl \<Rightarrow> rtl" where
  "rtl_send_packet addr sz s =
     (if rtl_io_base s = 0 then s
      else let d = ucast (tx_desc s) * 4
           in s\<lparr>rtl_ports := outl (reg (rtl_io_base s) (0x10 + d)) sz (outl (reg (rtl_io_base s) (0x20 + d)) addr (rtl_ports s)),
                tx_desc := (tx_desc s + 1) mod 4\<rparr>)"

section \<open>PCNet\<close>

text \<open>
  The rings are lists of descriptors in the order of the source's array; a buffer address is its byte
  offset in the memory the card fills. A ring holds what the card has written when the routine looks at it.
\<close>

record descriptor =
  d_address :: u32
  d_status :: u32
  d_status2 :: u32
  d_res :: u32

record pcnet =
  pc_io_base :: u32
  pc_mac_address :: "u8 list"
  rx_ring :: "descriptor list"
  tx_ring :: "descriptor list"
  rx_ring_at :: u32
  tx_ring_at :: u32
  rx_buffers :: mem
  tx_buffers :: mem
  rx_index :: nat
  tx_index :: nat
  pc_init_block :: "u8 list"
  pc_ports :: ports

definition write_csr :: "u32 \<Rightarrow> u32 \<Rightarrow> u32 \<Rightarrow> ports \<Rightarrow> ports" where
  "write_csr base index d io = outl (reg base 0x10) d (outl (reg base 0x14) index io)"

definition read_csr :: "u32 \<Rightarrow> u32 \<Rightarrow> ports \<Rightarrow> u32 \<times> ports" where
  "read_csr base index io = inl (reg base 0x10) (outl (reg base 0x14) index io)"

definition write_bcr :: "u32 \<Rightarrow> u32 \<Rightarrow> u32 \<Rightarrow> ports \<Rightarrow> ports" where
  "write_bcr base index d io = outl (reg base 0x1C) d (outl (reg base 0x14) index io)"

definition read_bcr :: "u32 \<Rightarrow> u32 \<Rightarrow> ports \<Rightarrow> u32 \<times> ports" where
  "read_bcr base index io = inl (reg base 0x1C) (outl (reg base 0x14) index io)"

text \<open>The own bit and the negated buffer size of a receive descriptor, \<open>(uint16_t)(-1536)\<close>.\<close>

definition rx_owned :: u32 where
  "rx_owned = 0x80000000 OR ucast (- 1536 :: u16)"

definition rx_ring_for :: "u32 \<Rightarrow> descriptor list" where
  "rx_ring_for bufs = map (\<lambda>i. \<lparr>d_address = bufs + of_nat i * 2048, d_status = rx_owned, d_status2 = 0, d_res = 0\<rparr>) [0..<32]"

definition tx_ring_for :: "u32 \<Rightarrow> descriptor list" where
  "tx_ring_for bufs = map (\<lambda>i. \<lparr>d_address = bufs + of_nat i * 2048, d_status = 0, d_status2 = 0, d_res = 0\<rparr>) [0..<8]"

definition align16 :: "u32 \<Rightarrow> u32" where
  "align16 a = (a + 15) AND NOT 0xF"

definition init_block_bytes :: "u8 list \<Rightarrow> u32 \<Rightarrow> u32 \<Rightarrow> u8 list" where
  "init_block_bytes mac rx tx =
     le16_bytes 0x8000 @ [0x50, 0x30] @ mac @ le16_bytes 0 @ le32_bytes 0 @ le32_bytes 0 @ le32_bytes rx @ le32_bytes tx"

text \<open>Waiting for the init-done bit; a card that is not there reads as all ones.\<close>

function wait_idon :: "u32 \<Rightarrow> ports \<Rightarrow> ports" where
  "wait_idon base io =
     (let (v, io1) = read_csr base 0 io in if v AND 0x0100 \<noteq> 0 then io1 else wait_idon base io1)"
  by pat_completeness auto
termination
proof (relation "measure (\<lambda>(base, io). length (inputs io))", goal_cases)
  case (2 base io p v io1)
  then show ?case by (cases "inputs io") (auto simp: read_csr_def inl_def outl_def next_input_def)
qed simp

declare wait_idon.simps [simp del]

definition pcnet_initialize ::
    "cfg \<Rightarrow> pci_device \<Rightarrow> u32 \<Rightarrow> u32 \<Rightarrow> u32 \<Rightarrow> u32 \<Rightarrow> u32 \<Rightarrow> pcnet \<Rightarrow> cfg \<times> pcnet \<times> u8 list \<times> u8 option" where
  "pcnet_initialize c dev rx_raw tx_raw rx_bufs tx_bufs init_raw s =
     (let base = io_bar c dev; s1 = s\<lparr>pc_io_base := base\<rparr> in
      if base = 0 then (c, s1, [], None)
      else let (mac, io1) = read_mac base 0 6 (write_bcr base 20 2 (outl (reg base 0x10) 0
                 (snd (inl (reg base 0x18) (pc_ports s)))));
               rx = align16 rx_raw; tx = align16 tx_raw; block = align16 init_raw;
               io2 = write_csr base 2 (drop_bit 16 block) (write_csr base 1 (block AND 0xFFFF) io1);
               io3 = write_csr base 0 (0x02 OR 0x40) (wait_idon base (write_csr base 0 0x01 io2))
           in (enable_bus_mastering c dev,
               s1\<lparr>pc_mac_address := mac, rx_ring := rx_ring_for rx_bufs, tx_ring := tx_ring_for tx_bufs,
                  rx_ring_at := rx, tx_ring_at := tx, pc_init_block := init_block_bytes mac rx tx, pc_ports := io3\<rparr>,
               bytes ''PCNet: Initializing at 0x'' @ itoa (sint base) 16 @ [10] @ mac_text mac @
                 bytes ''PCNet: Network UP'' @ [10],
               Some (32 + interrupt_line dev)))"

definition overlay_mem :: "mem \<Rightarrow> nat \<Rightarrow> u8 list \<Rightarrow> mem" where
  "overlay_mem m off xs = (\<lambda>i. if off \<le> i \<and> i < off + length xs then xs ! (i - off) else m i)"

definition pcnet_send_packet :: "mem \<Rightarrow> u32 \<Rightarrow> pcnet \<Rightarrow> pcnet" where
  "pcnet_send_packet data sz s =
     (if sz > 2000 then s
      else s\<lparr>tx_buffers := overlay_mem (tx_buffers s) (tx_index s * 2048) (mem_bytes data (unat sz)),
             tx_ring := (tx_ring s)[tx_index s := (tx_ring s ! tx_index s)\<lparr>d_status2 := 0,
               d_status := 0x83000000 OR ucast (ucast (- sz) :: u16)\<rparr>],
             pc_ports := write_csr (pc_io_base s) 0 0x48 (pc_ports s),
             tx_index := (tx_index s + 1) mod 8\<rparr>)"

definition hand_back :: "nat \<Rightarrow> descriptor list \<Rightarrow> descriptor list" where
  "hand_back i ring = ring[i := (ring ! i)\<lparr>d_status2 := 0, d_status := rx_owned\<rparr>]"

definition card_owns :: "descriptor \<Rightarrow> bool" where
  "card_owns d \<longleftrightarrow> d_status d AND 0x80000000 \<noteq> 0"

text \<open>The receive loop with the source's counter, which stops it after 33 rounds.\<close>

fun receive_loop_pc :: "nat \<Rightarrow> pcnet \<Rightarrow> frame list \<times> pcnet" where
  "receive_loop_pc 0 s = ([], s)"
| "receive_loop_pc (Suc left) s =
     (let d = rx_ring s ! rx_index s in
      if card_owns d then ([], s)
      else let (fs, s1) = receive_loop_pc left
                 (s\<lparr>rx_ring := hand_back (rx_index s) (rx_ring s), rx_index := (rx_index s + 1) mod 32\<rparr>)
           in ((mem_at (rx_buffers s) (rx_index s * 2048), d_status2 d AND 0x0FFF) # fs, s1))"

definition pcnet_receive_packet :: "pcnet \<Rightarrow> frame list \<times> pcnet" where
  "pcnet_receive_packet s = receive_loop_pc 33 s"

definition pcnet_callback :: "pcnet \<Rightarrow> frame list \<times> pcnet" where
  "pcnet_callback s =
     (let (csr0, io) = read_csr (pc_io_base s) 0 (pc_ports s); s1 = s\<lparr>pc_ports := io\<rparr>;
          (fs, s2) = (if csr0 AND 0x0400 \<noteq> 0 then pcnet_receive_packet s1 else ([], s1))
      in (fs, s2\<lparr>pc_ports := write_csr (pc_io_base s2) 0 (csr0 AND NOT 0x0040) (pc_ports s2)\<rparr>))"

definition pcnet_poll :: "pcnet \<Rightarrow> frame list \<times> pcnet" where
  "pcnet_poll s = pcnet_receive_packet s"

section \<open>The RTL8139 ring is read out frame by frame\<close>

definition frame_bytes :: "frame \<Rightarrow> u8 list" where
  "frame_bytes f = mem_bytes (fst f) (unat (snd f))"

text \<open>
  What the card has stored from an offset on: for each frame a valid header, whose length counts the four
  checksum bytes, the data and the checksum. The card starts the next frame at the next multiple of four and wraps at 8 KiB.
\<close>

definition card_next :: "nat \<Rightarrow> nat \<Rightarrow> nat" where
  "card_next off n = ((4 + n + 4 + off + 3) div 4 * 4) mod 8192"

fun ring_holds :: "mem \<Rightarrow> nat \<Rightarrow> u8 list list \<Rightarrow> bool" where
  "ring_holds m off [] = True"
| "ring_holds m off (f # fs) =
     (length f \<le> 1788 \<and> le16 m off AND 1 \<noteq> 0 \<and> le16 m (off + 2) = of_nat (length f + 4) \<and>
      mem_bytes (mem_at m (off + 4)) (length f) = f \<and> ring_holds m (card_next off (length f)) fs)"

definition ring_end :: "nat \<Rightarrow> u8 list list \<Rightarrow> nat" where
  "ring_end off fs = foldl (\<lambda>o1 f. card_next o1 (length f)) off fs"

lemma align4_word: "unat ((w :: u32) AND NOT 3) = unat w div 4 * 4"
proof -
  have "w AND NOT 3 = w AND NOT (mask 2)" by (simp add: mask_eq_exp_minus_1)
  also have "\<dots> = push_bit 2 (drop_bit 2 w)"
    by (rule bit_word_eqI) (auto simp: bit_simps not_less le_add_diff_inverse simp flip: Suc_diff_le numeral_2_eq_2)
  finally have "unat (w AND NOT 3) = unat (push_bit 2 (drop_bit 2 w))" by simp
  also have "\<dots> = unat w div 4 * 4 mod 4294967296"
    by (simp add: push_bit_eq_mult drop_bit_eq_div unat_word_ariths(2) unat_div)
  also have "\<dots> = unat w div 4 * 4"
    using unat_u32_lt [of w] by (intro mod_less) (rule le_less_trans [OF div_times_less_eq_dividend], simp)
  finally show ?thesis .
qed

lemma next_rx_card:
  assumes "n \<le> 1788" and "unat off < 8192"
  shows "unat (next_rx off (of_nat (n + 4))) = card_next (unat off) n"
proof -
  have "unat (of_nat (n + 4) :: u16) = n + 4" using assms(1) by (simp add: unsigned_of_nat take_bit_eq_mod del: of_nat_add)
  then have c: "unat (ucast (of_nat (n + 4) :: u16) :: u32) = n + 4"
    using assms(1) by (simp add: unsigned_ucast_eq take_bit_nat_eq_self del: of_nat_add)
  have 1: "unat (off + ucast (of_nat (n + 4) :: u16)) = unat off + (n + 4)"
    using assms c by (subst unat_add_u32) simp_all
  have 2: "unat (off + ucast (of_nat (n + 4) :: u16) + 4) = unat off + (n + 4) + 4"
    using assms 1 by (subst unat_add_u32) simp_all
  have 3: "unat (off + ucast (of_nat (n + 4) :: u16) + 4 + 3) = unat off + (n + 4) + 4 + 3"
    using assms 2 by (subst unat_add_u32) simp_all
  define x where "x = (off + ucast (of_nat (n + 4) :: u16) + 4 + 3) AND NOT 3"
  have x: "unat x = (4 + n + 4 + unat off + 3) div 4 * 4" unfolding x_def align4_word 3 by (simp add: algebra_simps)
  have "(4 + n + 4 + unat off + 3) div 4 * 4 \<le> 4 + n + 4 + unat off + 3" by simp
  then have lt: "unat x < 16384" using x assms by linarith
  have "unat (if x \<ge> 8192 then x - 8192 else x) = unat x mod 8192"
  proof (cases "x \<ge> 8192")
    case True
    then have "unat (x - 8192) = unat x - 8192" by (simp add: unat_sub_u32)
    moreover have "8192 \<le> unat x" using True by (simp add: word_le_nat_alt)
    ultimately show ?thesis using True lt by (simp add: le_mod_geq)
  next
    case False
    then show ?thesis by (simp add: word_le_nat_alt)
  qed
  then show ?thesis unfolding next_rx_def Let_def x_def [symmetric] card_next_def x .
qed

lemma card_next_lt: "card_next off n < 8192"
  by (simp add: card_next_def)

lemma unat_of_nat_u16: "n < 65536 \<Longrightarrow> unat (of_nat n :: u16) = n"
  by (simp add: unsigned_of_nat take_bit_eq_mod)

lemma frame_length_valid:
  assumes "n \<le> 1788" and "status AND 1 \<noteq> (0 :: u16)"
  shows "rx_valid status (of_nat (n + 4))" and "unat (ucast (of_nat (n + 4) :: u16) - 4 :: u32) = n"
proof -
  have n: "unat (of_nat (n + 4) :: u16) = n + 4" using assms(1) by (intro unat_of_nat_u16) simp
  show "rx_valid status (of_nat (n + 4))"
    using assms unfolding rx_valid_def by (simp add: word_less_nat_alt n del: of_nat_add)
  have c: "unat (ucast (of_nat (n + 4) :: u16) :: u32) = n + 4"
    using assms(1) by (simp add: unsigned_ucast_eq n take_bit_nat_eq_self del: of_nat_add)
  have "(4 :: u32) \<le> ucast (of_nat (n + 4) :: u16)" by (simp add: word_le_nat_alt c del: of_nat_add)
  then show "unat (ucast (of_nat (n + 4) :: u16) - 4 :: u32) = n"
    by (simp add: unat_sub_u32 c del: of_nat_add)
qed

lemma rtl_receive_stop:
  assumes "inputs (rtl_ports s) = v # vs" and "(ucast v :: u8) AND 1 \<noteq> 0"
  shows "rtl_receive_packet s = ([], s\<lparr>rtl_ports := snd (inb (reg (rtl_io_base s) 0x37) (rtl_ports s))\<rparr>)"
  using assms by (subst rtl_receive_packet.simps) (simp add: inb_def next_input_def)

lemma rtl_receive_frame:
  assumes "inputs (rtl_ports s) = v # vs" and "(ucast v :: u8) AND 1 = 0"
    and "ring_holds (rx_memory s) (unat (rx_offset s)) (f # fs)" and "unat (rx_offset s) < 8192"
  obtains t where "inputs (rtl_ports t) = vs" and "rx_memory t = rx_memory s"
    and "unat (rx_offset t) = card_next (unat (rx_offset s)) (length f)"
    and "\<exists>g. frame_bytes g = f \<and> rtl_receive_packet s = (g # fst (rtl_receive_packet t), snd (rtl_receive_packet t))"
proof -
  let ?off = "next_rx (rx_offset s) (of_nat (length f + 4))" and ?base = "rtl_io_base s"
  let ?t = "s\<lparr>rx_offset := ?off, rtl_ports := outw (reg ?base 0x38) (ucast ?off - 16) (snd (inb (reg ?base 0x37) (rtl_ports s)))\<rparr>"
  let ?g = "(mem_at (rx_memory s) (unat (rx_offset s) + 4), ucast (of_nat (length f + 4) :: u16) - 4 :: u32)"
  have f: "length f \<le> 1788" "le16 (rx_memory s) (unat (rx_offset s)) AND 1 \<noteq> 0"
    "le16 (rx_memory s) (unat (rx_offset s) + 2) = of_nat (length f + 4)"
    "mem_bytes (mem_at (rx_memory s) (unat (rx_offset s) + 4)) (length f) = f"
    using assms(3) by (simp_all del: of_nat_add)
  have "rtl_receive_packet s = (?g # fst (rtl_receive_packet ?t), snd (rtl_receive_packet ?t))"
    using assms(1,2) frame_length_valid(1) [OF f(1,2)] f(3)
    by (subst rtl_receive_packet.simps) (simp add: Let_def split_beta inb_def next_input_def del: of_nat_add)
  moreover have "frame_bytes ?g = f"
    using f(4) frame_length_valid(2) [OF f(1,2)] by (simp add: frame_bytes_def del: of_nat_add)
  ultimately show thesis
    using assms(1) next_rx_card [OF f(1) assms(4)] by (intro that [of ?t]) (auto simp del: of_nat_add)
qed

text \<open>The RTL8139 receive routine delivers the ring: when the card has stored the frames \<open>fs\<close> from the
  read offset on, each behind a valid header, and reports an empty buffer after as many looks, the routine
  hands exactly these frames upwards, in order and without their four checksum bytes, leaves the buffer
  alone, and stops at the offset behind the last frame.
\<close>

lemma rtl_receives_frames:
  assumes "ring_holds (rx_memory s) (unat (rx_offset s)) fs" and "unat (rx_offset s) < 8192" and "inputs (rtl_ports s) = looks @ none # rest"
    and "length looks = length fs" and "list_all (\<lambda>v. (ucast v :: u8) AND 1 = 0) looks" and "(ucast none :: u8) AND 1 \<noteq> 0"
  shows "map frame_bytes (fst (rtl_receive_packet s)) = fs
       \<and> unat (rx_offset (snd (rtl_receive_packet s))) = ring_end (unat (rx_offset s)) fs
       \<and> rx_memory (snd (rtl_receive_packet s)) = rx_memory s \<and> inputs (rtl_ports (snd (rtl_receive_packet s))) = rest"
  using assms
proof (induction fs arbitrary: s looks)
  case Nil
  then show ?case by (simp add: rtl_receive_stop ring_end_def)
next
  case (Cons f fs)
  obtain v vs where looks: "looks = v # vs" using Cons.prems(4) by (cases looks) auto
  obtain t where t: "inputs (rtl_ports t) = vs @ none # rest" "rx_memory t = rx_memory s"
      "unat (rx_offset t) = card_next (unat (rx_offset s)) (length f)"
      "\<exists>g. frame_bytes g = f \<and> rtl_receive_packet s = (g # fst (rtl_receive_packet t), snd (rtl_receive_packet t))"
    using Cons.prems looks by (elim rtl_receive_frame [rotated 2]) auto
  have "map frame_bytes (fst (rtl_receive_packet t)) = fs
       \<and> unat (rx_offset (snd (rtl_receive_packet t))) = ring_end (unat (rx_offset t)) fs
       \<and> rx_memory (snd (rtl_receive_packet t)) = rx_memory t \<and> inputs (rtl_ports (snd (rtl_receive_packet t))) = rest"
    using Cons.prems looks t(1,2,3) card_next_lt by (intro Cons.IH [of t vs]) (auto simp del: of_nat_add)
  then show ?case using t by (auto simp: ring_end_def simp del: of_nat_add)
qed

definition rtl0 :: rtl where
  "rtl0 = \<lparr>rtl_io_base = 0xC000, rx_memory = mem_of [1, 0, 6, 0, 0xAA, 0xBB, 0, 0, 0, 0, 0, 0, 1, 0, 5, 0, 0xCC],
     rtl_mac_address = [], rx_offset = 0, tx_desc = 0, rtl_ports = \<lparr>inputs = [0, 0, 1], trace = []\<rparr>\<rparr>"

lemma rtl_receives_frames_example:
  "map frame_bytes (fst (rtl_receive_packet rtl0)) = [[0xAA, 0xBB], [0xCC]]
   \<and> unat (rx_offset (snd (rtl_receive_packet rtl0))) = 24"
proof -
  have holds: "ring_holds (rx_memory rtl0) (unat (rx_offset rtl0)) [[0xAA, 0xBB], [0xCC]]" by code_simp
  have fin: "ring_end (unat (rx_offset rtl0)) [[0xAA, 0xBB], [0xCC]] = 24" by code_simp
  show ?thesis
    using rtl_receives_frames [OF holds, of "[0, 0]" 1 "[]"] fin by (simp add: rtl0_def)
qed

section \<open>The PCNet ring is emptied up to the first buffer the card owns\<close>

definition slots :: "nat \<Rightarrow> nat \<Rightarrow> nat list" where
  "slots n i = map (\<lambda>j. (i + j) mod 32) [0..<n]"

text \<open>The slots whose frames wait for the kernel, in ring order from the read index, and a slot's frame.\<close>

definition waiting :: "nat \<Rightarrow> pcnet \<Rightarrow> nat list" where
  "waiting n s = takeWhile (\<lambda>j. \<not> card_owns (rx_ring s ! j)) (slots n (rx_index s))"

definition frame_at :: "pcnet \<Rightarrow> nat \<Rightarrow> frame" where
  "frame_at s j = (mem_at (rx_buffers s) (j * 2048), d_status2 (rx_ring s ! j) AND 0x0FFF)"

definition emptied :: "nat \<Rightarrow> pcnet \<Rightarrow> pcnet" where
  "emptied n s = s\<lparr>rx_ring := fold hand_back (waiting n s) (rx_ring s),
     rx_index := (rx_index s + length (waiting n s)) mod 32\<rparr>"

lemma slots_Suc: "i < 32 \<Longrightarrow> slots (Suc n) i = i # slots n ((i + 1) mod 32)"
  by (simp add: slots_def upt_conv_Cons map_Suc_upt [symmetric] comp_def mod_simps del: upt_Suc)

lemma slots_fresh: "i < 32 \<Longrightarrow> n < 32 \<Longrightarrow> i \<notin> set (slots n ((i + 1) mod 32))"
proof
  assume "i < 32" "n < 32" "i \<in> set (slots n ((i + 1) mod 32))"
  then obtain j where "j < n" "i = (i + Suc j) mod 32" by (auto simp: slots_def mod_simps)
  moreover have "(i + Suc j) mod 32 = (if i + Suc j < 32 then i + Suc j else i + Suc j - 32)"
    using \<open>j < n\<close> \<open>i < 32\<close> \<open>n < 32\<close> by (cases "i + Suc j < 32") (simp_all add: le_mod_geq)
  ultimately show False using \<open>n < 32\<close> by (auto split: if_splits)
qed

lemma hand_back_other [simp]: "j \<noteq> i \<Longrightarrow> hand_back i ring ! j = ring ! j"
  by (simp add: hand_back_def)

lemma length_hand_back [simp]: "length (hand_back i ring) = length ring"
  by (simp add: hand_back_def)

lemma hand_back_owned [simp]: "i < length ring \<Longrightarrow> card_owns (hand_back i ring ! i)"
  by (simp add: hand_back_def card_owns_def rx_owned_def)

lemma waiting_step:
  assumes "rx_index s < 32" and "n < 32" and "\<not> card_owns (rx_ring s ! rx_index s)"
  defines "t \<equiv> s\<lparr>rx_ring := hand_back (rx_index s) (rx_ring s), rx_index := (rx_index s + 1) mod 32\<rparr>"
  shows "waiting (Suc n) s = rx_index s # waiting n t" and "map (frame_at t) (waiting n t) = map (frame_at s) (waiting n t)"
    and "emptied n t = emptied (Suc n) s"
proof -
  have fresh: "rx_index s \<notin> set (slots n ((rx_index s + 1) mod 32))" by (rule slots_fresh) fact+
  have other: "hand_back (rx_index s) (rx_ring s) ! j = rx_ring s ! j" if "j \<in> set (slots n ((rx_index s + 1) mod 32))" for j
    using fresh that by (intro hand_back_other) auto
  have "waiting n t = takeWhile (\<lambda>j. \<not> card_owns (rx_ring s ! j)) (slots n ((rx_index s + 1) mod 32))"
    unfolding waiting_def t_def using other by (auto intro!: takeWhile_cong)
  then show w: "waiting (Suc n) s = rx_index s # waiting n t"
    using assms(1,3) by (simp add: waiting_def slots_Suc)
  have "set (waiting n t) \<subseteq> set (slots n ((rx_index s + 1) mod 32))"
    unfolding waiting_def t_def by (auto dest: set_takeWhileD)
  then show "map (frame_at t) (waiting n t) = map (frame_at s) (waiting n t)"
    using other by (auto simp: frame_at_def t_def)
  show "emptied n t = emptied (Suc n) s"
    unfolding emptied_def w by (simp add: t_def mod_simps)
qed

lemma receive_loop_waiting:
  assumes "rx_index s < 32" and "n \<le> 32"
  shows "receive_loop_pc n s = (map (frame_at s) (waiting n s), emptied n s)"
  using assms
proof (induction n arbitrary: s)
  case 0
  then show ?case by (simp add: waiting_def emptied_def slots_def)
next
  case (Suc n)
  show ?case
  proof (cases "card_owns (rx_ring s ! rx_index s)")
    case True
    with Suc.prems show ?thesis by (simp add: waiting_def emptied_def slots_Suc)
  next
    case False
    define t where "t = s\<lparr>rx_ring := hand_back (rx_index s) (rx_ring s), rx_index := (rx_index s + 1) mod 32\<rparr>"
    have "n < 32" using Suc.prems by simp
    note step = waiting_step [OF Suc.prems(1) this False, folded t_def]
    have "receive_loop_pc n t = (map (frame_at t) (waiting n t), emptied n t)"
      using Suc.prems by (intro Suc.IH) (auto simp: t_def)
    moreover have "receive_loop_pc (Suc n) s =
        (let (fs, s1) = receive_loop_pc n t in (frame_at s (rx_index s) # fs, s1))"
      using False by (simp add: frame_at_def t_def)
    ultimately show ?thesis using step by simp
  qed
qed

lemma fold_hand_back_owned:
  "length (fold hand_back js ring) = length ring"
  "j \<in> set js \<Longrightarrow> j < length ring \<Longrightarrow> card_owns (fold hand_back js ring ! j)"
  "j \<notin> set js \<Longrightarrow> fold hand_back js ring ! j = ring ! j"
proof (induction js arbitrary: ring)
  case (Cons i js)
  { case 1 show ?case using Cons.IH(1) by simp }
  { case 2 then show ?case using Cons.IH(2) [of "hand_back i ring"] Cons.IH(3) [of "hand_back i ring"]
      by (cases "j \<in> set js") auto }
  { case 3 then show ?case using Cons.IH(3) by simp }
qed auto

lemma emptied_stops:
  assumes "rx_index s < 32" and "length (rx_ring s) = 32"
  shows "card_owns (rx_ring (emptied 32 s) ! rx_index (emptied 32 s))"
proof (cases "waiting 32 s = slots 32 (rx_index s)")
  case True
  moreover have "rx_index s \<in> set (slots 32 (rx_index s))"
    using slots_Suc [OF assms(1), of 31] by simp
  moreover have "length (slots 32 (rx_index s)) = 32" by (simp add: slots_def)
  ultimately show ?thesis using assms fold_hand_back_owned(2) by (simp add: emptied_def)
next
  case False
  let ?k = "length (waiting 32 s)"
  have k: "?k < length (slots 32 (rx_index s))"
    using False unfolding waiting_def by (metis length_takeWhile_le nat_less_le takeWhile_eq_take take_all_iff order_refl)
  then have slot: "slots 32 (rx_index s) ! ?k = (rx_index s + ?k) mod 32" by (simp add: slots_def)
  have "card_owns (rx_ring s ! ((rx_index s + ?k) mod 32))"
    using nth_length_takeWhile [of "\<lambda>j. \<not> card_owns (rx_ring s ! j)" "slots 32 (rx_index s)"] k slot
    by (simp add: waiting_def)
  moreover have "(rx_index s + ?k) mod 32 \<notin> set (waiting 32 s)"
    using calculation unfolding waiting_def by (auto dest: set_takeWhileD)
  ultimately show ?thesis by (simp add: emptied_def fold_hand_back_owned(3))
qed

lemma receive_loop_more:
  "receive_loop_pc n s = (fs, t) \<Longrightarrow> card_owns (rx_ring t ! rx_index t) \<Longrightarrow> receive_loop_pc (Suc n) s = (fs, t)"
proof (induction n arbitrary: s fs)
  case (Suc n)
  show ?case
  proof (cases "card_owns (rx_ring s ! rx_index s)")
    case False
    let ?u = "s\<lparr>rx_ring := hand_back (rx_index s) (rx_ring s), rx_index := (rx_index s + 1) mod 32\<rparr>"
    obtain gs where "receive_loop_pc n ?u = (gs, t)"
      using Suc.prems False by (auto simp: Let_def split: prod.splits)
    then have "receive_loop_pc (Suc n) ?u = (gs, t)" using Suc.prems(2) by (rule Suc.IH)
    then show ?thesis
      using Suc.prems(1) False \<open>receive_loop_pc n ?u = (gs, t)\<close>
      by (simp only: receive_loop_pc.simps(2) [of "Suc n" s] receive_loop_pc.simps(2) [of n s] Let_def if_False split_beta fst_conv snd_conv)
  qed (use Suc.prems in simp)
qed simp

text \<open>The PCNet receive routine takes exactly the waiting frames: starting at the read index and going
  around the ring, the frames of the descriptors the card has given up are handed upwards in order, up to
  the first descriptor the card still owns; each of these descriptors is given back to the card, the read
  index moves past them, and nothing else changes. The safety counter of the source never cuts this short,
  not even when all 32 buffers are full.
\<close>

lemma pcnet_takes_waiting_frames:
  assumes "rx_index s < 32" and "length (rx_ring s) = 32"
  shows "pcnet_receive_packet s = (map (frame_at s) (waiting 32 s), emptied 32 s)"
proof -
  have "receive_loop_pc 32 s = (map (frame_at s) (waiting 32 s), emptied 32 s)"
    using assms by (intro receive_loop_waiting) simp_all
  then have "receive_loop_pc (Suc 32) s = (map (frame_at s) (waiting 32 s), emptied 32 s)"
    using emptied_stops [OF assms] by (rule receive_loop_more)
  then show ?thesis by (simp add: pcnet_receive_packet_def)
qed

definition pcnet0 :: pcnet where
  "pcnet0 = \<lparr>pc_io_base = 0xC000, pc_mac_address = [],
     rx_ring = (rx_ring_for 0)[31 := \<lparr>d_address = 0, d_status = 0x03000000, d_status2 = 60, d_res = 0\<rparr>,
       0 := \<lparr>d_address = 0, d_status = 0x03000000, d_status2 = 100, d_res = 0\<rparr>],
     tx_ring = tx_ring_for 0, rx_ring_at = 0, tx_ring_at = 0, rx_buffers = (\<lambda>i. of_nat (i div 2048)), tx_buffers = (\<lambda>i. 0),
     rx_index = 31, tx_index = 0, pc_init_block = [], pc_ports = \<lparr>inputs = [], trace = []\<rparr>\<rparr>"

lemma pcnet_takes_waiting_frames_example:
  "map snd (fst (pcnet_receive_packet pcnet0)) = [60, 100] \<and> rx_index (snd (pcnet_receive_packet pcnet0)) = 1"
proof -
  have ok: "rx_index pcnet0 < 32" "length (rx_ring pcnet0) = 32" by (simp_all add: pcnet0_def rx_ring_for_def)
  have ring: "rx_ring pcnet0 ! 31 = \<lparr>d_address = 0, d_status = 0x03000000, d_status2 = 60, d_res = 0\<rparr>"
    "rx_ring pcnet0 ! 0 = \<lparr>d_address = 0, d_status = 0x03000000, d_status2 = 100, d_res = 0\<rparr>" "d_status (rx_ring pcnet0 ! 1) = rx_owned"
    by (simp_all add: pcnet0_def rx_ring_for_def)
  have "slots 32 31 = 31 # 0 # 1 # slots 29 2"
    using slots_Suc [of 31 31] slots_Suc [of 0 30] slots_Suc [of 1 29] by (simp add: numeral_2_eq_2)
  then have w: "waiting 32 pcnet0 = [31, 0]"
    using ring by (simp add: waiting_def pcnet0_def [THEN arg_cong [of _ _ rx_index]] card_owns_def rx_owned_def)
  have "rx_index (emptied 32 pcnet0) = 1" by (simp add: emptied_def w) (simp add: pcnet0_def)
  then show ?thesis using pcnet_takes_waiting_frames [OF ok] ring by (simp add: w frame_at_def)
qed

section \<open>What the drivers leave open\<close>

text \<open>
  The acknowledgement of an interrupt writes the control register with its interrupt-enable bit cleared,
  so that only polling sees what arrives after the first interrupt.
\<close>

lemma pcnet_interrupts_off:
  "\<exists>v io. pc_ports (snd (pcnet_callback s)) = outl (reg (pc_io_base s) 0x10) v io \<and> v AND 0x40 = 0"
proof -
  have base: "pc_io_base (snd (receive_loop_pc n t)) = pc_io_base t" for n t
    by (induction n arbitrary: t) (auto simp: Let_def split_beta)
  have "(w AND NOT 0x40) AND (0x40 :: u32) = 0" for w by (simp add: ac_simps)
  then show ?thesis
    by (cases "read_csr (pc_io_base s) 0 (pc_ports s)")
       (auto simp: pcnet_callback_def pcnet_receive_packet_def split_beta Let_def write_csr_def base)
qed

text \<open>Sending never looks at the descriptor's own bit: with the ring full, the next packet replaces the bytes
  of one the card has not sent.\<close>

lemma pcnet_send_overwrites:
  assumes "\<not> sz > 2000"
  shows "mem_bytes (mem_at (tx_buffers (pcnet_send_packet data sz s)) (tx_index s * 2048)) (unat sz) = mem_bytes data (unat sz)"
  using assms by (intro nth_equalityI) (auto simp: pcnet_send_packet_def overlay_mem_def)

text \<open>Without a card the base is 0, and sending writes to ports that are not a network card's.\<close>

lemma pcnet_send_without_card:
  assumes "pc_io_base s = 0" and "\<not> sz > 2000"
  shows "outputs (pc_ports (pcnet_send_packet data sz s)) = outputs (pc_ports s) @ [Out32 0x14 0, Out32 0x10 0x48]"
  using assms by (simp add: pcnet_send_packet_def write_csr_def reg_def)

text \<open>A reset that completes at the last look counts as a timeout.\<close>

lemma rtl_late_reset:
  "fst (reset_wait p t \<lparr>inputs = replicate t 0x10 @ [0], trace = tr\<rparr>) = 0"
  by (induction t arbitrary: tr) (auto simp: inb_def next_input_def Let_def split: if_splits)

end
