(* ===== verification/Shell.thy ===== *)
theory Shell
  imports Nano MBR NetStack Scheduler Arch PCI "HOL-Library.Monad_Syntax"
begin

text \<open>
  The shell's state, its output and its text helpers, \<open>kernel/shell.cpp\<close>. The state of the whole running
  system extends the desktop of \<open>Nano\<close> (console, file tree, editor) by the shell's own variables, the network,
  the PCI bus, the processes and the ports. Character arrays that hold a C string are their text; storing
  a text that does not fit is a fault, and \<open>None\<close> is a fault or a loop that does not end. Two things come
  from outside: the answers of the frame allocator (\<open>frames\<close>; after the script every request succeeds) and
  the number of network polls after which Ctrl+C is pressed (\<open>ctrl_c_in\<close>).
\<close>

section \<open>State\<close>

record system = desktop +
  command_buffer :: "u8 list"
  buffer_index :: nat
  app_running :: bool
  current_user :: "u8 list"
  is_admin :: bool
  current_path :: "u8 list"
  history :: "u8 list list"
  history_count :: nat
  history_cursor :: nat
  redir_out :: bool
  redir_file :: "u8 list"
  pipe_active :: bool
  pipe_buffer :: "u8 list"
  pipe_cursor :: nat
  pipe_input_available :: bool
  abort_requested :: bool
  network :: ipv6
  bus :: cfg
  pci_devices :: "pci_device list"
  scheduler :: sched
  machine_ports :: ports
  frames :: "bool list"
  ctrl_c_in :: "nat option"

section \<open>Texts\<close>

text \<open>A text up to the first occurrence of a character, and what follows it.\<close>

definition cut_at :: "u8 \<Rightarrow> u8 list \<Rightarrow> u8 list \<times> u8 list option" where
  "cut_at c t = (takeWhile (\<lambda>x. x \<noteq> c) t, case dropWhile (\<lambda>x. x \<noteq> c) t of [] \<Rightarrow> None | _ # r \<Rightarrow> Some r)"

definition skip_spaces :: "u8 list \<Rightarrow> u8 list" where
  "skip_spaces t = dropWhile (\<lambda>x. x = 0x20) t"

text \<open>The inner loop of \<open>k_strstr\<close>: it ends at the end of the needle exactly if the needle is a prefix.\<close>

fun match_from :: "u8 list \<Rightarrow> u8 list \<Rightarrow> bool" where
  "match_from h [] = True"
| "match_from [] (x # n) = False"
| "match_from (y # h) (x # n) = (y = x \<and> match_from h n)"

fun k_strstr :: "u8 list \<Rightarrow> u8 list \<Rightarrow> nat option" where
  "k_strstr [] n = (if n = [] then Some 0 else None)"
| "k_strstr (y # h) n = (if match_from (y # h) n then Some 0 else map_option Suc (k_strstr h n))"

text \<open>
  Dotted decimal to an address, first octet in the low byte. Characters other than digits and dots are
  skipped; a shift by 32 or more, from the fifth octet on, is undefined in C.
\<close>

definition is_digit :: "u8 \<Rightarrow> bool" where
  "is_digit c \<longleftrightarrow> 0x30 \<le> c \<and> c \<le> 0x39"

fun ip_loop :: "u8 list \<Rightarrow> u32 \<Rightarrow> u32 \<Rightarrow> nat \<Rightarrow> u32 option" where
  "ip_loop [] ip oct shift = (if shift \<ge> 32 then None else Some (ip OR push_bit shift oct))"
| "ip_loop (c # rest) ip oct shift =
     (if c = 0x2E then (if shift \<ge> 32 then None else ip_loop rest (ip OR push_bit shift oct) 0 (shift + 8))
      else if is_digit c then ip_loop rest ip (oct * 10 + (ucast c - 0x30)) shift
      else ip_loop rest ip oct shift)"

definition string_to_ip :: "u8 list \<Rightarrow> u32 option" where
  "string_to_ip str = ip_loop str 0 0 0"

text \<open>The path the shell builds from the current directory and a name, in an array of 256 bytes.\<close>

definition abs_path :: "u8 list \<Rightarrow> u8 list \<Rightarrow> u8 list option" where
  "abs_path path nm =
     (if take 1 nm = [0x2F] then (if length nm < 256 then Some nm else None)
      else if path = [] then None
      else let p = path @ (if last path \<noteq> 0x2F then [0x2F] else []) @ nm
           in if length p < 256 then Some p else None)"

section \<open>Output\<close>

definition put_text :: "nat \<Rightarrow> u8 list \<Rightarrow> u8 list \<Rightarrow> u8 list" where
  "put_text i text xs = take i xs @ text @ drop (i + length text) xs"

text \<open>A new file in the RAM file system, and a new file at a path of the tree.\<close>

definition ram_new :: "u8 list \<Rightarrow> system \<Rightarrow> system option" where
  "ram_new nm s =
     (case create_file (tree s) (nm @ [0]) (Some [0]) (case frames s of [] \<Rightarrow> True | ok # _ \<Rightarrow> ok) of
        None \<Rightarrow> None
      | Some (t, _) \<Rightarrow>
          Some (s\<lparr>tree := t, frames := (if file_count (tree s) \<ge> MAX_FILES then frames s else tl (frames s))\<rparr>))"

definition on_disk :: "u8 list \<Rightarrow> bool" where
  "on_disk path \<longleftrightarrow> take 6 path = bytes ''/disk/''"

definition new_file :: "u8 list \<Rightarrow> u8 list \<Rightarrow> system \<Rightarrow> system option" where
  "new_file path nm s =
     (if on_disk path
      then map_option (\<lambda>(t, _). s\<lparr>tree := t\<rparr>) (mesa_create_file (tree s) (drop 6 path @ [0]) 0 0 420)
      else ram_new nm s)"

definition find_node :: "u8 list \<Rightarrow> system \<Rightarrow> system \<times> nat option" where
  "find_node path s = (case lookup (tree s) path of (t, n) \<Rightarrow> (s\<lparr>tree := t\<rparr>, n))"

definition pipe_print :: "u8 list \<Rightarrow> system \<Rightarrow> system" where
  "pipe_print text s =
     (if pipe_cursor s + length text < 4095
      then s\<lparr>pipe_buffer := put_text (pipe_cursor s) (text @ [0]) (pipe_buffer s), pipe_cursor := pipe_cursor s + length text\<rparr>
      else s)"

definition redirect_node :: "u8 list \<Rightarrow> system \<Rightarrow> (system \<times> nat option) option" where
  "redirect_node path s =
     (case find_node path s of
        (s1, Some n) \<Rightarrow> Some (s1, Some n)
      | (s1, None) \<Rightarrow> map_option (find_node path) (new_file path (redir_file s1) s1))"

definition file_print :: "u8 list \<Rightarrow> system \<Rightarrow> system option" where
  "file_print text s = do {
     path \<leftarrow> abs_path (current_path s) (redir_file s);
     (s1, node) \<leftarrow> redirect_node path s;
     case node of
       None \<Rightarrow> Some s1
     | Some n \<Rightarrow> map_option (\<lambda>(t, _). s1\<lparr>tree := t\<rparr>) (file_write (tree s1) n (nlength (nodes (tree s1) ! n)) text)}"

definition kprint :: "u8 list \<Rightarrow> system \<Rightarrow> system option" where
  "kprint text s =
     (if pipe_active s then Some (pipe_print text s)
      else if redir_out s then file_print text s
      else Some (say text s))"

fun kprints :: "u8 list list \<Rightarrow> system \<Rightarrow> system option" where
  "kprints [] s = Some s"
| "kprints (t # ts) s = kprint t s \<bind> kprints ts"

definition kprint_char :: "u8 \<Rightarrow> system \<Rightarrow> system option" where
  "kprint_char c = kprint (cstr [c])"

definition handle_signal :: "int \<Rightarrow> system \<Rightarrow> system option" where
  "handle_signal sig s = (if sig = 2 then kprint (bytes ''^C'' @ [10]) (s\<lparr>abort_requested := True\<rparr>) else Some s)"

definition prompt :: "system \<Rightarrow> system" where
  "prompt s =
     (let s1 = say (current_user s) (ink (if is_admin s then 12 else 10) 0 (s\<lparr>abort_requested := False\<rparr>));
          s2 = say (bytes ''@'') (ink 15 0 s1);
          s3 = say (bytes ''mesa-os'') (ink 10 0 s2);
          s4 = say (bytes '':'') (ink 15 0 s3);
          s5 = say (current_path s) (ink 9 0 s4)
      in say (if is_admin s then bytes ''# '' else bytes ''$ '') (ink 15 0 s5))"

definition shell_initialize :: "system \<Rightarrow> system" where
  "shell_initialize s = prompt (say ([10] @ bytes ''MesaOS Shell'' @ [10]) (clear_screen (s\<lparr>buffer_index := 0\<rparr>)))"

definition is_app_running :: "system \<Rightarrow> bool" where
  "is_app_running s = app_running s"

text \<open>A call into the network: what it prints goes to the console.\<close>

definition net_print :: "ipv6 \<Rightarrow> system \<Rightarrow> system" where
  "net_print n s = say (console n) (s\<lparr>network := n\<lparr>console := []\<rparr>\<rparr>)"

definition net_call :: "(ipv6 \<Rightarrow> ipv6) \<Rightarrow> system \<Rightarrow> system" where
  "net_call f s = net_print (f (network s)) s"

end
