(* ===== verification/Commands.thy ===== *)
theory Commands
  imports Shell
begin

text \<open>
  The shell's commands and its command line, \<open>Shell::execute_command\<close> and \<open>Shell::handle_input\<close>. One
  definition per command, in the source's order; \<open>run_command\<close> is the chain of comparisons, \<open>plain_command\<close>
  adds redirection and argument parsing, \<open>execute_command\<close> pipes. \<open>poll\<close> is what one \<open>PCNet::poll\<close> does to
  the network. The second \<open>lspci\<close> and \<open>ping\<close> branches of the source repeat a comparison that has
  already failed and have no counterpart.
\<close>

section \<open>Information\<close>

definition help_lines :: "u8 list list" where
  "help_lines = [[10] @ bytes ''      .---.      MesaOS v1.0-alpha'', [10] @ bytes ''     /     '' @ [92] @ bytes ''     Digital. Free. Imperfect.'',
     [10] @ bytes ''    | () () |    Root: /dev/internal_sd'', [10] @ bytes ''     '' @ [92] @ bytes ''  ^  /     '',
     [10] @ bytes ''      |||||      '' @ [10],
     bytes ''=== MesaOS Help System ==='' @ [10, 10], bytes ''System Core:'' @ [10],
     bytes ''  sdstat   - Check internal SD health'' @ [10], bytes ''  sync     - Flush buffers'' @ [10],
     [10] @ bytes ''Process Management:'' @ [10], bytes ''  ps       - List living processes'' @ [10],
     bytes ''  kill     - Terminate a process'' @ [10],
     [10] @ bytes ''Memory & Truth:'' @ [10], bytes ''  meminfo  - Display raw memory usage'' @ [10],
     [10] @ bytes ''Utilities:'' @ [10], bytes ''  echo     - Send a message to the void'' @ [10],
     bytes ''  clear    - Wipe the screen, keep the soul'' @ [10], bytes ''  help     - Show this manual'' @ [10],
     bytes ''  exit     - Return to the dark void'' @ [10], bytes ''  lspci    - List PCI devices'' @ [10],
     bytes ''  dhcp     - Request IP via DHCP'' @ [10], bytes ''  ping     - Send ICMP Echo'' @ [10],
     bytes ''  grep     - Filter output (use with | )'' @ [10],
     [10] @ bytes ''[!] Remember: Reality is imperfect. Glitches are features.'' @ [10]]"

definition do_uname :: "u8 list \<Rightarrow> system \<Rightarrow> system option" where
  "do_uname arg = kprint (if arg = bytes ''-a'' then bytes ''MesaOS mesa-os 0.3-persist i686 GNU/Mesa'' @ [10]
     else bytes ''MesaOS'' @ [10])"

definition pci_line :: "pci_device \<Rightarrow> u8 list list" where
  "pci_line dev = [bytes ''Bus '', itoa (uint (bus_no dev)) 10, bytes '' Dev '', itoa (uint (slot_no dev)) 10, bytes '': '',
     bytes ''Vendor 0x'', itoa (uint (vendor_id dev)) 16, bytes '' Device 0x'', itoa (uint (device_id dev)) 16, [10]]"

definition do_lspci :: "system \<Rightarrow> system option" where
  "do_lspci s =
     (let devs = pci_scan (bus s)
      in kprints ((bytes ''PCI Devices Found:'' @ [10]) # concat (map pci_line devs)) (s\<lparr>pci_devices := devs\<rparr>))"

text \<open>The list of processes; a number of ten digits leaves the array it is printed into.\<close>

definition state_text :: "process_state \<Rightarrow> u8 list" where
  "state_text st = (case st of READY \<Rightarrow> bytes ''READY'' | RUNNING \<Rightarrow> bytes ''RUNNING'' | _ \<Rightarrow> bytes ''SUSPENDED'') @ [10]"

definition ps_line :: "process \<Rightarrow> u8 list list" where
  "ps_line p = [itoa (sint (pid p)) 10, bytes ''    '', name p] @ replicate (10 - length (name p)) [0x20] @ [state_text (pstate p)]"

partial_function (option) ps_loop :: "u32 \<Rightarrow> system \<Rightarrow> system option" where
  "ps_loop p s =
     (if p = 0 then Some s
      else let q = procs (scheduler s) p in
        if length (itoa (sint (pid q)) 10) \<ge> 10 then None
        else (case kprints (ps_line q) s of None \<Rightarrow> None | Some s1 \<Rightarrow> ps_loop (nxt q) s1))"

definition do_ps :: "system \<Rightarrow> system option" where
  "do_ps s = kprint (bytes ''PID  NAME      STATUS'' @ [10]) s \<bind> ps_loop (process_list (scheduler s))"

text \<open>\<open>top\<close> runs \<open>ps\<close> through \<open>execute_command\<close>, which resets the abort flag and ends a redirection.\<close>

definition do_top :: "system \<Rightarrow> system option" where
  "do_top s =
     (let s1 = ink 15 0 (say (bytes '' MesaOS Task Manager | CPU: 100% | Press any key to exit                    '' @ [10])
                 (ink 0 7 (clear_screen s)))
      in map_option (\<lambda>s2. say ([10] @ bytes ''[ TASK SWITCHING: ENABLED ]'') (s2\<lparr>redir_out := False\<rparr>))
           (do_ps (s1\<lparr>abort_requested := False\<rparr>)))"

definition do_about :: "system \<Rightarrow> system" where
  "do_about s = say (bytes ''Designed for speed, built with passion.'' @ [10, 10])
     (ink 15 0 (say ([10] @ bytes ''MesaOS v0.3 - Premium Minimalistic OS'' @ [10]) (ink 11 0 s)))"

definition two_digits :: "u8 \<Rightarrow> u8 list list" where
  "two_digits x = (if x < 10 then [bytes ''0''] else []) @ [itoa (uint x) 10]"

definition do_clock :: "system \<Rightarrow> system option" where
  "do_clock s = do {
     (t, io) \<leftarrow> rtc_get_time (machine_ports s);
     kprints (two_digits (hour t) @ [bytes '':''] @ two_digits (minute t) @ [bytes '':''] @ two_digits (second t) @ [[10]])
       (s\<lparr>machine_ports := io\<rparr>)}"

section \<open>Users and directories\<close>

definition do_su :: "u8 list \<Rightarrow> system \<Rightarrow> system option" where
  "do_su arg s =
     (if arg \<noteq> []
      then if length arg \<ge> 32 then None
           else kprints [bytes ''Switched to user: '', arg, [10]] (s\<lparr>current_user := arg, is_admin := (arg = bytes ''root'')\<rparr>)
      else kprint (bytes ''Usage: su <username>'' @ [10]) s)"

definition is_dir :: "nat option \<Rightarrow> system \<Rightarrow> bool" where
  "is_dir node s = (case node of None \<Rightarrow> False | Some n \<Rightarrow> is_directory (nodes (tree s) ! n))"

definition do_cd :: "u8 list \<Rightarrow> system \<Rightarrow> system option" where
  "do_cd arg s =
     (if arg = [] \<or> arg = bytes ''/'' \<or> arg = bytes ''..'' then Some (s\<lparr>current_path := bytes ''/''\<rparr>)
      else do {
        path \<leftarrow> abs_path (current_path s) arg;
        let (s1, node) = find_node path s;
        if is_dir node s1 then if length path \<ge> 128 then None else Some (s1\<lparr>current_path := path\<rparr>)
        else kprints [bytes ''cd: '', arg, bytes '': No such directory'' @ [10]] s1})"

definition do_mkdir :: "u8 list \<Rightarrow> system \<Rightarrow> system option" where
  "do_mkdir arg s =
     (if arg = [] then kprint (bytes ''Usage: mkdir <dir_name>'' @ [10]) s
      else do {
        path \<leftarrow> abs_path (current_path s) arg;
        s1 \<leftarrow> (if on_disk path
               then map_option (\<lambda>(t, _). s\<lparr>tree := t\<rparr>) (mesa_create_dir (tree s) (drop 6 path @ [0]) 0 0 493)
               else map_option (\<lambda>(t, _). s\<lparr>tree := t\<rparr>) (create_dir (tree s) (arg @ [0])));
        kprint (bytes ''Directory created.'' @ [10]) s1})"

definition ls_line :: "u8 list \<Rightarrow> bool \<Rightarrow> u8 list list" where
  "ls_line nm directory = [nm] @ (if directory then [bytes ''/''] else []) @ [bytes ''  '']"

partial_function (option) ls_loop :: "nat \<Rightarrow> u32 \<Rightarrow> system \<Rightarrow> system option" where
  "ls_loop d i s =
     (case dir_entry (tree s) d i of
        None \<Rightarrow> Some s
      | Some (nm, ino) \<Rightarrow>
          (case find_dir (tree s) d (cstr nm) of
             (t, child) \<Rightarrow>
               (case kprints (ls_line (cstr nm) (is_dir child (s\<lparr>tree := t\<rparr>))) (s\<lparr>tree := t\<rparr>) of
                  None \<Rightarrow> None
                | Some s1 \<Rightarrow> ls_loop d (i + 1) s1)))"

definition do_ls :: "u8 list \<Rightarrow> system \<Rightarrow> system option" where
  "do_ls arg s = do {
     path \<leftarrow> (if arg = [] then Some (current_path s) else abs_path (current_path s) arg);
     case find_node path s of
       (s1, None) \<Rightarrow> kprint (bytes ''Directory not found.'' @ [10]) s1
     | (s1, Some d) \<Rightarrow> ls_loop d 0 s1 \<bind> kprint [10]}"

partial_function (option) tree_loop :: "u32 \<Rightarrow> system \<Rightarrow> system option" where
  "tree_loop i s =
     (case dir_entry (tree s) (fs_root (tree s)) i of
        None \<Rightarrow> Some s
      | Some (nm, ino) \<Rightarrow>
          (case kprints [bytes ''|- '', cstr nm, [10]] s of None \<Rightarrow> None | Some s1 \<Rightarrow> tree_loop (i + 1) s1))"

definition do_tree :: "system \<Rightarrow> system option" where
  "do_tree s = kprint (bytes ''/'' @ [10]) s \<bind> tree_loop 0"

section \<open>Files\<close>

definition do_touch :: "u8 list \<Rightarrow> system \<Rightarrow> system option" where
  "do_touch arg s =
     (if arg = [] then kprint (bytes ''Usage: touch <filename>'' @ [10]) s
      else do {
        path \<leftarrow> abs_path (current_path s) arg;
        s1 \<leftarrow> new_file path arg s;
        kprint (bytes ''File created.'' @ [10]) s1})"

definition do_cat :: "u8 list \<Rightarrow> system \<Rightarrow> system option" where
  "do_cat arg s =
     (if arg = [] then kprint (bytes ''Usage: cat <filename>'' @ [10]) s
      else do {
        path \<leftarrow> abs_path (current_path s) arg;
        case find_node path s of
          (s1, None) \<Rightarrow> kprint (bytes ''File not found.'' @ [10]) s1
        | (s1, Some n) \<Rightarrow> do {
            content \<leftarrow> file_read (tree s1) n 0 2047;
            kprints [cstr content, [10]] s1}})"

definition do_rm :: "u8 list \<Rightarrow> system \<Rightarrow> system option" where
  "do_rm arg s =
     (if arg = [] then kprint (bytes ''Usage: rm <filename>'' @ [10]) s
      else case delete_file (tree s) (arg @ [0]) of
             (t, True) \<Rightarrow> kprint (bytes ''File deleted.'' @ [10]) (s\<lparr>tree := t\<rparr>)
           | (t, False) \<Rightarrow> kprint (bytes ''File not found.'' @ [10]) (s\<lparr>tree := t\<rparr>))"

text \<open>
  \<open>grep\<close> walks over the pipe buffer; \<open>p\<close> is the position, \<open>left\<close> what remains of the 4096 bytes, \<open>line\<close> the
  start of the current line. While a line is tested and printed its line feed is a zero byte.
\<close>

definition grep_line :: "u8 list \<Rightarrow> nat \<Rightarrow> system \<Rightarrow> system option" where
  "grep_line pat line s =
     (let text = cstr (drop line (pipe_buffer s))
      in if k_strstr text pat \<noteq> None then kprints [text, [10]] s else Some s)"

fun grep_loop :: "nat \<Rightarrow> u8 list \<Rightarrow> nat \<Rightarrow> nat \<Rightarrow> system \<Rightarrow> system option" where
  "grep_loop 0 pat p line s = None"
| "grep_loop (Suc left) pat p line s =
     (let c = pipe_buffer s ! p in
      if c = 0 then grep_line pat line s
      else if c = 10
      then (case grep_line pat line (s\<lparr>pipe_buffer := (pipe_buffer s)[p := 0]\<rparr>) of
              None \<Rightarrow> None
            | Some s1 \<Rightarrow> grep_loop left pat (p + 1) (p + 1) (s1\<lparr>pipe_buffer := (pipe_buffer s1)[p := 10]\<rparr>))
      else grep_loop left pat (p + 1) line s)"

definition do_grep :: "u8 list \<Rightarrow> system \<Rightarrow> system option" where
  "do_grep arg s =
     (if arg = [] then kprint (bytes ''Usage: grep <pattern>'' @ [10]) s
      else if pipe_input_available s then grep_loop 4096 arg 0 0 s
      else kprint (bytes ''grep: Usage: <command> | grep <pattern> (File grep not impl)'' @ [10]) s)"

section \<open>Network\<close>

definition mac_texts :: "u8 list \<Rightarrow> u8 list list" where
  "mac_texts mac = concat (map (\<lambda>k. itoa (uint (mac ! k)) 16 # (if k < 5 then [bytes '':''] else [])) [0..<6])"

definition ip_texts :: "u32 \<Rightarrow> u8 list list" where
  "ip_texts ip = (if ip = 0 then [bytes ''0.0.0.0 (No IP assigned)'']
     else [octet 0 ip, bytes ''.'', octet 1 ip, bytes ''.'', octet 2 ip, bytes ''.'', octet 3 ip])"

definition do_ifconfig :: "system \<Rightarrow> system option" where
  "do_ifconfig s = kprints ([bytes ''eth0: Link encap:Ethernet  HWaddr ''] @ mac_texts (get_mac_address (network s))
     @ [[10] @ bytes ''      inet addr:''] @ ip_texts (my_ip (network s))
     @ [[10] @ bytes ''      UP BROADCAST RUNNING MULTICAST'' @ [10]]) s"

definition do_dhcp :: "(ipv6 \<Rightarrow> ipv6) \<Rightarrow> system \<Rightarrow> system option" where
  "do_dhcp poll s = do {
     s1 \<leftarrow> kprint (bytes ''Configuring network via DHCP... '') s;
     n \<leftarrow> dhcp_discover poll (network s1);
     kprint (bytes ''SENT.'' @ [10] @ bytes ''Use '' @ [39] @ bytes ''ifconfig'' @ [39] @ bytes '' to check status.'' @ [10]) (net_print n s1)}"

text \<open>One wait of \<open>ping\<close>: polls until the count runs out or Ctrl+C has been handled.\<close>

definition poll_once :: "(ipv6 \<Rightarrow> ipv6) \<Rightarrow> system \<Rightarrow> system option" where
  "poll_once poll s =
     (let s1 = net_call poll s in
      case ctrl_c_in s1 of
        None \<Rightarrow> Some s1
      | Some 0 \<Rightarrow> handle_signal 2 (s1\<lparr>ctrl_c_in := None\<rparr>)
      | Some (Suc k) \<Rightarrow> Some (s1\<lparr>ctrl_c_in := Some k\<rparr>))"

fun ping_wait :: "(ipv6 \<Rightarrow> ipv6) \<Rightarrow> nat \<Rightarrow> system \<Rightarrow> system option" where
  "ping_wait poll 0 s = Some s"
| "ping_wait poll (Suc j) s =
     (case poll_once poll s of
        None \<Rightarrow> None
      | Some s1 \<Rightarrow> if abort_requested s1 then Some s1 else ping_wait poll j s1)"

fun ping_loop :: "(ipv6 \<Rightarrow> ipv6) \<Rightarrow> nat \<Rightarrow> u32 \<Rightarrow> nat list \<Rightarrow> system \<Rightarrow> system option" where
  "ping_loop poll polls target [] s = Some s"
| "ping_loop poll polls target (i # later) s =
     (if abort_requested s then Some s
      else ping_wait poll polls (net_call (icmp_send_echo_request target 0x1234 (of_nat (i + 1))) s) \<bind> ping_loop poll polls target later)"

definition do_ping :: "(ipv6 \<Rightarrow> ipv6) \<Rightarrow> u8 list \<Rightarrow> system \<Rightarrow> system option" where
  "do_ping poll arg s =
     (if arg = [] then kprint (bytes ''Usage: ping <ip_address>'' @ [10]) s
      else do {
        target \<leftarrow> string_to_ip arg;
        s1 \<leftarrow> kprints [bytes ''Pinging '', arg, bytes '' with 32 bytes of data:'' @ [10]] s;
        s2 \<leftarrow> ping_loop poll 20000000 target [0..<4] s1;
        kprint (bytes ''Ping statistics: Transmitted packets.'' @ [10]) s2})"

end
