(* ===== verification/CommandLine.thy ===== *)
theory CommandLine
  imports Commands
begin

text \<open>
  From a typed key to an executed command: \<open>Shell::execute_command\<close> with its redirections and pipes, and
  \<open>Shell::handle_input\<close> with history, completion and editing. Arrays are checked at their size: a word
  or an argument that does not fit is a fault.
\<close>

section \<open>Executing a command\<close>

text \<open>The wait of \<open>reboot\<close> for the keyboard controller.\<close>

function reboot_wait :: "ports \<Rightarrow> ports option" where
  "reboot_wait io =
     (if inputs io = [] then None
      else let (good, io1) = inb 0x64 io in if good AND 0x02 \<noteq> 0 then reboot_wait io1 else Some io1)"
  by pat_completeness auto
termination
  by (relation "measure (\<lambda>io. length (inputs io))") (auto simp: inb_def)

declare reboot_wait.simps [simp del]

definition do_reboot :: "system \<Rightarrow> system option" where
  "do_reboot s = do {
     s1 \<leftarrow> kprint (bytes ''Rebooting...'' @ [10]) s;
     io \<leftarrow> reboot_wait (machine_ports s1);
     Some (s1\<lparr>machine_ports := outb 0x64 0xFE io\<rparr>)}"

definition open_editor :: "u8 list option \<Rightarrow> system \<Rightarrow> system option" where
  "open_editor f s = nano_run f (s\<lparr>app_running := True\<rparr>)"

definition do_nano :: "u8 list \<Rightarrow> system \<Rightarrow> system option" where
  "do_nano arg s = do {
     path \<leftarrow> abs_path (current_path s) arg;
     open_editor (if arg = [] then None else Some path) s}"

definition do_run :: "u8 list \<Rightarrow> system \<Rightarrow> system option" where
  "do_run arg s =
     (if arg = bytes ''nano'' then open_editor None s
      else kprints [bytes ''Executable '' @ [39], arg, [39] @ bytes '' not found in /bin'' @ [10]] s)"

definition do_fdisk :: "system \<Rightarrow> system" where
  "do_fdisk s = s\<lparr>display := list_partitions (disk (tree s)) (display s)\<rparr>"

definition other_command :: "u8 list \<Rightarrow> system \<Rightarrow> system option" where
  "other_command command s =
     (if command = bytes ''clear'' then Some (clear_screen s)
      else if command = bytes ''reboot'' then do_reboot s
      else if command = [] then Some s
      else kprints [bytes ''Unknown command: '', command, [10]] s)"

definition run_command :: "(ipv6 \<Rightarrow> ipv6) \<Rightarrow> u8 list \<Rightarrow> u8 list \<Rightarrow> u8 list \<Rightarrow> system \<Rightarrow> system option" where
  "run_command poll command cmd arg s =
     (if cmd = bytes ''help'' then kprints help_lines s
      else if cmd = bytes ''echo'' then kprints [arg, [10]] s
      else if cmd = bytes ''whoami'' then kprints [current_user s, [10]] s
      else if cmd = bytes ''uname'' then do_uname arg s
      else if cmd = bytes ''lspci'' then do_lspci s
      else if cmd = bytes ''top'' then do_top s
      else if cmd = bytes ''cd'' then do_cd arg s
      else if cmd = bytes ''su'' then do_su arg s
      else if cmd = bytes ''fdisk'' then Some (do_fdisk s)
      else if cmd = bytes ''mkdir'' then do_mkdir arg s
      else if cmd = bytes ''run'' then do_run arg s
      else if cmd = bytes ''ls'' then do_ls arg s
      else if cmd = bytes ''touch'' then do_touch arg s
      else if cmd = bytes ''cat'' then do_cat arg s
      else if cmd = bytes ''grep'' then do_grep arg s
      else if cmd = bytes ''rm'' then do_rm arg s
      else if cmd = bytes ''ifconfig'' then do_ifconfig s
      else if cmd = bytes ''nano'' then do_nano arg s
      else if cmd = bytes ''ps'' then do_ps s
      else if cmd = bytes ''tree'' then do_tree s
      else if cmd = bytes ''dhcp'' then do_dhcp poll s
      else if cmd = bytes ''ping'' then do_ping poll arg s
      else if cmd = bytes ''about'' then Some (do_about s)
      else if cmd = bytes ''clock'' then do_clock s
      else other_command command s)"

text \<open>What is left of the command, and the target of a redirection with its mode.\<close>

definition split_redirect :: "u8 list \<Rightarrow> u8 list \<times> (bool \<times> u8 list) option" where
  "split_redirect cmd =
     (case k_strstr cmd (bytes ''>>'') of
        Some i \<Rightarrow> (take i cmd, Some (True, drop (i + 2) cmd))
      | None \<Rightarrow> (case cut_at 0x3E cmd of (l, r) \<Rightarrow> (l, map_option (Pair False) r)))"

definition truncate :: "system \<Rightarrow> system option" where
  "truncate s = do {
     path \<leftarrow> abs_path (current_path s) (redir_file s);
     case find_node path s of
       (s1, None) \<Rightarrow> Some s1
     | (s1, Some _) \<Rightarrow> Some (s1\<lparr>tree := fst (delete_file (tree s1) (redir_file s1 @ [0]))\<rparr>)}"

definition start_redirect :: "(bool \<times> u8 list) option \<Rightarrow> system \<Rightarrow> system option" where
  "start_redirect redir s =
     (case redir of
        None \<Rightarrow> Some s
      | Some (append_mode, rest) \<Rightarrow>
          let f = skip_spaces rest; s1 = s\<lparr>redir_out := True, redir_file := f\<rparr> in
          if f = [] then Some s
          else if length f \<ge> 128 then None
          else if append_mode then Some s1 else truncate s1)"

definition split_args :: "u8 list \<Rightarrow> (u8 list \<times> u8 list) option" where
  "split_args command =
     (case cut_at 0x20 command of
        (w, None) \<Rightarrow> if length w \<ge> 128 then None else Some (w, [])
      | (w, Some a) \<Rightarrow> if length w > 128 \<or> length a \<ge> 128 then None else Some (w, a))"

definition plain_command :: "(ipv6 \<Rightarrow> ipv6) \<Rightarrow> u8 list \<Rightarrow> system \<Rightarrow> system option" where
  "plain_command poll cmd s = do {
     let (command, redir) = split_redirect cmd;
     s1 \<leftarrow> start_redirect redir s;
     (w, a) \<leftarrow> split_args command;
     s2 \<leftarrow> run_command poll command w a s1;
     Some (s2\<lparr>redir_out := False\<rparr>)}"

lemma cut_at_some:
  assumes "cut_at c t = (l, Some r)"
  shows "t = l @ c # r"
proof -
  obtain x where x: "dropWhile (\<lambda>x. x \<noteq> c) t = x # r" and l: "l = takeWhile (\<lambda>x. x \<noteq> c) t"
    using assms by (auto simp: cut_at_def split: list.splits)
  then have "x = c" using hd_dropWhile [of "\<lambda>x. x \<noteq> c" t] by simp
  then show ?thesis using x l by (metis takeWhile_dropWhile_id)
qed

lemma length_skip_spaces: "length (skip_spaces t) \<le> length t"
  by (simp add: skip_spaces_def length_dropWhile_le)

definition pipe_from :: "system \<Rightarrow> system" where
  "pipe_from s = s\<lparr>abort_requested := False, pipe_active := True, pipe_cursor := 0, pipe_buffer := replicate 4096 0\<rparr>"

definition pipe_into :: "system \<Rightarrow> system" where
  "pipe_into s = s\<lparr>pipe_active := False, pipe_input_available := True\<rparr>"

function execute_command :: "(ipv6 \<Rightarrow> ipv6) \<Rightarrow> u8 list \<Rightarrow> system \<Rightarrow> system option" where
  "execute_command poll cmd s =
     (if length cmd \<ge> 256 then None
      else case cut_at 0x7C cmd of
             (left_cmd, None) \<Rightarrow> plain_command poll cmd (s\<lparr>abort_requested := False\<rparr>)
           | (left_cmd, Some right_cmd) \<Rightarrow>
               (case execute_command poll left_cmd (pipe_from s) of
                  None \<Rightarrow> None
                | Some s1 \<Rightarrow> map_option (\<lambda>s2. s2\<lparr>pipe_input_available := False\<rparr>)
                    (execute_command poll (skip_spaces right_cmd) (pipe_into s1))))"
  by pat_completeness auto
termination
proof (relation "measure (\<lambda>(poll, cmd, s). length cmd)", goal_cases)
  case (2 poll cmd s left_cmd rest right_cmd)
  then show ?case using cut_at_some [of "0x7C" cmd left_cmd right_cmd] by simp
next
  case (3 poll cmd s left_cmd rest right_cmd s1)
  then show ?case using cut_at_some [of "0x7C" cmd left_cmd right_cmd] length_skip_spaces [of right_cmd] by simp
qed simp

declare execute_command.simps [simp del]

section \<open>The command line\<close>

definition echo_char :: "u8 \<Rightarrow> system \<Rightarrow> system" where
  "echo_char c s = s\<lparr>display := put_char c (display s)\<rparr>"

definition store_char :: "u8 \<Rightarrow> system \<Rightarrow> system" where
  "store_char c s =
     (if buffer_index s < 255
      then echo_char c (s\<lparr>command_buffer := (command_buffer s)[buffer_index s := c], buffer_index := buffer_index s + 1\<rparr>)
      else s)"

definition rub_out :: "system \<Rightarrow> system" where
  "rub_out s = say [8, 0x20, 8] (s\<lparr>buffer_index := buffer_index s - 1\<rparr>)"

text \<open>The history holds ten texts; the cursor moves before and after a text is shown.\<close>

definition older :: "system \<Rightarrow> nat" where
  "older s = (if history_cursor s > 0 then history_cursor s - 1 else if history_count s < 10 then history_count s - 1 else 9)"

definition up_arrow :: "system \<Rightarrow> system" where
  "up_arrow s =
     (if history_count s = 0 then s
      else let s1 = (rub_out ^^ buffer_index s) s; k = older s1; text = history s1 ! k
           in say text (s1\<lparr>command_buffer := put_text 0 (text @ [0]) (command_buffer s1), buffer_index := length text,
                history_cursor := k - 1\<rparr>))"

definition remember :: "u8 list \<Rightarrow> system \<Rightarrow> system" where
  "remember text s =
     (if history_count s < 10
      then s\<lparr>history := (history s)[history_count s := text], history_count := history_count s + 1, history_cursor := history_count s\<rparr>
      else s\<lparr>history := tl (history s) @ [text], history_cursor := history_count s - 1\<rparr>)"

definition enter :: "(ipv6 \<Rightarrow> ipv6) \<Rightarrow> system \<Rightarrow> system option" where
  "enter poll s =
     (let s1 = echo_char 10 (s\<lparr>command_buffer := (command_buffer s)[buffer_index s := 0]\<rparr>);
          text = cstr (command_buffer s1);
          s2 = (if buffer_index s1 > 0 then remember text s1 else s1)
      in map_option (\<lambda>s3. prompt (s3\<lparr>buffer_index := 0\<rparr>)) (execute_command poll text s2))"

text \<open>Completion: the word before the cursor, the directory entries that begin with it, and the rest of the
  last such entry if it is the only one. A matching name must fit into 64 bytes.\<close>

definition partial_word :: "system \<Rightarrow> u8 list" where
  "partial_word s = rev (takeWhile (\<lambda>c. c \<noteq> 0x20) (rev (take (buffer_index s) (command_buffer s))))"

partial_function (option) match_loop :: "system \<Rightarrow> nat \<Rightarrow> u8 list \<Rightarrow> u32 \<Rightarrow> nat \<Rightarrow> u8 list \<Rightarrow> (nat \<times> u8 list) option" where
  "match_loop s d word i count found =
     (case dir_entry (tree s) d i of
        None \<Rightarrow> Some (count, found)
      | Some (nm, ino) \<Rightarrow>
          if strncmp (cstr nm @ [0]) (word @ [0]) (length word) = Some 0
          then if length (cstr nm) \<ge> 64 then None else match_loop s d word (i + 1) (count + 1) (cstr nm)
          else match_loop s d word (i + 1) count found)"

definition child_path :: "u8 list \<Rightarrow> u8 list \<Rightarrow> u8 list" where
  "child_path path nm = (if length path = 1 then bytes ''/'' @ nm else path @ bytes ''/'' @ nm)"

definition complete :: "u8 list \<Rightarrow> u8 list \<Rightarrow> system \<Rightarrow> system" where
  "complete word found s =
     (let s1 = fold store_char (drop (length word) found) s
      in case find_node (child_path (current_path s1) found) s1 of
           (s2, child) \<Rightarrow> if is_dir child s2 then store_char 0x2F s2 else s2)"

definition autocomplete :: "system \<Rightarrow> system option" where
  "autocomplete s =
     (let word = partial_word s in
      if word = [] \<or> length word \<ge> 64 then Some s
      else case find_node (current_path s) s of
             (s1, None) \<Rightarrow> Some s1
           | (s1, Some d) \<Rightarrow>
               (case match_loop s1 d word 0 0 [] of
                  None \<Rightarrow> None
                | Some (count, found) \<Rightarrow> Some (if count = 1 then complete word found s1 else s1)))"

definition app_input :: "bool \<Rightarrow> u8 \<Rightarrow> system \<Rightarrow> system option" where
  "app_input ctrl c s =
     map_option (\<lambda>s1. if running (editor s1) then s1 else prompt (s1\<lparr>app_running := False\<rparr>)) (nano_handle_input ctrl c s)"

definition handle_input :: "(ipv6 \<Rightarrow> ipv6) \<Rightarrow> bool \<Rightarrow> u8 \<Rightarrow> system \<Rightarrow> system option" where
  "handle_input poll ctrl c s =
     (if app_running s then app_input ctrl c s
      else if ctrl \<and> (c = 0x6C \<or> c = 0x4C) then Some (prompt (clear_screen s))
      else if c = 0x11 then Some (up_arrow s)
      else let s1 = (if c \<noteq> 0x12 then s\<lparr>history_cursor := (if history_count s > 0 then history_count s - 1 else 0)\<rparr> else s) in
        if c = 9 then autocomplete s1
        else if c = 10 then enter poll s1
        else if c = 8 then Some (if buffer_index s1 > 0 then rub_out s1 else s1)
        else Some (store_char c s1))"

end
