(* ===== verification/ShellFacts.thy ===== *)
theory ShellFacts
  imports CommandLine "HOL-Library.Sublist"
begin

text \<open>
  What the shell computes: addresses read back, substring search and \<open>grep\<close>, the command line as a text
  under editing, redirection into a file, and the history.
\<close>

section \<open>Addresses\<close>

lemma digit_char_is_digit: "d < 10 \<Longrightarrow> is_digit (digit_char d) \<and> digit_char d \<noteq> 0x2E"
proof -
  assume "d < 10"
  then have "unat (digit_char d) = 48 + d" by (rule digit_char_decimal)
  moreover have "digit_char d \<noteq> 0x2E"
  proof
    assume "digit_char d = 0x2E"
    then have "unat (digit_char d) = 46" by simp
    then show False using calculation by simp
  qed
  ultimately show ?thesis using \<open>d < 10\<close> by (simp add: is_digit_def word_le_nat_alt)
qed

lemma digit_char_value: "d < 10 \<Longrightarrow> ucast (digit_char d) - 0x30 = (of_nat d :: u32)"
proof -
  assume "d < 10"
  then have "of_nat (unat (digit_char d)) = (of_nat (48 + d) :: u32)" by (metis digit_char_decimal)
  then have "ucast (digit_char d) = (of_nat (48 + d) :: u32)" by simp
  then show ?thesis by simp
qed

lemma ip_loop_digit:
  "d < 10 \<Longrightarrow> ip_loop (digit_char d # rest) ip o1 k = ip_loop rest ip (o1 * 10 + of_nat d) k"
  using digit_char_is_digit [of d] digit_char_value [of d] by simp

lemma ip_loop_number: "ip_loop (numeral_of 10 n @ rest) ip 0 k = ip_loop rest ip (of_nat n) k"
proof (induction n arbitrary: rest rule: less_induct)
  case (less n)
  show ?case
  proof (cases "n < 10")
    case True
    then show ?thesis using ip_loop_digit [of n rest ip 0 k] by (simp add: numeral_of.simps [of _ n])
  next
    case False
    have "of_nat (n div 10) * 10 + of_nat (n mod 10) = (of_nat (n div 10 * 10 + n mod 10) :: u32)"
      by (simp only: of_nat_add of_nat_mult of_nat_numeral)
    then have sum: "of_nat (n div 10) * 10 + of_nat (n mod 10) = (of_nat n :: u32)" by simp
    have "ip_loop (numeral_of 10 n @ rest) ip 0 k =
        ip_loop (numeral_of 10 (n div 10) @ digit_char (n mod 10) # rest) ip 0 k"
      using False by (simp add: numeral_of.simps [of _ n])
    also have "\<dots> = ip_loop (digit_char (n mod 10) # rest) ip (of_nat (n div 10)) k"
      using False by (intro less) simp
    also have "\<dots> = ip_loop rest ip (of_nat (n div 10) * 10 + of_nat (n mod 10)) k"
      by (rule ip_loop_digit) simp
    finally show ?thesis unfolding sum .
  qed
qed

lemma octet_number: "octet n ip = numeral_of 10 (unat (drop_bit (8 * n) ip AND 0xFF))"
  by (simp add: octet_def itoa_eq_digits)

lemma octets_join:
  "(a AND 0xFF) OR push_bit 8 (drop_bit 8 a AND 0xFF) OR push_bit 16 (drop_bit 16 a AND 0xFF)
     OR push_bit 24 (drop_bit 24 a AND 0xFF) = (a :: u32)"
proof -
  have m: "x AND 0xFF = take_bit 8 x" for x :: u32 by (simp add: take_bit_eq_mask mask_eq_exp_minus_1)
  show ?thesis unfolding m
  proof (rule bit_word_eqI)
    fix n assume "n < LENGTH(32)"
    then consider "n < 8" | "8 \<le> n" "n < 16" | "16 \<le> n" "n < 24" | "24 \<le> n" "n < 32" by fastforce
    then show "bit (take_bit 8 a OR push_bit 8 (take_bit 8 (drop_bit 8 a)) OR push_bit 16 (take_bit 8 (drop_bit 16 a))
        OR push_bit 24 (take_bit 8 (drop_bit 24 a))) n = bit a n"
      by cases (auto simp: bit_simps)
  qed
qed


section \<open>Substring search and \<open>grep\<close>\<close>

lemma match_from_prefix: "match_from h n \<longleftrightarrow> prefix n h"
  by (induction h n rule: match_from.induct) auto

lemma k_strstr_finds: "k_strstr h n \<noteq> None \<longleftrightarrow> sublist n h"
  by (induction h) (auto simp: match_from_prefix sublist_Cons_right)

text \<open>The lines of a text, and what a filter by a pattern prints of it.\<close>

fun lines_of :: "u8 list \<Rightarrow> u8 list list" where
  "lines_of [] = [[]]"
| "lines_of (c # t) = (if c = 10 then [] # lines_of t else (c # hd (lines_of t)) # tl (lines_of t))"

definition matching_lines :: "u8 list \<Rightarrow> u8 list \<Rightarrow> u8 list" where
  "matching_lines pat t = concat (map (\<lambda>l. l @ [10]) (filter (sublist pat) (lines_of t)))"

text \<open>A state in which \<open>kprint\<close> writes on the console.\<close>

definition to_console :: "system \<Rightarrow> bool" where
  "to_console s \<longleftrightarrow> \<not> pipe_active s \<and> \<not> redir_out s"

lemma lines_of_line: "10 \<notin> set l \<Longrightarrow> lines_of l = [l]"
  by (induction l) auto

lemma lines_of_newline: "10 \<notin> set l \<Longrightarrow> lines_of (l @ 10 # t) = l # lines_of t"
  by (induction l) auto

lemma say_say: "0 \<notin> set a \<Longrightarrow> say b (say a s) = say (a @ b) s"
proof -
  assume "0 \<notin> set a"
  then have "cstr (a @ b) = a @ cstr b" "cstr a = a"
    by (auto simp: cstr_def takeWhile_eq_all_conv intro!: takeWhile_append2)
  then show ?thesis by (simp add: say_def vga_write_string_def)
qed

lemma say_nil [simp]: "say [] (s :: system) = s"
  by (simp add: say_def vga_write_string_def)

lemma say_fields [simp]:
  "pipe_active (say t s) = pipe_active s" "redir_out (say t s) = redir_out s" "pipe_buffer (say t s) = pipe_buffer s"
  "pipe_input_available (say t s) = pipe_input_available s" "to_console (say t s) = to_console s"
  by (simp_all add: say_def to_console_def)

lemma to_console_kprint: "to_console s \<Longrightarrow> kprint t s = Some (say t s)"
  by (simp add: to_console_def kprint_def)

lemma to_console_kprints:
  "to_console s \<Longrightarrow> list_all (\<lambda>t. 0 \<notin> set t) ts \<Longrightarrow> kprints ts s = Some (say (concat ts) s)"
  by (induction ts arbitrary: s) (auto simp: to_console_kprint say_say)

lemma grep_line_prints:
  assumes "to_console s" and "pipe_buffer s = bs @ l @ 0 # tail" and "0 \<notin> set l" and "length bs = line"
  shows "grep_line pat line s = Some (say (if sublist pat l then l @ [10] else []) s)"
  using assms to_console_kprints [of s "[l, [10]]"] k_strstr_finds [of l pat]
  by (auto simp: grep_line_def simp del: kprints.simps)

lemma grep_loop_prints:
  assumes "to_console s" and "pipe_buffer s = bs @ l @ t @ 0 # tail" and "0 \<notin> set (l @ t)" and "10 \<notin> set l"
    and "length t < left"
  shows "grep_loop left pat (length (bs @ l)) (length bs) s = Some (say (matching_lines pat (l @ t)) s)"
  using assms
proof (induction t arbitrary: s bs l left)
  case Nil
  then obtain k where k: "left = Suc k" by (cases left) auto
  have "pipe_buffer s ! length (bs @ l) = 0" using Nil.prems by (simp add: nth_append)
  moreover have "grep_line pat (length bs) s = Some (say (matching_lines pat l) s)"
    using Nil.prems by (subst grep_line_prints [of s bs l tail]) (simp_all add: matching_lines_def lines_of_line)
  ultimately show ?case using k by simp
next
  case (Cons c t)
  then obtain k where k: "left = Suc k" by (cases left) auto
  let ?p = "length (bs @ l)"
  have c: "pipe_buffer s ! ?p = c" "c \<noteq> 0" using Cons.prems by (simp_all add: nth_append)
  show ?case
  proof (cases "c = 10")
    case False
    have "grep_loop k pat (length (bs @ (l @ [c]))) (length bs) s = Some (say (matching_lines pat ((l @ [c]) @ t)) s)"
      using Cons.prems False k c by (intro Cons.IH) auto
    then show ?thesis using False k c by simp
  next
    case True
    let ?out = "if sublist pat l then l @ [10] else []" and ?b = "bs @ l @ 10 # t @ 0 # tail"
    have b: "pipe_buffer s = ?b" using Cons.prems(2) True by simp
    have line: "grep_line pat (length bs) (s\<lparr>pipe_buffer := ?b[?p := 0]\<rparr>) = Some (say ?out (s\<lparr>pipe_buffer := ?b[?p := 0]\<rparr>))"
      using Cons.prems
      by (intro grep_line_prints [of _ bs l "t @ 0 # tail"]) (simp_all add: to_console_def list_update_append)
    have e: "?b[?p := 0, ?p := 10] = pipe_buffer s" using b by (simp add: list_update_append)
    have restored: "(say ?out (s\<lparr>pipe_buffer := ?b[?p := 0]\<rparr>))\<lparr>pipe_buffer := ?b[?p := 0, ?p := 10]\<rparr> = say ?out s"
      unfolding e by (simp add: say_def)
    have "grep_loop k pat (length ((bs @ l @ [10]) @ [])) (length (bs @ l @ [10])) (say ?out s) =
        Some (say (matching_lines pat ([] @ t)) (say ?out s))"
      using Cons.prems True k by (intro Cons.IH) auto
    then have "grep_loop left pat ?p (length bs) s = Some (say (matching_lines pat t) (say ?out s))"
      using k c True line restored b by simp
    also have "say (matching_lines pat t) (say ?out s) = say (matching_lines pat (l @ 10 # t)) s"
      using Cons.prems by (simp add: matching_lines_def lines_of_newline say_say)
    finally show ?thesis using True by simp
  qed
qed

section \<open>Running a command\<close>

lemma bytes_eq [simp]: "bytes s = bytes t \<longleftrightarrow> s = t"
proof -
  have "c = d" if "(of_char c :: u8) = of_char d" for c d
  proof -
    have "of_nat (of_char c) = (of_nat (of_char d) :: u8)" using that by (simp add: of_nat_of_char)
    then have "unat (of_nat (of_char c) :: u8) = unat (of_nat (of_char d) :: u8)" by (rule arg_cong)
    then show "c = d" by (simp add: unsigned_of_nat take_bit_eq_mod)
  qed
  then have "inj (of_char :: char \<Rightarrow> u8)" by (rule injI)
  then show ?thesis by (simp add: bytes_def inj_map_eq_map)
qed

lemma cut_at_first: "x \<notin> set a \<Longrightarrow> cut_at x (a @ x # b) = (a, Some b)"
  by (auto simp: cut_at_def takeWhile_append takeWhile_eq_all_conv dropWhile_append)

lemma cut_at_absent: "x \<notin> set a \<Longrightarrow> cut_at x a = (a, None)"
proof -
  assume "x \<notin> set a"
  then have d: "dropWhile (\<lambda>y. y \<noteq> x) a = []" "takeWhile (\<lambda>y. y \<noteq> x) a = a"
    by (auto simp: takeWhile_eq_all_conv)
  then show ?thesis unfolding cut_at_def d by simp
qed

lemma no_redirect: "0x3E \<notin> set cmd \<Longrightarrow> split_redirect cmd = (cmd, None)"
proof -
  assume no: "0x3E \<notin> set cmd"
  have "bytes ''>>'' = [0x3E, 0x3E]" by (simp add: bytes_def)
  then have "\<not> sublist (bytes ''>>'') cmd" using no by (auto dest!: set_mono_sublist)
  then have "k_strstr cmd (bytes ''>>'') = None" using k_strstr_finds by blast
  then show ?thesis using cut_at_absent [OF no] by (simp add: split_redirect_def)
qed

text \<open>A command without pipe and redirection, made of a word and an argument.\<close>

lemma execute_word:
  assumes "length (w @ 0x20 # a) < 256" and "0x7C \<notin> set w \<union> set a" and "0x3E \<notin> set w \<union> set a"
    and "0x20 \<notin> set w" and "length w \<le> 128" and "length a < 128"
  shows "execute_command poll (w @ 0x20 # a) s =
    map_option (\<lambda>t. t\<lparr>redir_out := False\<rparr>) (run_command poll (w @ 0x20 # a) w a (s\<lparr>abort_requested := False\<rparr>))"
proof -
  have "cut_at 0x7C (w @ 0x20 # a) = (w @ 0x20 # a, None)" using assms(2) by (intro cut_at_absent) auto
  moreover have "split_redirect (w @ 0x20 # a) = (w @ 0x20 # a, None)" using assms(3) by (intro no_redirect) auto
  ultimately show ?thesis using assms
    by (subst execute_command.simps)
      (simp add: plain_command_def start_redirect_def split_args_def cut_at_first map_conv_bind_option comp_def)
qed

lemma execute_ends_redirect: "execute_command poll cmd s = Some t \<Longrightarrow> \<not> redir_out t"
proof (induction poll cmd s arbitrary: t rule: execute_command.induct)
  case (1 poll cmd s)
  have plain: "plain_command poll cmd s' = Some t \<Longrightarrow> \<not> redir_out t" for s'
    by (auto simp: plain_command_def bind_eq_Some_conv split: prod.splits)
  obtain l r where cut: "cut_at 0x7C cmd = (l, r)" by force
  show ?case
  proof (cases r)
    case None
    then show ?thesis using 1(3) cut plain by (simp add: execute_command.simps [of poll cmd s] split: if_splits)
  next
    case (Some rc)
    then obtain s1 t1 where "execute_command poll l (pipe_from s) = Some s1" "t = t1\<lparr>pipe_input_available := False\<rparr>"
      "execute_command poll (skip_spaces rc) (pipe_into s1) = Some t1" "\<not> 256 \<le> length cmd"
      using 1(3) cut by (auto simp: execute_command.simps [of poll cmd s] split: if_splits option.splits)
    moreover have "\<not> redir_out t1" using calculation cut Some by (intro 1(2)) auto
    ultimately show ?thesis by simp
  qed
qed

lemma grep_word: "bytes ''grep '' @ pat = bytes ''grep'' @ 0x20 # pat"
  by (simp add: bytes_def)

lemma grep_word_chars: "set (bytes ''grep'') = {0x67, 0x72, 0x65, 0x70}"
  by (simp add: bytes_def)


text \<open>What \<open>echo\<close> leaves in the pipe buffer.\<close>

lemma pipe_from_fields [simp]:
  "pipe_active (pipe_from s)" "pipe_cursor (pipe_from s) = 0" "pipe_buffer (pipe_from s) = replicate 4096 0"
  "(pipe_from s)\<lparr>abort_requested := False\<rparr> = pipe_from s"
  by (simp_all add: pipe_from_def)

lemma echo_piped:
  assumes "length a < 128" and "0x7C \<notin> set a" and "0x3E \<notin> set a"
  shows "execute_command poll (bytes ''echo'' @ 0x20 # a) (pipe_from s) =
    Some ((pipe_from s)\<lparr>pipe_buffer := a @ 10 # replicate (4095 - length a) 0, pipe_cursor := Suc (length a), redir_out := False\<rparr>)"
proof -
  have "set (bytes ''echo'') = {0x65, 0x63, 0x68, 0x6F}" by (auto simp: bytes_def)
  moreover have "length (bytes ''echo'') = 4" by simp
  ultimately have "execute_command poll (bytes ''echo'' @ 0x20 # a) (pipe_from s) =
      map_option (\<lambda>t. t\<lparr>redir_out := False\<rparr>) (kprints [a, [10]] (pipe_from s))"
    using assms by (subst execute_word) (simp_all add: run_command_def)
  moreover have "put_text (length a) [10, 0] (put_text 0 (a @ [0]) (replicate 4096 0)) = a @ 10 # replicate (4095 - length a) 0"
  proof -
    have "replicate (4095 - length a) (0 :: u8) = 0 # replicate (4094 - length a) 0"
      using assms(1) by (cases "4095 - length a") (auto simp: Suc_diff_le)
    then show ?thesis using assms(1) by (simp add: put_text_def)
  qed
  ultimately show ?thesis using assms(1) by (simp add: kprint_def pipe_print_def)
qed

definition system0 :: system where
  "system0 = desktop.extend \<lparr>display = vga_initialize vga_boot, tree = fs_boot0, editor = nano0\<rparr>
     \<lparr>command_buffer = replicate 256 0, buffer_index = 0, app_running = False, current_user = bytes ''mesa'', is_admin = False,
      current_path = bytes ''/'', history = replicate 10 [], history_count = 0, history_cursor = 0, redir_out = False,
      redir_file = [], pipe_active = False, pipe_buffer = replicate 4096 0, pipe_cursor = 0, pipe_input_available = False,
      abort_requested = False, network = machine 1, bus = (\<lambda>a. 0xFFFFFFFF), pci_devices = [],
      scheduler = \<lparr>procs = (\<lambda>p. \<lparr>pid = 0, name = bytes ''kernel'', pstate = RUNNING, stack_ptr = 0, nxt = 0\<rparr>), stacks = (\<lambda>p. zero_registers), process_list = 0, current_process = 0, next_pid = 0\<rparr>,
      machine_ports = \<lparr>inputs = [], trace = []\<rparr>, frames = [], ctrl_c_in = None\<rparr>"


section \<open>The command line is a text under editing\<close>

definition line_edit :: "u8 \<Rightarrow> u8 list \<Rightarrow> u8 list" where
  "line_edit c t = (if c = 8 then butlast t else if length t < 255 then t @ [c] else t)"

definition line_key :: "u8 \<Rightarrow> bool" where
  "line_key c \<longleftrightarrow> c \<noteq> 0 \<and> c \<noteq> 9 \<and> c \<noteq> 10 \<and> c \<noteq> 0x11"

definition line_holds :: "u8 list \<Rightarrow> system \<Rightarrow> bool" where
  "line_holds t s \<longleftrightarrow> length (command_buffer s) = 256 \<and> buffer_index s = length t \<and> length t \<le> 255
     \<and> take (length t) (command_buffer s) = t \<and> 0 \<notin> set t \<and> \<not> app_running s"

text \<open>Two states that differ in the console and the command line only.\<close>

definition same_but_line :: "system \<Rightarrow> system \<Rightarrow> bool" where
  "same_but_line s s1 \<longleftrightarrow> (\<exists>d b i h. s1 = s\<lparr>display := d, command_buffer := b, buffer_index := i, history_cursor := h\<rparr>)"

lemma same_but_lineI:
  "s\<lparr>display := display s1, command_buffer := command_buffer s1, buffer_index := buffer_index s1,
     history_cursor := history_cursor s1\<rparr> = s1 \<Longrightarrow> same_but_line s s1"
  unfolding same_but_line_def by (metis)

lemma same_but_line_trans: "same_but_line s s1 \<Longrightarrow> same_but_line s1 s2 \<Longrightarrow> same_but_line s s2"
  by (rule same_but_lineI) (auto simp: same_but_line_def)

fun type_keys :: "(ipv6 \<Rightarrow> ipv6) \<Rightarrow> u8 list \<Rightarrow> system \<Rightarrow> system option" where
  "type_keys poll [] s = Some s"
| "type_keys poll (c # t) s = handle_input poll False c s \<bind> type_keys poll t"

lemma type_keys_append: "type_keys poll (a @ b) s = type_keys poll a s \<bind> type_keys poll b"
  by (induction a arbitrary: s) (auto split: bind_splits)

lemma one_key: "x \<bind> type_keys poll [] = x"
  by (cases x) simp_all

lemma take_snoc_update: "n < length xs \<Longrightarrow> take n xs = t \<Longrightarrow> take (Suc n) (xs[n := c]) = t @ [c]"
  by (simp add: take_Suc_conv_app_nth)

lemma line_key_edits:
  assumes "line_holds t s" and "line_key c"
  shows "\<exists>s1. handle_input poll False c s = Some s1 \<and> line_holds (line_edit c t) s1 \<and> same_but_line s s1"
proof -
  let ?s = "if c \<noteq> 0x12 then s\<lparr>history_cursor := (if history_count s > 0 then history_count s - 1 else 0)\<rparr> else s"
  have h: "handle_input poll False c s = Some (if c = 8 then (if buffer_index ?s > 0 then rub_out ?s else ?s) else store_char c ?s)"
    using assms by (auto simp: handle_input_def line_holds_def line_key_def)
  show ?thesis
  proof (cases "c = 8")
    case True
    have "take (length t - 1) (command_buffer s) = butlast t"
      using assms(1) unfolding line_holds_def by (metis butlast_conv_take diff_le_self min.absorb1 take_take)
    then show ?thesis using assms True unfolding h
      by (auto simp: line_holds_def line_edit_def rub_out_def say_def intro!: same_but_lineI dest: in_set_butlastD)
  next
    case False
    then show ?thesis using assms unfolding h
      by (auto simp: line_holds_def line_edit_def line_key_def store_char_def echo_char_def take_snoc_update intro!: same_but_lineI)
  qed
qed

lemma line_keys_edit:
  assumes "line_holds t s" and "list_all line_key typed"
  shows "\<exists>s1. type_keys poll typed s = Some s1 \<and> line_holds (fold line_edit typed t) s1 \<and> same_but_line s s1"
  using assms
proof (induction typed arbitrary: t s)
  case Nil
  then show ?case by (auto intro: same_but_lineI)
next
  case (Cons c typed)
  obtain s1 where s1: "handle_input poll False c s = Some s1" "line_holds (line_edit c t) s1" "same_but_line s s1"
    using line_key_edits [of t s c poll] Cons.prems by auto
  obtain s2 where s2: "type_keys poll typed s1 = Some s2" "line_holds (fold line_edit typed (line_edit c t)) s2" "same_but_line s1 s2"
    using Cons.IH [OF s1(2)] Cons.prems by auto
  have "same_but_line s s2"
    using s1(3) s2(3) by (rule same_but_line_trans)
  then show ?case using s1 s2 by auto
qed

text \<open>The command line is a text: from an empty line, any sequence of keys other than tab, Enter and the
  up arrow, followed by Enter, executes exactly the text that appending the characters (up to 255) and
  removing the last one on backspace builds. The state the command starts in differs from the one before
  only in the console, the line and the history, whose newest entry is this text if it is not empty;
  afterwards the line is empty again and the prompt is shown.\<close>

lemma typed_line_executes:
  assumes "line_holds [] s" and "list_all line_key typed" and "length (history s) = 10" and "history_count s \<le> 10"
  defines "text \<equiv> fold line_edit typed []"
  shows "\<exists>d b i h n k. cstr b = text \<and> (text \<noteq> [] \<longrightarrow> h ! (n - 1) = text) \<and>
    type_keys poll (typed @ [10]) s = map_option (\<lambda>t. prompt (t\<lparr>buffer_index := 0\<rparr>))
      (execute_command poll text (s\<lparr>display := d, command_buffer := b, buffer_index := i, history := h,
         history_count := n, history_cursor := k\<rparr>))"
proof -
  obtain s1 where s1: "type_keys poll typed s = Some s1" "line_holds text s1" "same_but_line s s1"
    using line_keys_edit [OF assms(1,2)] unfolding text_def by blast
  then obtain d b i k where s1': "s1 = s\<lparr>display := d, command_buffer := b, buffer_index := i, history_cursor := k\<rparr>"
    by (auto simp: same_but_line_def)
  have l: "length b = 256" "i = length text" "length text \<le> 255" "take (length text) b = text" "0 \<notin> set text" "\<not> app_running s"
    using s1(2) by (simp_all add: line_holds_def s1')
  have "b[i := 0] = take i b @ 0 # drop (i + 1) b" using l by (simp add: upd_conv_take_nth_drop)
  then have cs: "cstr (b[i := 0]) = text" using l by simp
  define k1 where "k1 = (if history_count s > 0 then history_count s - 1 else 0)"
  define s2 where "s2 = s\<lparr>display := put_char 10 d, command_buffer := b[i := 0], buffer_index := i, history_cursor := k1\<rparr>"
  let ?s3 = "if i > 0 then remember text s2 else s2"
  have s2: "echo_char 10 (s1\<lparr>history_cursor := k1, command_buffer := b[i := 0]\<rparr>) = s2"
    by (rule system.equality) (simp_all add: s1' s2_def echo_char_def)
  have run: "type_keys poll (typed @ [10]) s = map_option (\<lambda>t. prompt (t\<lparr>buffer_index := 0\<rparr>)) (execute_command poll text ?s3)"
  proof -
    have "handle_input poll False 10 s1 = enter poll (s1\<lparr>history_cursor := k1\<rparr>)"
      using l(6) by (simp add: handle_input_def s1' k1_def)
    also have "\<dots> = map_option (\<lambda>t. prompt (t\<lparr>buffer_index := 0\<rparr>)) (execute_command poll text ?s3)"
    proof -
      have "command_buffer s1 = b" "buffer_index s1 = i" by (simp_all add: s1')
      then show ?thesis using s2 cs unfolding s2_def by (cases "i = 0") (simp_all add: enter_def Let_def)
    qed
    finally show ?thesis using s1(1) by (simp only: type_keys_append bind.bind_lunit type_keys.simps(2) one_key)
  qed
  have ex: ?thesis if "s3 = s\<lparr>display := d', command_buffer := b', buffer_index := i', history := h', history_count := n', history_cursor := k'\<rparr>"
    and "cstr b' = text" and "text \<noteq> [] \<longrightarrow> h' ! (n' - 1) = text"
    and "type_keys poll (typed @ [10]) s = map_option (\<lambda>t. prompt (t\<lparr>buffer_index := 0\<rparr>)) (execute_command poll text s3)"
    for s3 d' b' i' h' n' k'
    by (rule exI [of _ d'], rule exI [of _ b'], rule exI [of _ i'], rule exI [of _ h'], rule exI [of _ n'], rule exI [of _ k'])
      (use that in simp)
  show ?thesis
  proof (cases "i = 0")
    case True
    have "s2 = s\<lparr>display := put_char 10 d, command_buffer := b[i := 0], buffer_index := i, history := history s,
        history_count := history_count s, history_cursor := k1\<rparr>" by (simp add: s2_def)
    then show ?thesis by (rule ex) (use run True cs l in simp_all)
  next
    case False
    define h where "h = (if history_count s < 10 then (history s)[history_count s := text] else tl (history s) @ [text])"
    define n where "n = (if history_count s < 10 then history_count s + 1 else history_count s)"
    have "h ! (n - 1) = text" using assms(3,4) by (auto simp: nth_append h_def n_def)
    moreover have "remember text s2 = s\<lparr>display := put_char 10 d, command_buffer := b[i := 0], buffer_index := i, history := h,
         history_count := n, history_cursor := n - 1\<rparr>"
      by (rule system.equality) (simp_all add: remember_def s2_def h_def n_def)
    then show ?thesis by (rule ex) (use calculation run False cs in simp_all)
  qed
qed

lemma typed_line_executes_example:
  "type_keys (\<lambda>n. n) ([0x68, 8] @ [10]) system0 \<noteq> None"
proof -
  have "line_holds [] system0" "list_all line_key [0x68, 8]" "length (history system0) = 10" "history_count system0 \<le> 10"
    by (simp_all add: line_holds_def line_key_def system0_def desktop.defs)
  note ex = typed_line_executes [OF this, of "\<lambda>n. n"]
  have "fold line_edit [0x68, 8] [] = []" by (simp add: line_edit_def)
  moreover have "execute_command (\<lambda>n. n) [] s \<noteq> None" for s
    by (subst execute_command.simps)
      (simp add: cut_at_def plain_command_def no_redirect start_redirect_def split_args_def run_command_def other_command_def bytes_def)
  ultimately show ?thesis using ex by auto
qed

end
