(* ===== verification/Redirect.thy ===== *)
theory Redirect
  imports ShellFacts
begin

text \<open>
  Redirection across the layers: from the shell's \<open>kprint\<close> through path lookup and dispatch to the blocks of
  the RAM file system, and back through \<open>cat\<close> to the console.
\<close>

section \<open>A file in the root\<close>

definition ram_file :: "'a fstree_scheme \<Rightarrow> u8 list \<Rightarrow> nat \<Rightarrow> bool" where
  "ram_file t nm n \<longleftrightarrow> dir_of RamBackend t (fs_root t) \<and> n \<noteq> fs_root t \<and> (\<exists>i. slot_of t (nm @ [0]) = Some i \<and> files t ! i = n)
     \<and> ram_ok t n \<and> read_op (nodes t ! n) = Some RamBackend \<and> write_op (nodes t ! n) = Some RamBackend"

text \<open>A tree whose root has room for a new file of this name.\<close>

definition root_room :: "'a fstree_scheme \<Rightarrow> u8 list \<Rightarrow> bool" where
  "root_room t nm \<longleftrightarrow> dir_of RamBackend t (fs_root t) \<and> (\<forall>k<file_count t. files t ! k < length (nodes t))
     \<and> slot_of t (nm @ [0]) = None \<and> file_count t < MAX_FILES \<and> length (files t) = MAX_FILES \<and> length (file_contents t) = MAX_FILES"

lemma ram_file_new:
  fixes t :: "'a fstree_scheme"
  assumes "root_room t nm" and "0 \<notin> set nm" and "length nm < 128"
  shows "\<exists>t'. create_file t (nm @ [0]) (Some [0]) True = Some (t', Some (length (nodes t)))
    \<and> ram_file t' nm (length (nodes t)) \<and> ram_content t' (length (nodes t)) = []"
proof -
  let ?n = "length (nodes t)" and ?c = "file_count t"
  let ?node = "zero_node\<lparr>nname := nm @ [0], nflags := FS_FILE, ninode := of_nat ?c, read_op := Some RamBackend,
      write_op := Some RamBackend, nlength := 0\<rparr>"
  define t' where "t' = t\<lparr>nodes := nodes t @ [?node], blocks := blocks t @ [patch (replicate FILE_BLOCK 0) 0 [0]],
      file_contents := (file_contents t)[?c := length (blocks t)], files := (files t)[?c := ?n], file_count := ?c + 1\<rparr>"
  have room: "?c < 64" "length (files t) = 64" "length (file_contents t) = 64" "dir_of RamBackend t (fs_root t)"
    "slot_of t (nm @ [0]) = None" "\<forall>k<?c. files t ! k < ?n"
    using assms(1) by (simp_all add: root_room_def MAX_FILES_def)
  have cr: "create_file t (nm @ [0]) (Some [0]) True = Some (t', Some ?n)"
    using room assms(3) by (simp add: create_file_def t'_def Let_def FILE_BLOCK_def MAX_FILES_def)
  have old: "node_at t' (files t' ! k) = node_at t (files t ! k)" if "k < ?c" for k
    using that room by (simp add: t'_def node_at_def nth_append)
  have last: "files t' ! ?c = ?n" "node_at t' ?n = ?node" using room by (simp_all add: t'_def node_at_def)
  have "find (\<lambda>i. strcmp (nm @ [0]) (nname (node_at t' (files t' ! i))) = Some 0) [0..<?c] = slot_of t (nm @ [0])"
    unfolding slot_of_def by (rule find_cong) (auto simp: old)
  moreover have "strcmp (nm @ [0]) (nm @ [0]) = Some 0" by (subst strcmp_eq) simp_all
  moreover have "file_count t' = Suc ?c" by (simp add: t'_def)
  ultimately have slot: "slot_of t' (nm @ [0]) = Some ?c"
    using room(5) last by (simp only: slot_of_def [of t'] find_upt_Suc option.case) simp
  have blk: "block_of t' ?n = length (blocks t)"
    using last(2) room of_nat_slot [of ?c] by (simp add: block_of_def) (simp add: t'_def)
  have "ram_ok t' ?n" unfolding ram_ok_def blk last(2) by (simp add: t'_def FILE_BLOCK_def patch_def)
  moreover have "ram_content t' ?n = []" unfolding ram_content_def last(2) by simp
  moreover have "dir_of RamBackend t' (fs_root t')" "?n \<noteq> fs_root t'"
    using room(4) by (auto simp: t'_def dir_of_def nth_append)
  ultimately show ?thesis using cr slot last by (auto simp: ram_file_def node_at_def)
qed

lemma ram_write_frame:
  fixes t :: "'a fstree_scheme"
  assumes "ram_write t n off data = Some (t', k)"
  shows "files t' = files t \<and> file_count t' = file_count t \<and> fs_root t' = fs_root t
    \<and> (\<exists>l. nodes t' = (nodes t)[n := (nodes t ! n)\<lparr>nlength := l\<rparr>])"
proof -
  have keep: "\<exists>l. nodes t = (nodes t)[n := (nodes t ! n)\<lparr>nlength := l\<rparr>]"
    by (rule exI [of _ "nlength (nodes t ! n)"]) simp
  show ?thesis
    using assms keep by (auto simp: ram_write_def Let_def node_at_def split: if_splits)
qed

lemma ram_file_append:
  fixes t :: "'a fstree_scheme"
  assumes "ram_file t nm n" and "length (ram_content t n) + length data \<le> 4096"
  shows "\<exists>t' k. file_write t n (nlength (nodes t ! n)) data = Some (t', k) \<and> ram_file t' nm n
    \<and> ram_content t' n = ram_content t n @ data"
proof -
  have f: "ram_ok t n" "n \<noteq> fs_root t" "dir_of RamBackend t (fs_root t)" "n < length (nodes t)"
    "write_op (nodes t ! n) = Some RamBackend" "read_op (nodes t ! n) = Some RamBackend"
    using assms(1) by (simp_all add: ram_file_def ram_ok_def)
  obtain i where i: "slot_of t (nm @ [0]) = Some i" "files t ! i = n" using assms(1) by (auto simp: ram_file_def)
  let ?off = "nlength (nodes t ! n)"
  have len: "unat ?off = length (ram_content t n)" using ram_content_length [OF f(1)] by (simp add: node_at_def)
  obtain t' where t': "ram_write t n ?off data = Some (t', of_nat (length data))" "ram_ok t' n"
    "ram_content t' n = patch (ram_content t n) (unat ?off) data"
    using ram_write_content [OF f(1), of ?off data] len assms(2) by (auto simp: FILE_BLOCK_def)
  obtain l where fr: "files t' = files t" "file_count t' = file_count t" "fs_root t' = fs_root t"
    "nodes t' = (nodes t)[n := (nodes t ! n)\<lparr>nlength := l\<rparr>]"
    using ram_write_frame [OF t'(1)] by blast
  have "nname (node_at t' m) = nname (node_at t m)" for m
    using fr(4) f(4) by (cases "m = n") (simp_all add: node_at_def)
  then have "slot_of t' (nm @ [0]) = Some i" using i fr by (simp add: slot_of_def)
  moreover have "dir_of RamBackend t' (fs_root t')" using f(2,3) fr by (simp add: dir_of_def)
  ultimately have "ram_file t' nm n" using t'(2) f fr i by (auto simp: ram_file_def)
  moreover have "file_write t n ?off data = Some (t', of_nat (length data))"
    using t'(1) f(5) by (simp add: file_write_def write_fs_def backend_write_def)
  moreover have "ram_content t' n = ram_content t n @ data" using t'(3) len by (simp add: patch_def)
  ultimately show ?thesis by blast
qed

lemma ram_file_reads:
  "ram_file t nm n \<Longrightarrow> length (ram_content t n) \<le> 2047 \<Longrightarrow> file_read t n 0 2047 = Some (ram_content t n)"
  using ram_read_content [of t n 0 2047] by (simp add: ram_file_def file_read_def read_fs_def backend_read_def)

lemma ram_file_lookup:
  "ram_file t nm n \<Longrightarrow> good_component nm \<Longrightarrow> lookup t (slash # nm) = (t, Some n)"
  using lookup_root [of t nm] by (auto simp: ram_file_def)

section \<open>Printing into a file\<close>

definition redirected :: "system \<Rightarrow> u8 list \<Rightarrow> bool" where
  "redirected s f \<longleftrightarrow> \<not> pipe_active s \<and> redir_out s \<and> redir_file s = f \<and> current_path s = [slash]"

lemma root_path: "slash \<notin> set f \<Longrightarrow> length f < 128 \<Longrightarrow> abs_path [slash] f = Some (slash # f)"
  by (cases f) (auto simp: abs_path_def)

lemma not_on_disk: "slash \<notin> set f \<Longrightarrow> \<not> on_disk (slash # f)"
proof
  assume no: "slash \<notin> set f" and disk: "on_disk (slash # f)"
  have "bytes ''/disk/'' = slash # [0x64, 0x69, 0x73, 0x6B, slash]" by (simp add: bytes_def)
  then have "take 5 f = [0x64, 0x69, 0x73, 0x6B, slash]" using disk by (simp add: on_disk_def)
  then have "slash \<in> set (take 5 f)" by simp
  then show False using no by (meson in_set_takeD)
qed

lemma kprint_existing:
  assumes "redirected s f" and "good_component f" and "ram_file (tree s) f n"
    and "length (ram_content (tree s) n) + length text \<le> 4096"
  shows "\<exists>t. kprint text s = Some (s\<lparr>tree := t\<rparr>) \<and> ram_file t f n \<and> ram_content t n = ram_content (tree s) n @ text"
proof -
  obtain t k where t: "file_write (tree s) n (nlength (nodes (tree s) ! n)) text = Some (t, k)" "ram_file t f n"
    "ram_content t n = ram_content (tree s) n @ text"
    using ram_file_append [OF assms(3,4)] by blast
  have "abs_path (current_path s) (redir_file s) = Some (slash # f)"
    using assms(1,2) root_path [of f] by (simp add: redirected_def good_component_def)
  moreover have "redirect_node (slash # f) s = Some (s, Some n)"
    using ram_file_lookup [OF assms(3,2)] by (simp add: redirect_node_def find_node_def)
  ultimately have "kprint text s = Some (s\<lparr>tree := t\<rparr>)"
    using assms(1) t(1) by (simp add: kprint_def redirected_def file_print_def)
  then show ?thesis using t by blast
qed

lemma kprint_creates:
  assumes "redirected s f" and "good_component f" and "0 \<notin> set f" and "root_room (tree s) f" and "frames s = []"
    and "length text \<le> 4096"
  shows "\<exists>t n. kprint text s = Some (s\<lparr>tree := t\<rparr>) \<and> ram_file t f n \<and> ram_content t n = text"
proof -
  let ?n = "length (nodes (tree s))"
  have f: "slash \<notin> set f" "length f < 128" using assms(2) by (simp_all add: good_component_def)
  obtain t1 where t1: "create_file (tree s) (f @ [0]) (Some [0]) True = Some (t1, Some ?n)" "ram_file t1 f ?n" "ram_content t1 ?n = []"
    using ram_file_new [OF assms(4,3) f(2)] by blast
  obtain t k where t: "file_write t1 ?n (nlength (nodes t1 ! ?n)) text = Some (t, k)" "ram_file t f ?n" "ram_content t ?n = text"
    using ram_file_append [OF t1(2), of "text"] t1(3) assms(6) by auto
  have "lookup (tree s) (slash # f) = (tree s, None)"
    using lookup_root [of "tree s" f] assms(2,4) by (simp add: root_room_def)
  then have none: "find_node (slash # f) s = (s, None)" by (simp add: find_node_def)
  have "ram_new f s = Some (s\<lparr>tree := t1\<rparr>)" using t1(1) assms(5) by (simp add: ram_new_def)
  then have "new_file (slash # f) f s = Some (s\<lparr>tree := t1\<rparr>)" using not_on_disk [OF f(1)] by (simp add: new_file_def)
  moreover have "find_node (slash # f) (s\<lparr>tree := t1\<rparr>) = (s\<lparr>tree := t1\<rparr>, Some ?n)"
    using ram_file_lookup [OF t1(2) assms(2)] by (simp add: find_node_def)
  ultimately have "redirect_node (slash # f) s = Some (s\<lparr>tree := t1\<rparr>, Some ?n)"
    using none assms(1) by (simp add: redirect_node_def redirected_def)
  moreover have "abs_path (current_path s) (redir_file s) = Some (slash # f)"
    using assms(1) root_path [OF f] by (simp add: redirected_def)
  ultimately have "kprint text s = Some (s\<lparr>tree := t\<rparr>)"
    using assms(1) t(1) by (simp add: kprint_def redirected_def file_print_def)
  then show ?thesis using t by blast
qed

lemma redirect_split:
  assumes "0x3E \<notin> set l" and "0x3E \<notin> set r"
  shows "split_redirect (l @ 0x3E # r) = (l, Some (False, r))"
proof -
  have "\<not> sublist [0x3E, 0x3E] (l @ 0x3E # r)"
  proof
    assume "sublist [0x3E, 0x3E] (l @ 0x3E # r)"
    then obtain ps ss where "l @ 0x3E # r = ps @ [0x3E, 0x3E] @ ss" by (auto simp: sublist_def)
    then have "count_list (l @ 0x3E # r) 0x3E = count_list (ps @ [0x3E, 0x3E] @ ss) 0x3E" by simp
    then show False using assms by (simp add: count_list_0_iff)
  qed
  moreover have "bytes ''>>'' = [0x3E, 0x3E]" by (simp add: bytes_def)
  ultimately have "k_strstr (l @ 0x3E # r) (bytes ''>>'') = None" using k_strstr_finds by metis
  then show ?thesis using cut_at_first [OF assms(1), of r] by (simp add: split_redirect_def)
qed

lemma start_redirect_new:
  assumes "good_component f" and "hd f \<noteq> 0x20" and "current_path s = [slash]" and "root_room (tree s) f"
  shows "start_redirect (Some (False, f)) s = Some (s\<lparr>redir_out := True, redir_file := f\<rparr>)"
proof -
  have f: "slash \<notin> set f" "length f < 128" "f \<noteq> []" using assms(1) by (simp_all add: good_component_def)
  have "skip_spaces f = f" using f(3) assms(2) by (cases f) (auto simp: skip_spaces_def)
  moreover have "lookup (tree s) (slash # f) = (tree s, None)"
    using lookup_root [of "tree s" f] assms(1,4) by (simp add: root_room_def)
  ultimately show ?thesis
    using f assms(3) root_path [OF f(1,2)] by (simp add: start_redirect_def truncate_def find_node_def Let_def)
qed

lemma cat_prints:
  assumes "to_console s" and "current_path s = [slash]" and "good_component f" and "ram_file (tree s) f n"
    and "length (ram_content (tree s) n) \<le> 2047" and "0 \<notin> set (ram_content (tree s) n)"
  shows "do_cat f s = Some (say (ram_content (tree s) n @ [10]) s)"
proof -
  have f: "slash \<notin> set f" "length f < 128" "f \<noteq> []" using assms(3) by (simp_all add: good_component_def)
  have "cstr (ram_content (tree s) n) = ram_content (tree s) n"
    using assms(6) by (auto simp: cstr_def takeWhile_eq_all_conv)
  moreover have "kprints [ram_content (tree s) n, [10]] s = Some (say (ram_content (tree s) n @ [10]) s)"
    using to_console_kprints [OF assms(1), of "[ram_content (tree s) n, [10]]"] assms(6) by (simp del: kprints.simps)
  moreover have "find_node (slash # f) s = (s, Some n)"
    using ram_file_lookup [OF assms(4,3)] by (simp add: find_node_def)
  ultimately show ?thesis
    using f assms(2) root_path [OF f(1,2)] ram_file_reads [OF assms(4,5)] by (simp add: do_cat_def del: kprints.simps)
qed

text \<open>C10. Redirected output is a file that can be shown again: in the root directory, \<open>echo\<close> of any text
  into a new name prints nothing, and a following \<open>cat\<close> of that name prints exactly the text, its line
  feed, and the line feed that \<open>cat\<close> adds.\<close>

theorem redirected_echo_reads_back:
  assumes st: "current_path s = [slash]" "\<not> pipe_active s" "frames s = []" "root_room (tree s) f"
    and f: "good_component f" "0 \<notin> set f" "hd f \<noteq> 0x20" "0x3E \<notin> set f" "0x7C \<notin> set f"
    and xs: "0 \<notin> set xs" "0x3E \<notin> set xs" "0x7C \<notin> set xs" "length xs < 128"
  shows "\<exists>s1 s2. execute_command poll ((bytes ''echo'' @ 0x20 # xs) @ 0x3E # f) s = Some s1 \<and> display s1 = display s
    \<and> execute_command poll (bytes ''cat'' @ 0x20 # f) s1 = Some s2
    \<and> display s2 = vga_write_string (xs @ [10, 10]) (display s)"
proof -
  have sets: "set (bytes ''echo'') = {0x65, 0x63, 0x68, 0x6F}" "set (bytes ''cat'') = {0x63, 0x61, 0x74}"
    "length (bytes ''echo'') = 4" "length (bytes ''cat'') = 3"
    by (auto simp: bytes_def)
  have lf: "length f < 32" using f(1) by (simp add: good_component_def)
  let ?l = "bytes ''echo'' @ 0x20 # xs"
  let ?s0 = "s\<lparr>abort_requested := False\<rparr>"
  let ?s1 = "?s0\<lparr>redir_out := True, redir_file := f\<rparr>"
  have red: "redirected ?s1 f" using st by (simp add: redirected_def)
  obtain t1 n where t1: "kprint xs ?s1 = Some (?s1\<lparr>tree := t1\<rparr>)" "ram_file t1 f n" "ram_content t1 n = xs"
    using kprint_creates [OF red f(1,2), of xs] st xs by auto
  have "redirected (?s1\<lparr>tree := t1\<rparr>) f" using red by (simp add: redirected_def)
  from kprint_existing [OF this f(1), of n "[10]"] t1 xs obtain t2 where
    t2: "kprint [10] (?s1\<lparr>tree := t1\<rparr>) = Some (?s1\<lparr>tree := t2\<rparr>)" "ram_file t2 f n" "ram_content t2 n = xs @ [10]"
    by auto
  let ?s2 = "?s1\<lparr>tree := t2, redir_out := False\<rparr>"
  have "0x7C \<notin> set (?l @ 0x3E # f)" using f xs sets by auto
  moreover have "split_redirect (?l @ 0x3E # f) = (?l, Some (False, f))"
    by (rule redirect_split) (use f xs sets in auto)
  moreover have "start_redirect (Some (False, f)) ?s0 = Some ?s1"
    by (rule start_redirect_new) (use f st in simp_all)
  moreover have "split_args ?l = Some (bytes ''echo'', xs)"
    using cut_at_first [of "0x20" "bytes ''echo''" xs] sets xs by (simp add: split_args_def)
  moreover have "run_command poll ?l (bytes ''echo'') xs ?s1 = Some (?s1\<lparr>tree := t2\<rparr>)"
    using t1(1) t2(1) by (simp add: run_command_def)
  ultimately have one: "execute_command poll (?l @ 0x3E # f) s = Some ?s2"
    using sets xs lf by (subst execute_command.simps) (simp add: cut_at_absent plain_command_def)
  have "do_cat f (?s2\<lparr>abort_requested := False\<rparr>) = Some (say ((xs @ [10]) @ [10]) (?s2\<lparr>abort_requested := False\<rparr>))"
    using cat_prints [of "?s2\<lparr>abort_requested := False\<rparr>" f n] st f t2 xs by (simp add: to_console_def)
  then have two: "execute_command poll (bytes ''cat'' @ 0x20 # f) ?s2 =
      Some ((say (xs @ [10, 10]) (?s2\<lparr>abort_requested := False\<rparr>))\<lparr>redir_out := False\<rparr>)"
    using f sets lf by (subst execute_word) (simp_all add: run_command_def)
  show ?thesis using one two by (intro exI conjI) (assumption | simp add: say_def)+
qed

lemma boot_files_contents: "boot_files True s = Some t \<Longrightarrow> length (file_contents t) = length (file_contents s)"
  by (auto simp: boot_files_def ram_initialize_def create_file_def mesa_initialize_def mount_def load_metadata_def
      Let_def split: if_splits option.splits prod.splits)

lemma redirected_echo_reads_back_witness:
  "\<exists>t s1 s2. boot_files True fs_boot0 = Some t
    \<and> execute_command (\<lambda>n. n) ((bytes ''echo'' @ 0x20 # bytes ''hi'') @ 0x3E # bytes ''note'') (system0\<lparr>tree := t\<rparr>) = Some s1
    \<and> display s1 = vga_initialize vga_boot
    \<and> execute_command (\<lambda>n. n) (bytes ''cat'' @ 0x20 # bytes ''note'') s1 = Some s2
    \<and> display s2 = vga_write_string (bytes ''hi'' @ [10, 10]) (vga_initialize vga_boot)"
proof -
  obtain t d where t: "boot_files True fs_boot0 = Some t" "tree_ok t d" "file_count t = 2" "length (files t) = MAX_FILES" and
    slots: "\<And>nm. 0 \<in> set nm \<Longrightarrow> slot_of t nm = (if cstr nm = bytes ''readme.txt'' then Some 0
      else if cstr nm = bytes ''disk'' then Some 1 else None)"
    using boot_files_tree [OF fresh_boot0] by blast
  have "slot_of t (bytes ''note'' @ [0]) = None" by (subst slots) (simp_all add: bytes_def)
  moreover have "length (file_contents t) = MAX_FILES" using boot_files_contents [OF t(1)] by (simp add: fs_boot0_def)
  ultimately have "root_room t (bytes ''note'')" using t by (simp add: root_room_def tree_ok_def MAX_FILES_def)
  moreover have "good_component (bytes ''note'')" "0 \<notin> set (bytes ''note'')" "hd (bytes ''note'') \<noteq> 0x20"
    "0x3E \<notin> set (bytes ''note'')" "0x7C \<notin> set (bytes ''note'')" "0 \<notin> set (bytes ''hi'')"
    "0x3E \<notin> set (bytes ''hi'')" "0x7C \<notin> set (bytes ''hi'')" "bytes ''/'' = [slash]"
    by (simp_all add: good_component_def bytes_def)
  ultimately show ?thesis
    using redirected_echo_reads_back [of "system0\<lparr>tree := t\<rparr>" "bytes ''note''" "bytes ''hi''" "\<lambda>n. n"] t(1)
    by (simp add: system0_def desktop.defs)
qed

end
