(* ===== verification/ShellErrors.thy ===== *)
theory ShellErrors
  imports Redirect
begin

text \<open>
  Where the shell does not do what it means to: the history, chains of two pipes, arguments that do not fit,
  and redirection to an absolute path.
\<close>

section \<open>History\<close>

lemma rub_out_fields:
  "command_buffer ((rub_out ^^ n) s) = command_buffer s \<and> history ((rub_out ^^ n) s) = history s
    \<and> history_count ((rub_out ^^ n) s) = history_count s \<and> history_cursor ((rub_out ^^ n) s) = history_cursor s"
  by (induction n) (auto simp: rub_out_def say_def)

text \<open>
  Entering a command leaves the cursor at the newest entry; the up arrow moves it back before it shows
  anything, so the first press shows the entry before the newest.
\<close>

lemma up_arrow_skips_newest:
  assumes "history_count s = Suc (Suc n)" and "history_cursor s = history_count s - 1"
    and "length (history s ! n) < 256" and "0 \<notin> set (history s ! n)"
  shows "cstr (command_buffer (up_arrow s)) = history s ! n"
proof -
  have "older ((rub_out ^^ buffer_index s) s) = n" using assms rub_out_fields by (simp add: older_def)
  then have "command_buffer (up_arrow s) = put_text 0 (history s ! n @ [0]) (command_buffer s)"
    using assms(1) rub_out_fields by (simp add: up_arrow_def Let_def say_def)
  then show ?thesis using assms(4) by (simp add: put_text_def)
qed

lemma down_arrow_is_typed:
  "\<not> app_running s \<Longrightarrow> buffer_index s < 255 \<Longrightarrow> length (command_buffer s) = 256
     \<Longrightarrow> \<exists>s1. handle_input poll False 0x12 s = Some s1 \<and> command_buffer s1 ! buffer_index s = 0x12 \<and> buffer_index s1 = Suc (buffer_index s)"
  by (auto simp: handle_input_def store_char_def echo_char_def)

section \<open>Two pipes\<close>

lemma grep_nothing:
  assumes "pat \<noteq> []" and "pipe_input_available s" and "pipe_buffer s = replicate 4096 0"
  shows "do_grep pat s = Some s"
proof -
  have "grep_loop (Suc 4095) pat 0 0 s = grep_line pat 0 s"
    using assms(3) by (simp only: grep_loop.simps(2)) (simp add: Let_def)
  moreover have "cstr (replicate 4096 0) = []" by (rule cstr_zeros)
  ultimately show ?thesis using assms by (simp add: do_grep_def grep_line_def)
qed

lemma execute_grep:
  assumes "pat \<noteq> []" and "0x7C \<notin> set pat" and "0x3E \<notin> set pat" and "length pat < 128"
    and "do_grep pat (s\<lparr>abort_requested := False\<rparr>) = Some t"
  shows "execute_command poll (bytes ''grep'' @ 0x20 # pat) s = Some (t\<lparr>redir_out := False\<rparr>)"
  using assms grep_word_chars by (subst execute_word) (simp_all add: run_command_def)

text \<open>C39. The second pipe of a command sees nothing: whatever the first command prints, \<open>left|grep p|grep q\<close>
  adds nothing to the console, because the shell clears the pipe buffer when it starts the second pipe, before
  the middle command has read it.\<close>

theorem second_pipe_blind:
  assumes l: "0x7C \<notin> set l" "execute_command poll l (pipe_from s) = Some s1"
    and p: "p \<noteq> []" "0x7C \<notin> set p" "0x3E \<notin> set p" "length p < 100"
    and q: "q \<noteq> []" "0x7C \<notin> set q" "0x3E \<notin> set q" "length q < 100"
    and len: "length (l @ 0x7C # (bytes ''grep'' @ 0x20 # p) @ 0x7C # bytes ''grep'' @ 0x20 # q) < 256"
  shows "\<exists>s2. execute_command poll (l @ 0x7C # (bytes ''grep'' @ 0x20 # p) @ 0x7C # bytes ''grep'' @ 0x20 # q) s = Some s2
    \<and> display s2 = display s1"
proof -
  let ?gp = "bytes ''grep'' @ 0x20 # p" and ?gq = "bytes ''grep'' @ 0x20 # q"
  have sp: "skip_spaces (bytes ''grep'' @ xs) = bytes ''grep'' @ xs" for xs by (simp add: skip_spaces_def bytes_def)
  let ?m = "(pipe_from (pipe_into s1))\<lparr>redir_out := False\<rparr>"
  have "do_grep p ((pipe_from (pipe_into s1))\<lparr>abort_requested := False\<rparr>) = Some (pipe_from (pipe_into s1))"
    using p(1) by (simp add: grep_nothing pipe_into_def pipe_from_def)
  then have middle: "execute_command poll ?gp (pipe_from (pipe_into s1)) = Some ?m"
    using p by (intro execute_grep) simp_all
  have "do_grep q ((pipe_into ?m)\<lparr>abort_requested := False\<rparr>) = Some ((pipe_into ?m)\<lparr>abort_requested := False\<rparr>)"
    using q(1) by (intro grep_nothing) (simp_all add: pipe_into_def pipe_from_def)
  then have right: "execute_command poll ?gq (pipe_into ?m) = Some ((pipe_into ?m)\<lparr>abort_requested := False, redir_out := False\<rparr>)"
    using q by (simp add: execute_grep)
  have "cut_at 0x7C (?gp @ 0x7C # ?gq) = (?gp, Some ?gq)"
    using p(2) grep_word_chars by (intro cut_at_first) auto
  then have "execute_command poll (?gp @ 0x7C # ?gq) (pipe_into s1) =
      Some ((pipe_into ?m)\<lparr>abort_requested := False, redir_out := False, pipe_input_available := False\<rparr>)"
    using len middle right by (subst execute_command.simps) (simp add: sp)
  then have "execute_command poll (l @ 0x7C # ?gp @ 0x7C # ?gq) s =
      Some ((pipe_into ?m)\<lparr>abort_requested := False, redir_out := False, pipe_input_available := False\<rparr>)"
    using l len sp [of "0x20 # p @ 0x7C # ?gq"] by (subst execute_command.simps) (simp add: cut_at_first)
  then show ?thesis by (auto simp: pipe_into_def pipe_from_def)
qed

lemma second_pipe_blind_witness:
  "\<exists>s2. execute_command (\<lambda>n. n) ((bytes ''echo'' @ 0x20 # [0x61]) @ 0x7C # (bytes ''grep'' @ 0x20 # [0x61]) @ 0x7C # bytes ''grep'' @ 0x20 # [0x61])
     system0 = Some s2 \<and> display s2 = display system0"
proof -
  have "0x7C \<notin> set (bytes ''echo'' @ 0x20 # [0x61])" by (simp add: bytes_def)
  from second_pipe_blind [OF this echo_piped, of "[0x61]" "[0x61]"]
  show ?thesis by (simp add: pipe_from_def del: append_assoc append_Cons)
qed

section \<open>Arguments that do not fit\<close>

lemma long_argument_faults:
  assumes "0x20 \<notin> set w" and "0x7C \<notin> set w \<union> set a" and "0x3E \<notin> set w \<union> set a" and "128 \<le> length a"
  shows "execute_command poll (w @ 0x20 # a) s = None"
proof -
  have "cut_at 0x7C (w @ 0x20 # a) = (w @ 0x20 # a, None)" using assms(2) by (intro cut_at_absent) auto
  moreover have "split_redirect (w @ 0x20 # a) = (w @ 0x20 # a, None)" using assms(3) by (intro no_redirect) auto
  ultimately show ?thesis using assms
    by (subst execute_command.simps) (simp add: plain_command_def start_redirect_def split_args_def cut_at_first)
qed

lemma long_user_faults: "32 \<le> length arg \<Longrightarrow> do_su arg s = None"
  by (auto simp: do_su_def)

lemma long_path_faults:
  assumes "current_path s = p" and "last p \<noteq> slash" and "p \<noteq> []" and "slash \<notin> set nm" and "nm \<noteq> []" and "nm \<noteq> bytes ''..''"
    and "find_node (p @ slash # nm) s = (s1, Some n)" and "is_directory (nodes (tree s1) ! n)" and "128 \<le> length p + length nm + 1"
  shows "do_cd nm s = None"
proof -
  have "nm \<noteq> bytes ''/''" using assms(4) by (auto simp: bytes_def)
  moreover have "take 1 nm \<noteq> [slash]" using assms(4,5) by (cases nm) auto
  ultimately show ?thesis using assms
    by (auto simp: do_cd_def abs_path_def is_dir_def bind_eq_None_conv split: if_splits)
qed

section \<open>Redirection to an absolute path\<close>

lemma slot_of_created:
  fixes t :: "'a fstree_scheme"
  assumes "create_file t (nm @ [0]) content True = Some (t', Some n)" and "\<forall>k<file_count t. files t ! k < length (nodes t)"
    and "length (files t) = MAX_FILES" and "0 \<notin> set nm" and "0 \<notin> set nm'" and "nm' \<noteq> nm"
  shows "slot_of t' (nm' @ [0]) = slot_of t (nm' @ [0]) \<and> file_count t' = Suc (file_count t) \<and> fs_root t' = fs_root t
    \<and> (dir_of RamBackend t r \<longrightarrow> dir_of RamBackend t' r)"
proof -
  obtain x where t': "nodes t' = nodes t @ [x]" "nname x = nm @ [0]" "files t' = (files t)[file_count t := length (nodes t)]"
    "file_count t' = Suc (file_count t)" "fs_root t' = fs_root t" "file_count t < MAX_FILES"
    using assms(1) by (auto simp: create_file_def Let_def split: if_splits option.splits)
  let ?P = "\<lambda>t i. strcmp (nm' @ [0]) (nname (node_at t (files t ! i))) = Some 0"
  have "find (?P t') [0..<file_count t] = find (?P t) [0..<file_count t]"
    using assms(2) t' by (intro find_cong) (auto simp: node_at_def nth_append)
  moreover have "\<not> ?P t' (file_count t)"
    using assms t' strcmp_eq [of "nm' @ [0]" "nm @ [0]"] by (simp add: node_at_def)
  ultimately have "slot_of t' (nm' @ [0]) = slot_of t (nm' @ [0])"
    unfolding slot_of_def t'(4) find_upt_Suc by (simp split: option.splits)
  then show ?thesis using t' by (auto simp: dir_of_def nth_append)
qed

text \<open>
  Outside the disk an absolute target is created under its whole path as its name: the lookup that follows
  fails, the text is dropped, and each printed piece uses up another of the 64 entries.
\<close>

lemma absolute_redirect_lost:
  assumes st: "\<not> pipe_active s" "redir_out s" "redir_file s = slash # g" "frames s = []"
    and g: "good_component g" "0 \<notin> set g"
    and t: "dir_of RamBackend (tree s) (fs_root (tree s))" "\<forall>k<file_count (tree s). files (tree s) ! k < length (nodes (tree s))"
      "slot_of (tree s) (g @ [0]) = None" "file_count (tree s) < MAX_FILES" "length (files (tree s)) = MAX_FILES"
  shows "\<exists>t. kprint text s = Some (s\<lparr>tree := t\<rparr>) \<and> file_count t = Suc (file_count (tree s)) \<and> lookup t (slash # g) = (t, None)"
proof -
  have "length g < 32" "slash \<notin> set g" using g by (simp_all add: good_component_def)
  then obtain t1 n where cr: "create_file (tree s) ((slash # g) @ [0]) (Some [0]) True = Some (t1, Some n)"
    using t(4) by (simp add: create_file_def Let_def FILE_BLOCK_def)
  note c = slot_of_created [OF cr t(2,5), of g "fs_root (tree s)"]
  have "g \<noteq> slash # g" by (metis not_Cons_self)
  then have t1: "slot_of t1 (g @ [0]) = None" "file_count t1 = Suc (file_count (tree s))" "dir_of RamBackend t1 (fs_root t1)"
    using c g t by auto
  have none: "lookup (tree s) (slash # g) = (tree s, None)" "lookup t1 (slash # g) = (t1, None)"
    using lookup_root [OF t(1) g(1)] lookup_root [OF t1(3) g(1)] t(3) t1(1) by simp_all
  have "ram_new (slash # g) s = Some (s\<lparr>tree := t1\<rparr>)" using cr st(4) t(4) by (simp add: ram_new_def)
  then have "new_file (slash # g) (slash # g) s = Some (s\<lparr>tree := t1\<rparr>)"
    using not_on_disk [OF \<open>slash \<notin> set g\<close>] by (simp add: new_file_def)
  then have "redirect_node (slash # g) s = Some (s\<lparr>tree := t1\<rparr>, None)"
    using none st(3) by (simp add: redirect_node_def find_node_def)
  then have "kprint text s = Some (s\<lparr>tree := t1\<rparr>)"
    using st \<open>length g < 32\<close> by (simp add: kprint_def file_print_def abs_path_def)
  then show ?thesis using t1 none by blast
qed

end
