(* ===== verification/Devices.thy ===== *)
theory Devices
  imports CString Ports PCI
begin

text \<open>
  The sound, USB and wireless drivers, \<open>drivers/audio.cpp\<close>, \<open>drivers/usb.cpp\<close> and \<open>drivers/wifi.cpp\<close>: detection
  on the PCI bus, the simulated devices, and the melody on the PC speaker as a port program. A pointer
  argument is an option, \<open>None\<close> the null pointer. What a driver hands to \<open>Logging::info\<close>, which is not part
  of the repository, is recorded in order; delay loops have no effect and no counterpart.
\<close>

unbundle bit_operations_syntax

section \<open>Sound\<close>

record audio_format =
  sample_rate :: u32
  channels :: u8
  bits_per_sample :: u8

record audio =
  a_initialized :: bool
  current_format :: audio_format
  volume :: u8
  playing :: bool
  recording :: bool
  audio_device :: "pci_device option"
  a_ports :: ports
  a_log :: "u8 list list"

definition default_format :: audio_format where
  "default_format = \<lparr>sample_rate = 44100, channels = 2, bits_per_sample = 16\<rparr>"

definition audio0 :: audio where
  "audio0 = \<lparr>a_initialized = False, current_format = default_format, volume = 100, playing = False, recording = False,
     audio_device = None, a_ports = \<lparr>inputs = [], trace = []\<rparr>, a_log = []\<rparr>"

definition a_info :: "string \<Rightarrow> audio \<Rightarrow> audio" where
  "a_info str s = s\<lparr>a_log := a_log s @ [bytes str]\<rparr>"

definition is_ac97 :: "pci_device \<Rightarrow> bool" where
  "is_ac97 d \<longleftrightarrow> vendor_id d = 0x8086 \<and> device_id d = 0x2415"

definition audio_initialize :: "cfg \<Rightarrow> audio \<Rightarrow> audio" where
  "audio_initialize c s =
     (if a_initialized s then s
      else case find is_audio (pci_scan c) of
             None \<Rightarrow> a_info ''No audio devices found'' s
           | Some d \<Rightarrow>
               let s1 = a_info ''Audio device found - initializing...'' s;
                   s2 = (if is_ac97 d then a_info ''VirtualBox ICH AC97 audio controller detected'' s1 else s1)
               in (a_info ''Audio driver initialized successfully'' (s2\<lparr>audio_device := Some d, a_initialized := True\<rparr>))
                    \<lparr>current_format := default_format, volume := 100\<rparr>)"

definition set_format :: "audio_format option \<Rightarrow> audio \<Rightarrow> bool \<times> audio" where
  "set_format format s =
     (case format of
        None \<Rightarrow> (False, s)
      | Some f \<Rightarrow>
          if \<not> a_initialized s then (False, s)
          else if sample_rate f = 0 \<or> channels f = 0 \<or> bits_per_sample f = 0 then (False, s)
          else (True, a_info ''Audio format updated'' (s\<lparr>current_format := f\<rparr>)))"

text \<open>The speaker is switched by two bits of port 0x61 and driven by channel 2 of the timer.\<close>

definition enable_pc_speaker :: "ports \<Rightarrow> ports" where
  "enable_pc_speaker io = (let (temp, io1) = inb 0x61 io in outb 0x61 (temp OR 3) io1)"

definition disable_pc_speaker :: "ports \<Rightarrow> ports" where
  "disable_pc_speaker io = (let (temp, io1) = inb 0x61 io in outb 0x61 (temp AND 0xFC) io1)"

text \<open>A frequency of 0 would be a division trap; the only caller excludes it.\<close>

definition set_pit_frequency :: "u16 \<Rightarrow> ports \<Rightarrow> ports" where
  "set_pit_frequency frequency io =
     (let divisor = 1193180 div ucast frequency :: u32
      in outb 0x42 (ucast (drop_bit 8 divisor AND 0xFF)) (outb 0x42 (ucast (divisor AND 0xFF)) (outb 0x43 0xB6 io)))"

definition play_tone :: "u16 \<Rightarrow> ports \<Rightarrow> ports" where
  "play_tone frequency io = (if frequency = 0 then io else set_pit_frequency frequency (enable_pc_speaker io))"

definition frequencies :: "u16 list" where
  "frequencies = [261, 294, 329, 349, 392, 440, 493, 523]"

definition melody :: "nat list" where
  "melody = [0, 0, 4, 4, 5, 5, 4, 3, 3, 2, 2, 1, 4, 4, 3, 3, 2, 2, 1, 4, 4, 3, 3, 2, 2, 1, 0, 0, 4, 4, 5, 5, 4, 3, 3, 2, 2, 1]"

definition play_melody :: "ports \<Rightarrow> ports" where
  "play_melody io = disable_pc_speaker (fold (\<lambda>k. play_tone (frequencies ! k)) melody io)"

definition play_buffer :: "u8 list option \<Rightarrow> u32 \<Rightarrow> audio \<Rightarrow> bool \<times> audio" where
  "play_buffer buf sz s =
     (if \<not> a_initialized s \<or> buf = None \<or> sz = 0 then (False, s)
      else let s1 = a_info ''Audio playback started'' (s\<lparr>playing := True\<rparr>);
               s2 = (if (case audio_device s1 of None \<Rightarrow> False | Some d \<Rightarrow> is_ac97 d)
                     then let s3 = a_info ''ICH AC97 detected - using PC Speaker for guaranteed audio'' s1
                          in a_info ''PC Speaker melody playback completed'' (s3\<lparr>a_ports := play_melody (a_ports s3)\<rparr>)
                     else a_info ''Audio playback completed - simulation'' s1)
           in (True, s2\<lparr>playing := False\<rparr>))"

text \<open>Recording fills the buffer with a pattern; the new contents are the second result. A size beyond the buffer
  is a fault.\<close>

definition record_buffer :: "u8 list option \<Rightarrow> u32 \<Rightarrow> audio \<Rightarrow> (bool \<times> u8 list option \<times> audio) option" where
  "record_buffer buf sz s =
     (case buf of
        None \<Rightarrow> Some (False, None, s)
      | Some old \<Rightarrow>
          if \<not> a_initialized s \<or> sz = 0 then Some (False, Some old, s)
          else if unat sz > length old then None
          else Some (True, Some (map (\<lambda>i. of_nat (i mod 256)) [0..<unat sz] @ drop (unat sz) old),
                 (s\<lparr>recording := True\<rparr>)\<lparr>recording := False\<rparr>))"

definition set_volume :: "u8 \<Rightarrow> audio \<Rightarrow> bool \<times> audio" where
  "set_volume vol s = (if a_initialized s then (True, s\<lparr>volume := vol\<rparr>) else (False, s))"

definition get_volume :: "audio \<Rightarrow> u8" where
  "get_volume s = (if a_initialized s then volume s else 0)"

definition is_playing :: "audio \<Rightarrow> bool" where
  "is_playing s \<longleftrightarrow> a_initialized s \<and> playing s"

definition is_recording :: "audio \<Rightarrow> bool" where
  "is_recording s \<longleftrightarrow> a_initialized s \<and> recording s"

definition stop_playback :: "audio \<Rightarrow> audio" where
  "stop_playback s = (if a_initialized s then s\<lparr>playing := False\<rparr> else s)"

definition stop_recording :: "audio \<Rightarrow> audio" where
  "stop_recording s = (if a_initialized s then s\<lparr>recording := False\<rparr> else s)"

section \<open>USB\<close>

record usb_device =
  u_address :: u8
  u_class :: u8
  u_subclass :: u8
  u_protocol :: u8
  u_vendor :: u16
  u_product :: u16
  max_packet_size :: u8
  num_configurations :: u8

record usb =
  u_devices :: "usb_device list"
  u_count :: nat
  u_initialized :: bool
  u_log :: "u8 list list"

definition u_info :: "u8 list \<Rightarrow> usb \<Rightarrow> usb" where
  "u_info text s = s\<lparr>u_log := u_log s @ [text]\<rparr>"

definition add_device :: "usb_device \<Rightarrow> usb \<Rightarrow> usb" where
  "add_device d s = (if u_count s < 16 then s\<lparr>u_devices := (u_devices s)[u_count s := d], u_count := u_count s + 1\<rparr> else s)"

definition usb_hub :: usb_device where
  "usb_hub = \<lparr>u_address = 1, u_class = 0x09, u_subclass = 0x00, u_protocol = 0x00, u_vendor = 0x80EE, u_product = 0x0021,
     max_packet_size = 64, num_configurations = 1\<rparr>"

definition usb_tablet :: usb_device where
  "usb_tablet = \<lparr>u_address = 2, u_class = 0x03, u_subclass = 0x01, u_protocol = 0x02, u_vendor = 0x80EE, u_product = 0x0030,
     max_packet_size = 8, num_configurations = 1\<rparr>"

definition usb_storage :: usb_device where
  "usb_storage = \<lparr>u_address = 3, u_class = 0x08, u_subclass = 0x06, u_protocol = 0x50, u_vendor = 0x80EE, u_product = 0x0040,
     max_packet_size = 64, num_configurations = 1\<rparr>"

definition enumerate_devices :: "usb \<Rightarrow> usb" where
  "enumerate_devices s =
     (if \<not> u_initialized s then s
      else let s1 = add_device usb_storage (add_device usb_tablet (add_device usb_hub (s\<lparr>u_count := 0\<rparr>)))
           in u_info (bytes ''Found '' @ itoa (int (u_count s1)) 10 @ bytes '' USB devices'') s1)"

definition usb_initialize :: "cfg \<Rightarrow> usb \<Rightarrow> usb" where
  "usb_initialize c s =
     (if u_initialized s then s
      else case find is_usb (pci_scan c) of
             None \<Rightarrow> u_info (bytes ''No USB controllers found'') s
           | Some d \<Rightarrow>
               let s1 = u_info (bytes ''USB controller found - initializing...'') s;
                   s2 = (if vendor_id d = 0x80EE \<and> device_id d = 0x0021
                         then u_info (bytes ''VirtualBox USB 2.0 EHCI controller detected'') s1
                         else if vendor_id d = 0x8086 \<and> device_id d = 0x265C
                         then u_info (bytes ''Intel ICH6 USB controller detected (VirtualBox emulated)'') s1 else s1)
               in enumerate_devices (u_info (bytes ''USB driver initialized successfully'') (s2\<lparr>u_initialized := True\<rparr>)))"

definition send_control_packet :: "usb \<Rightarrow> bool" where
  "send_control_packet s = u_initialized s"

definition send_bulk_packet :: "usb \<Rightarrow> bool" where
  "send_bulk_packet s = u_initialized s"

section \<open>Wireless network\<close>

record wifi =
  w_initialized :: bool
  connected :: bool
  current_ssid :: "u8 list"
  signal_strength :: int
  w_log :: "u8 list list"

definition w_info :: "u8 list \<Rightarrow> wifi \<Rightarrow> wifi" where
  "w_info text s = s\<lparr>w_log := w_log s @ [text]\<rparr>"

definition wifi_initialize :: "u32 \<Rightarrow> wifi \<Rightarrow> wifi" where
  "wifi_initialize ip s =
     (if w_initialized s then s
      else let s1 = w_info (bytes ''WiFi driver initializing for VirtualBox bridged mode...'') s
           in w_info (if ip \<noteq> 0 then bytes ''WiFi driver initialized successfully - using VirtualBox bridged connection''
                      else bytes ''WiFi driver initialized - waiting for DHCP to obtain IP from bridged WiFi'')
                (s1\<lparr>w_initialized := True\<rparr>))"

definition scan_networks :: "u32 \<Rightarrow> wifi \<Rightarrow> bool \<times> wifi" where
  "scan_networks gateway s =
     (if \<not> w_initialized s then (False, s)
      else let s1 = w_info (bytes ''Scanning for WiFi networks via bridged connection...'') s
           in (True, if gateway \<noteq> 0 then w_info (bytes ''Router detected at gateway, simulating WiFi scan...'') s1 else s1))"

text \<open>\<open>current_ssid\<close> is the array of 33 bytes; a name is a text without its terminator.\<close>

definition wifi_connect :: "u8 list option \<Rightarrow> wifi \<Rightarrow> (bool \<times> wifi) option" where
  "wifi_connect ssid s =
     (case ssid of
        None \<Rightarrow> Some (False, s)
      | Some nm \<Rightarrow>
          if \<not> w_initialized s then Some (False, s)
          else let s1 = w_info (bytes ''Attempting to connect to WiFi network...'') s in
            (case strncpy (current_ssid s1 @ nm @ [0]) 0 33 32 of
               None \<Rightarrow> None
             | Some m \<Rightarrow>
                 Some (True, w_info (bytes ''Connected to WiFi: '' @ take 32 nm)
                   (s1\<lparr>current_ssid := (take 33 m)[32 := 0], connected := True, signal_strength := - 45\<rparr>))))"

definition wifi_disconnect :: "wifi \<Rightarrow> bool \<times> wifi" where
  "wifi_disconnect s =
     (if \<not> connected s then (True, s)
      else (True, (w_info (bytes ''Disconnecting from WiFi...'') s)
             \<lparr>connected := False, current_ssid := (current_ssid s)[0 := 0], signal_strength := 0\<rparr>))"

definition wifi_send_packet :: "wifi \<Rightarrow> bool" where
  "wifi_send_packet s \<longleftrightarrow> w_initialized s \<and> connected s"

definition get_connected_ssid :: "wifi \<Rightarrow> u8 list option" where
  "get_connected_ssid s = (if connected s then Some (current_ssid s) else None)"

definition get_signal_strength :: "wifi \<Rightarrow> int" where
  "get_signal_strength s = (if connected s then signal_strength s else 0)"

section \<open>What the melody does to the ports\<close>

text \<open>The outputs a melody may make: the speaker's port, and channel 2 of the timer with its command.\<close>

definition speaker_output :: "io \<Rightarrow> bool" where
  "speaker_output e = (case e of Out8 p v \<Rightarrow> p = 0x61 \<or> p = 0x42 \<or> (p = 0x43 \<and> v = 0xB6) | _ \<Rightarrow> False)"

lemma enable_outputs: "\<exists>v. outputs (enable_pc_speaker io) = outputs io @ [Out8 0x61 v]"
  by (simp add: enable_pc_speaker_def split_beta)

lemma tone_outputs: "\<exists>es. outputs (play_tone f io) = outputs io @ es \<and> list_all speaker_output es"
proof (cases "f = 0")
  case False
  obtain v where v: "outputs (enable_pc_speaker io) = outputs io @ [Out8 0x61 v]" using enable_outputs by blast
  then show ?thesis using False by (simp add: play_tone_def set_pit_frequency_def speaker_output_def Let_def)
qed (simp add: play_tone_def)

lemma tones_outputs: "\<exists>es. outputs (fold (\<lambda>k. play_tone (frequencies ! k)) ks io) = outputs io @ es \<and> list_all speaker_output es"
proof (induction ks arbitrary: io)
  case (Cons k ks)
  obtain es where es: "outputs (play_tone (frequencies ! k) io) = outputs io @ es" "list_all speaker_output es"
    using tone_outputs by blast
  obtain fs where fs: "outputs (fold (\<lambda>k. play_tone (frequencies ! k)) ks (play_tone (frequencies ! k) io)) =
      outputs (play_tone (frequencies ! k) io) @ fs" "list_all speaker_output fs"
    using Cons.IH by blast
  show ?case using es fs by (intro exI [of _ "es @ fs"]) simp
qed simp

text \<open>Playing sound never disturbs the scheduler's timer and leaves the speaker off: on the sound
  controller the driver supports, everything a playback writes goes to the speaker's port and to channel 2 of
  the timer, and the last write switches the speaker off.\<close>

lemma playback_leaves_timer:
  assumes "a_initialized s" and "audio_device s = Some d" and "is_ac97 d" and "sz \<noteq> 0"
  shows "\<exists>es v t. play_buffer (Some buf) sz s = (True, t) \<and> \<not> playing t
    \<and> outputs (a_ports t) = outputs (a_ports s) @ es @ [Out8 0x61 v] \<and> list_all speaker_output es \<and> v AND 3 = 0"
proof -
  obtain es where es: "outputs (fold (\<lambda>k. play_tone (frequencies ! k)) melody (a_ports s)) = outputs (a_ports s) @ es"
    "list_all speaker_output es" using tones_outputs by blast
  have off: "(w AND 0xFC) AND (3 :: u8) = 0" for w by (simp add: and.assoc)
  have "\<exists>v. outputs (play_melody (a_ports s)) = outputs (a_ports s) @ es @ [Out8 0x61 v] \<and> v AND 3 = 0"
    using es(1) off by (auto simp: play_melody_def disable_pc_speaker_def split_beta)
  then show ?thesis using assms es(2)
    by (auto simp: play_buffer_def a_info_def Let_def)
qed

lemma playback_leaves_timer_example:
  "\<exists>es v t. play_buffer (Some [1, 2]) 2 (audio0\<lparr>a_initialized := True, audio_device := Some \<lparr>bus_no = 0, slot_no = 5, func_no = 0,
       vendor_id = 0x8086, device_id = 0x2415, class_id = 4, subclass_id = 1, interrupt_line = 5\<rparr>\<rparr>) = (True, t)
     \<and> outputs (a_ports t) = es @ [Out8 0x61 v] \<and> v AND 3 = 0"
proof -
  let ?d = "\<lparr>bus_no = 0, slot_no = 5, func_no = 0, vendor_id = 0x8086, device_id = 0x2415, class_id = 4, subclass_id = 1, interrupt_line = 5\<rparr>"
  let ?s = "audio0\<lparr>a_initialized := True, audio_device := Some ?d\<rparr>"
  have "a_initialized ?s" "audio_device ?s = Some ?d" "is_ac97 ?d" "(2 :: u32) \<noteq> 0"
    by (simp_all add: is_ac97_def)
  from playback_leaves_timer [OF this, of "[1, 2]"] show ?thesis by (auto simp: audio0_def outputs_def)
qed

text \<open>After detection the driver reports its three simulated devices, whatever is on the bus.\<close>

lemma usb_three_devices:
  assumes "\<not> u_initialized s" and "find is_usb (pci_scan c) = Some d" and "length (u_devices s) = 16"
  shows "u_count (usb_initialize c s) = 3 \<and> take 3 (u_devices (usb_initialize c s)) = [usb_hub, usb_tablet, usb_storage]"
  using assms by (cases "u_devices s")
    (auto simp: usb_initialize_def enumerate_devices_def add_device_def u_info_def Let_def numeral_3_eq_3 take_Suc_conv_app_nth)

end
