(* ===== verification/Exceptions.thy ===== *)
theory Exceptions
  imports CString VMM Scheduler
begin

text \<open>
  The exception side of the interrupt dispatch, \<open>isr_handler\<close> of \<open>arch/i386/isr.cpp\<close>: system calls go to the
  registered handler, write faults on shared pages to the copy-on-write code of \<open>VMM\<close>, and everything else
  ends in \<open>KernelPanic::panic\<close>, which is not part of the repository, with a message built in a fixed array.
  A message is an option: \<open>None\<close> if a piece would leave the array.
\<close>

unbundle bit_operations_syntax

datatype outcome = Resume | Panic "u8 list option"

text \<open>\<open>strcat\<close> into an array of a given size.\<close>

definition append_in :: "nat \<Rightarrow> u8 list option \<Rightarrow> u8 list \<Rightarrow> u8 list option" where
  "append_in cap m t = (case m of None \<Rightarrow> None | Some xs \<Rightarrow> if length xs + length t < cap then Some (xs @ t) else None)"

definition page_fault_pieces :: "u32 \<Rightarrow> u32 \<Rightarrow> u8 list list" where
  "page_fault_pieces err addr =
     [itoa (sint addr) 16, bytes '' - ''] @
     (if err AND 0x1 = 0 then [bytes ''Page not present ''] else []) @
     [if err AND 0x2 \<noteq> 0 then bytes ''Write access '' else bytes ''Read access '',
      if err AND 0x4 \<noteq> 0 then bytes ''User mode '' else bytes ''Kernel mode ''] @
     (if err AND 0x8 \<noteq> 0 then [bytes ''Reserved bit set ''] else []) @
     (if err AND 0x10 \<noteq> 0 then [bytes ''Instruction fetch''] else [])"

definition page_fault_text :: "u32 \<Rightarrow> u32 \<Rightarrow> u8 list option" where
  "page_fault_text err addr = foldl (append_in 128) (Some (bytes ''Page fault at address 0x'')) (page_fault_pieces err addr)"

definition exception_text :: "u32 \<Rightarrow> u32 \<Rightarrow> u8 list option" where
  "exception_text n err =
     foldl (append_in 64) (Some (bytes ''CPU Exception - Interrupt ''))
       [itoa (sint n) 10, bytes '' (Error code: '', itoa (sint err) 10, bytes '')'']"

definition isr_handler ::
  "(u32 \<Rightarrow> (registers \<Rightarrow> 'd \<Rightarrow> 'd) option) \<Rightarrow> registers \<Rightarrow> u32 \<Rightarrow> 'd \<Rightarrow> vmm \<Rightarrow> 'd \<times> vmm \<times> outcome" where
  "isr_handler handlers regs faulting_address dev s =
     (if int_no regs = 128
      then ((case handlers 128 of Some h \<Rightarrow> h regs dev | None \<Rightarrow> dev), s, Resume)
      else if int_no regs = 14
      then (case cow_fault s (err_code regs) faulting_address of
              (s1, True) \<Rightarrow> (dev, s1, Resume)
            | (s1, False) \<Rightarrow> (dev, s1, Panic (page_fault_text (err_code regs) faulting_address)))
      else (dev, s, Panic (exception_text (int_no regs) (err_code regs))))"

text \<open>The table of handlers.\<close>

definition register_interrupt_handler :: "u8 \<Rightarrow> 'h \<Rightarrow> (u8 \<Rightarrow> 'h option) \<Rightarrow> (u8 \<Rightarrow> 'h option)" where
  "register_interrupt_handler n h table = table(n \<mapsto> h)"

definition register_irq_handler :: "u8 \<Rightarrow> 'h \<Rightarrow> (u8 \<Rightarrow> 'h option) \<Rightarrow> (u8 \<Rightarrow> 'h option)" where
  "register_irq_handler n h table = table(n \<mapsto> h)"

section \<open>The messages fit\<close>

lemma numeral_length: "2 \<le> b \<Longrightarrow> n < b ^ Suc k \<Longrightarrow> length (numeral_of b n) \<le> Suc k"
proof (induction k arbitrary: n)
  case 0
  then show ?case by (simp add: numeral_of.simps [of b n])
next
  case (Suc k)
  have "n div b < b ^ Suc k" using Suc.prems by (intro less_mult_imp_div_less) (simp add: ac_simps)
  then show ?case using Suc.IH [of "n div b"] Suc.prems(1) by (simp add: numeral_of.simps [of b n])
qed

lemma sint_range: "nat \<bar>sint (w :: u32)\<bar> \<le> 2147483648"
  using sint_greater_eq [of w] sint_less [of w] by simp

lemma length_hex: "length (itoa (sint (w :: u32)) 16) \<le> 8"
proof -
  have "nat \<bar>sint w\<bar> < 16 ^ Suc 7" using sint_range [of w] by (simp add: le_less_trans)
  then show ?thesis using numeral_length [of 16 "nat \<bar>sint w\<bar>" 7] by (simp add: itoa_eq_digits)
qed

lemma length_decimal: "length (itoa (sint (w :: u32)) 10) \<le> 11"
proof -
  have "nat \<bar>sint w\<bar> < 10 ^ Suc 9" using sint_range [of w] by (simp add: le_less_trans)
  then show ?thesis using numeral_length [of 10 "nat \<bar>sint w\<bar>" 9]
    by (cases "sint w < 0") (simp_all add: itoa_eq_digits)
qed

lemma append_all:
  "length xs + sum_list (map length ts) < cap \<Longrightarrow> foldl (append_in cap) (Some xs) ts = Some (xs @ concat ts)"
  by (induction ts arbitrary: xs) (auto simp: append_in_def)

lemma length_if: "length (if b then [xs] else []) = (if b then 1 else 0)"
  by simp

text \<open>C40. An exception either resumes the program or panics with its complete message: for every exception and
  every error code and address the message fits into its array, and the program is resumed exactly for
  system calls and for the faults the copy-on-write code has handled.\<close>

theorem exceptions_reported:
  "snd (snd (isr_handler handlers regs addr dev s)) =
     (if int_no regs = 128 \<or> (int_no regs = 14 \<and> snd (cow_fault s (err_code regs) addr)) then Resume
      else if int_no regs = 14
      then Panic (Some (bytes ''Page fault at address 0x'' @ concat (page_fault_pieces (err_code regs) addr)))
      else Panic (Some (bytes ''CPU Exception - Interrupt '' @ itoa (sint (int_no regs)) 10 @ bytes '' (Error code: ''
             @ itoa (sint (err_code regs)) 10 @ bytes '')'')))"
proof -
  have "sum_list (map length (page_fault_pieces err addr)) \<le> 87" for err
    using length_hex [of addr] by (simp add: page_fault_pieces_def)
  then have "24 + sum_list (map length (page_fault_pieces err addr)) < 128" for err
    using le_less_trans [of "24 + sum_list (map length (page_fault_pieces err addr))" 111 128] by fastforce
  then have page: "page_fault_text err addr = Some (bytes ''Page fault at address 0x'' @ concat (page_fault_pieces err addr))" for err
    unfolding page_fault_text_def by (intro append_all) simp
  have exc: "exception_text n err = Some (bytes ''CPU Exception - Interrupt '' @
      concat [itoa (sint n) 10, bytes '' (Error code: '', itoa (sint err) 10, bytes '')''])" for n err
    unfolding exception_text_def using length_decimal [of n] length_decimal [of err] by (intro append_all) simp
  show ?thesis by (simp add: isr_handler_def page exc split: prod.splits)
qed

text \<open>
  The address is printed as a signed number: in the upper half of the address space the message shows the
  distance to 4 GiB instead.
\<close>

lemma high_address_misprinted:
  assumes "2147483648 \<le> unat (addr :: u32)"
  shows "hd (page_fault_pieces err addr) = numeral_of 16 (4294967296 - unat addr)"
proof -
  have m: "uint addr = sint addr mod 4294967296"
    using uint_word_of_int [of "sint addr", where 'a = 32] by simp
  have u: "uint addr = int (unat addr)" by simp
  have r: "- 2147483648 \<le> sint addr" "sint addr < 2147483648" using sint_greater_eq [of addr] sint_less [of addr] by simp_all
  have "sint addr < 0"
  proof (rule ccontr)
    assume "\<not> sint addr < 0"
    then have "sint addr mod 4294967296 = sint addr" using r by (intro mod_pos_pos_trivial) auto
    then show False using m u r assms by linarith
  qed
  then have "(sint addr + 4294967296) mod 4294967296 = sint addr + 4294967296" using r by (intro mod_pos_pos_trivial) auto
  then have "sint addr mod 4294967296 = sint addr + 4294967296" by (simp only: mod_add_self2)
  then have "sint addr = int (unat addr) - 4294967296" using m u by linarith
  then have "nat \<bar>sint addr\<bar> = 4294967296 - unat addr" using unat_u32_lt [of addr] by linarith
  then show ?thesis by (simp add: page_fault_pieces_def itoa_eq_digits)
qed

end
