(* ===== verification/Boot.thy ===== *)
theory Boot
  imports Exceptions KHeap Arch Files NIC VGA "HOL-Library.Monad_Syntax"
begin

text \<open>
  Start-up, \<open>kernel_main\<close> of \<open>kernel/kernel.cpp\<close>: the components are initialised in the order of the code on
  one machine state. Every \<open>kmalloc\<close> of the sequence is a request to the kernel heap of \<open>KHeap\<close>; the file
  system nodes it serves are list positions in \<open>Files\<close>, so their addresses are dropped. Interrupts that
  arrive after \<open>sti\<close> while the sequence is still running are not interleaved. \<open>None\<close> is a kernel panic or
  a loop that does not end. \<open>remove\<close> is \<open>Scheduler::remove_process\<close>, which the repository does not contain.
\<close>

section \<open>State\<close>

datatype irq_service = Timer_irq | Keyboard_irq | Rtl_irq | Pcnet_irq

record kernel =
  kconsole :: vga
  gdt :: "gdt_entry list"
  gdtr_limit :: u16
  idt :: "idt_entry list"
  idtr_limit :: u16
  kports :: ports
  memory :: vmm
  heap :: kheap
  sched :: sched
  handlers :: "u8 \<Rightarrow> irq_service option"
  interrupts_on :: bool
  filesys :: fstree
  pci_space :: cfg
  pci_found :: "pci_device list"
  rtl_card :: rtl
  pcnet_card :: pcnet

text \<open>What the linker and the assembly stubs provide, and the fields of \<open>multiboot_info\<close> that are read.\<close>

record image =
  kernel_end :: u32
  isr_stub :: "nat \<Rightarrow> u32"
  irq_stub :: "nat \<Rightarrow> u32"
  syscall_stub :: u32
  shell_entry :: u32

record multiboot_info =
  mem_lower :: u32
  mem_upper :: u32
  mmap_length :: u32
  mmap_addr :: u32

section \<open>Steps\<close>

definition kwrite :: "u8 list \<Rightarrow> kernel \<Rightarrow> kernel" where
  "kwrite text k = k\<lparr>kconsole := vga_write_string text (kconsole k)\<rparr>"

definition kcolor :: "u8 \<Rightarrow> kernel \<Rightarrow> kernel" where
  "kcolor fg k = k\<lparr>kconsole := set_color (vga_entry_color fg 0) (kconsole k)\<rparr>"

definition announce :: "string \<Rightarrow> kernel \<Rightarrow> kernel" where
  "announce str k = kwrite (bytes str) (kcolor 15 k)"

definition report_ok :: "kernel \<Rightarrow> kernel" where
  "report_ok k = kwrite (bytes ''OK'' @ [10]) (kcolor 10 k)"

definition banner :: "kernel \<Rightarrow> kernel" where
  "banner k = kwrite (bytes ''Welcome to MesaOS v0.3 '' @ [39] @ bytes ''Persist'' @ [39, 10, 10])
     (kcolor 11 (k\<lparr>kconsole := vga_initialize (kconsole k)\<rparr>))"

definition boot_gdt :: "kernel \<Rightarrow> kernel" where
  "boot_gdt k = (let (limit, es) = gdt_initialize (gdt k) in k\<lparr>gdt := es, gdtr_limit := limit\<rparr>)"

definition boot_idt :: "image \<Rightarrow> kernel \<Rightarrow> kernel" where
  "boot_idt img k =
     (let (limit, es, io) = idt_initialize (isr_stub img) (irq_stub img) (syscall_stub img) (kports k)
      in k\<lparr>idt := es, idtr_limit := limit, kports := io\<rparr>)"

definition mem_size :: "multiboot_info \<Rightarrow> u32" where
  "mem_size mbt = (mem_lower mbt + mem_upper mbt) * 1024"

definition boot_frames :: "image \<Rightarrow> mem \<Rightarrow> multiboot_info \<Rightarrow> kernel \<Rightarrow> kernel option" where
  "boot_frames img phys mbt k =
     map_option (\<lambda>p. k\<lparr>memory := (memory k)\<lparr>frames := p\<rparr>\<rparr>)
       (boot_memory phys (frames (memory k)) (mmap_addr mbt) (mmap_length mbt) (kernel_end img) (mem_size mbt))"

definition heap_start :: "image \<Rightarrow> multiboot_info \<Rightarrow> u32" where
  "heap_start img mbt = kernel_end img + mem_size mbt div 32 div 8 + 4096"

definition boot_heap :: "image \<Rightarrow> multiboot_info \<Rightarrow> kernel \<Rightarrow> kernel" where
  "boot_heap img mbt k = k\<lparr>heap := kheap_initialize (heap_start img mbt) (4 * 1024 * 1024)\<rparr>"

definition boot_paging :: "kernel \<Rightarrow> kernel" where
  "boot_paging k = k\<lparr>memory := paging_initialize (memory k)\<rparr>"

text \<open>A request to the kernel heap on behalf of the running process, if there is one.\<close>

definition running_pid :: "sched \<Rightarrow> u32 option" where
  "running_pid s = (if current_process s = 0 then None else Some (pid (procs s (current_process s))))"

definition heap_request :: "(u32 \<Rightarrow> kheap \<Rightarrow> kheap) \<Rightarrow> u32 \<Rightarrow> kernel \<Rightarrow> (kernel \<times> u32) option" where
  "heap_request remove sz k =
     (case kmalloc remove (running_pid (sched k)) (heap k) sz of
        Panicked \<Rightarrow> None
      | Returned (h, a) \<Rightarrow> Some (k\<lparr>heap := h\<rparr>, a))"

definition SIZEOF_PROCESS :: u32 where "SIZEOF_PROCESS = 104"
definition SIZEOF_FS_NODE :: u32 where "SIZEOF_FS_NODE = 184"

definition boot_scheduler :: "(u32 \<Rightarrow> kheap \<Rightarrow> kheap) \<Rightarrow> kernel \<Rightarrow> kernel option" where
  "boot_scheduler remove k = do {
     (k, proc) \<leftarrow> heap_request remove SIZEOF_PROCESS (k\<lparr>sched := (sched k)\<lparr>current_process := 0\<rparr>\<rparr>);
     (k, stack) \<leftarrow> heap_request remove 8192 k;
     s \<leftarrow> sched_initialize proc stack (sched k);
     Some (k\<lparr>sched := s\<rparr>)}"

definition start_process :: "(u32 \<Rightarrow> kheap \<Rightarrow> kheap) \<Rightarrow> u8 list \<Rightarrow> u32 \<Rightarrow> kernel \<Rightarrow> kernel option" where
  "start_process remove nm entry_point k = do {
     (k, proc) \<leftarrow> heap_request remove SIZEOF_PROCESS k;
     (k, stack) \<leftarrow> heap_request remove 8192 k;
     s \<leftarrow> add_process proc stack (sched k) nm entry_point;
     Some (k\<lparr>sched := s\<rparr>)}"

definition install :: "u8 \<Rightarrow> irq_service \<Rightarrow> kernel \<Rightarrow> kernel" where
  "install n service k = k\<lparr>handlers := register_irq_handler n service (handlers k)\<rparr>"

definition boot_timer :: "u32 \<Rightarrow> kernel \<Rightarrow> kernel option" where
  "boot_timer frequency k =
     map_option (\<lambda>io. (install 32 Timer_irq k)\<lparr>kports := io\<rparr>) (pit_initialize frequency (kports k))"

text \<open>
  The file systems: a node and a frame for the first file, the disk's registers, the node of the disk. The
  requests of the RAM file system come before the disk is selected; nothing depends on the difference.
\<close>

definition boot_storage :: "(u32 \<Rightarrow> kheap \<Rightarrow> kheap) \<Rightarrow> kernel \<Rightarrow> kernel option" where
  "boot_storage remove k = do {
     (k, _) \<leftarrow> heap_request remove SIZEOF_FS_NODE k;
     (k, _) \<leftarrow> heap_request remove SIZEOF_FS_NODE k;
     let (m, block) = alloc_frame (memory k);
     (k, _) \<leftarrow> heap_request remove SIZEOF_FS_NODE (k\<lparr>memory := m, kports := ide_initialize (kports k)\<rparr>);
     t \<leftarrow> boot_files (block \<noteq> 0) (filesys k);
     Some (k\<lparr>filesys := t\<rparr>)}"

section \<open>Network cards\<close>

definition is_rtl8139 :: "pci_device \<Rightarrow> bool" where
  "is_rtl8139 d \<longleftrightarrow> vendor_id d = 0x10EC \<and> device_id d = 0x8139"

definition is_pcnet :: "pci_device \<Rightarrow> bool" where
  "is_pcnet d \<longleftrightarrow> vendor_id d = 0x1022 \<and> device_id d = 0x2000"

definition found_text :: "string \<Rightarrow> pci_device \<Rightarrow> u8 list" where
  "found_text model d = bytes ''Found '' @ bytes model @ bytes '' at '' @ itoa (uint (bus_no d)) 16 @ bytes '':''
     @ itoa (uint (slot_no d)) 16 @ bytes '' ''"

definition attach :: "irq_service \<Rightarrow> u8 option \<Rightarrow> kernel \<Rightarrow> kernel" where
  "attach service line k = (case line of None \<Rightarrow> k | Some n \<Rightarrow> install n service k)"

text \<open>Each driver asks for its memory only when it has found its registers and, for the RTL8139, the reset has ended.\<close>

definition start_rtl8139 :: "pci_device \<Rightarrow> u32 \<Rightarrow> kernel \<Rightarrow> kernel \<times> u8 option" where
  "start_rtl8139 d buf k =
     (case rtl_initialize (pci_space k) d buf (rtl_card k) of
        (c, nic, text, line) \<Rightarrow> (kwrite text (k\<lparr>pci_space := c, rtl_card := nic\<rparr>), line))"

definition boot_rtl8139 :: "(u32 \<Rightarrow> kheap \<Rightarrow> kheap) \<Rightarrow> pci_device \<Rightarrow> kernel \<Rightarrow> kernel option" where
  "boot_rtl8139 remove d k0 = do {
     let k = kwrite (found_text ''RTL8139'' d) k0;
     (k, buf) \<leftarrow> (if snd (start_rtl8139 d 0 k) = None then Some (k, 0) else heap_request remove (8192 + 16 + 1500) k);
     let (k, line) = start_rtl8139 d buf k;
     Some (attach Rtl_irq line k)}"

definition start_pcnet :: "pci_device \<Rightarrow> u32 \<Rightarrow> u32 \<Rightarrow> u32 \<Rightarrow> u32 \<Rightarrow> u32 \<Rightarrow> kernel \<Rightarrow> kernel" where
  "start_pcnet d rx tx rxb txb ini k =
     (case pcnet_initialize (pci_space k) d rx tx rxb txb ini (pcnet_card k) of
        (c, nic, text, line) \<Rightarrow> attach Pcnet_irq line (kwrite text (k\<lparr>pci_space := c, pcnet_card := nic\<rparr>)))"

definition boot_pcnet :: "(u32 \<Rightarrow> kheap \<Rightarrow> kheap) \<Rightarrow> pci_device \<Rightarrow> kernel \<Rightarrow> kernel option" where
  "boot_pcnet remove d k0 =
     (let k = kwrite (found_text ''PCNet'' d) k0
      in if io_bar (pci_space k) d = 0 then Some (start_pcnet d 0 0 0 0 0 k)
         else do {
           (k, rx) \<leftarrow> heap_request remove (16 * 32 + 16) k;
           (k, tx) \<leftarrow> heap_request remove (16 * 8 + 16) k;
           (k, rxb) \<leftarrow> heap_request remove (2048 * 32) k;
           (k, txb) \<leftarrow> heap_request remove (2048 * 8) k;
           (k, ini) \<leftarrow> heap_request remove (28 + 16) k;
           Some (start_pcnet d rx tx rxb txb ini k)})"

definition boot_network :: "(u32 \<Rightarrow> kheap \<Rightarrow> kheap) \<Rightarrow> kernel \<Rightarrow> kernel option" where
  "boot_network remove k =
     (let found = pci_scan (pci_space k); k1 = k\<lparr>pci_found := found\<rparr>
      in case find (\<lambda>d. is_rtl8139 d \<or> is_pcnet d) found of
           None \<Rightarrow> Some (kwrite (bytes ''No NIC found '') (kcolor 14 k1))
         | Some d \<Rightarrow> if is_rtl8139 d then boot_rtl8139 remove d k1 else boot_pcnet remove d k1)"

section \<open>The sequence\<close>

definition ready_lines :: "kernel \<Rightarrow> kernel" where
  "ready_lines k =
     (let rule = bytes ''------------------------------------------'' @ [10];
          k1 = kwrite (bytes ''READY'' @ [10]) (kcolor 10 (kwrite (bytes ''System Status: '') (kcolor 7 k)))
      in kwrite rule (kwrite (bytes ''  MesaOS v0.3 - Hybrid RAM/Disk Kernel'' @ [10]) (kwrite rule (kcolor 15 k1))))"

text \<open>Processor, memory, scheduler and timer, up to \<open>sti\<close>; then file systems and network; then the shell.\<close>

definition boot_core :: "(u32 \<Rightarrow> kheap \<Rightarrow> kheap) \<Rightarrow> image \<Rightarrow> mem \<Rightarrow> multiboot_info \<Rightarrow> kernel \<Rightarrow> kernel option" where
  "boot_core remove img phys mbt k0 = do {
     let k = report_ok (boot_gdt (announce ''Initializing GDT... '' (banner k0)));
     let k = report_ok (boot_idt img (announce ''Initializing IDT... '' k));
     k \<leftarrow> boot_frames img phys mbt (announce ''Initializing PMM... '' k);
     let k = report_ok (boot_heap img mbt (announce ''Initializing KHeap... '' (report_ok k)));
     let k = report_ok (boot_paging (announce ''Initializing Paging... '' k));
     k \<leftarrow> boot_scheduler remove (announce ''Initializing Scheduler... '' k);
     let k = report_ok (install 33 Keyboard_irq (announce ''Initializing Keyboard... '' (report_ok k)));
     k \<leftarrow> boot_timer 100 (announce ''Initializing Timer... '' k);
     Some (report_ok ((announce ''Enabling Interrupts... '' (report_ok k))\<lparr>interrupts_on := True\<rparr>))}"

definition boot_devices :: "(u32 \<Rightarrow> kheap \<Rightarrow> kheap) \<Rightarrow> kernel \<Rightarrow> kernel option" where
  "boot_devices remove k0 = do {
     k \<leftarrow> boot_storage remove (announce ''Initializing RAMFS... '' k0);
     let k = report_ok (announce ''Initializing Disk Drive... '' (report_ok k));
     let k = kwrite [10] (report_ok (announce ''Mounting MesaFS on /disk... '' k));
     k \<leftarrow> boot_network remove (announce ''Initializing Networking... '' k);
     Some (ready_lines (kwrite [10] (report_ok k)))}"

definition kernel_main :: "(u32 \<Rightarrow> kheap \<Rightarrow> kheap) \<Rightarrow> image \<Rightarrow> mem \<Rightarrow> multiboot_info \<Rightarrow> kernel \<Rightarrow> kernel option" where
  "kernel_main remove img phys mbt k0 = do {
     k \<leftarrow> boot_core remove img phys mbt k0;
     k \<leftarrow> boot_devices remove k;
     start_process remove (bytes ''shell'') (shell_entry img) k}"

end
