(* ===== verification/BootFacts.thy ===== *)
theory BootFacts
  imports Boot
begin

text \<open>
  What start-up leaves behind: the requests to the kernel heap are served, the scheduler holds the kernel
  and the shell, and frames that are in use are still free for the frame allocator.
\<close>

section \<open>Requests to the kernel heap\<close>

lemma sizes [simp]: "unat SIZEOF_PROCESS = 104" "unat SIZEOF_FS_NODE = 184"
  by (simp_all add: SIZEOF_PROCESS_def SIZEOF_FS_NODE_def)

text \<open>A heap with a number of bytes left for requests of at most 128 KiB.\<close>

definition room :: "kheap \<Rightarrow> nat \<Rightarrow> bool" where
  "room h n \<longleftrightarrow> kheap_ok h \<and> unat (end_addr h) + 131086 < 4294967296 \<and> unat (current_addr h) + n \<le> unat (end_addr h)"

lemma kmalloc_room:
  assumes r: "room h (n + unat sz + 7)" and sz: "unat sz \<le> 131072"
  obtains h' a where "kmalloc remove cp h sz = Returned (h', a)" "room h' n" "a \<noteq> 0"
    "unat (current_addr h) \<le> unat a" "unat a + unat sz = unat (current_addr h')"
proof -
  let ?a = "align8 (current_addr h)"
  have ok: "kheap_ok h" and b: "benign h sz" using r sz by (simp_all add: room_def benign_def)
  have c: "unat (current_addr h) + 7 < 4294967296" using ok by (simp add: kheap_ok_def)
  note al = align8_facts [OF c]
  show thesis
    using ok b
  proof (cases rule: kheap_malloc_cases)
    case (fail h')
    then show thesis using r al by (simp add: room_def)
  next
    case (ok h')
    have "kheap_ok h'" using kheap_ok_malloc [OF \<open>kheap_ok h\<close> b ok(1)] by simp
    then have "room h' n" using r al ok by (simp add: room_def)
    moreover have "kmalloc remove cp h sz = Returned (h', ?a)" using ok(1,5) by (simp add: kmalloc_def)
    ultimately show thesis using that [of h' ?a] ok al by simp
  qed
qed

lemma heap_request_room:
  assumes "room (heap k) (n + unat sz + 7)" and "unat sz \<le> 131072"
  shows "\<exists>h a. heap_request remove sz k = Some (k\<lparr>heap := h\<rparr>, a) \<and> room h n \<and> a \<noteq> 0
    \<and> unat (current_addr (heap k)) \<le> unat a \<and> unat a + unat sz = unat (current_addr h)"
proof -
  obtain h a where "kmalloc remove (running_pid (sched k)) (heap k) sz = Returned (h, a)" "room h n" "a \<noteq> 0"
    "unat (current_addr (heap k)) \<le> unat a" "unat a + unat sz = unat (current_addr h)"
    using kmalloc_room [OF assms, of remove "running_pid (sched k)"] by blast
  then show ?thesis by (intro exI [of _ h] exI [of _ a]) (simp add: heap_request_def)
qed

lemma room_less: "room h n \<Longrightarrow> m \<le> n \<Longrightarrow> room h m"
  by (simp add: room_def)

section \<open>Processes\<close>

lemma boot_scheduler_room:
  assumes "room (heap k) (8310 + n)"
  obtains h s p where "boot_scheduler remove k = Some (k\<lparr>heap := h, sched := s\<rparr>)" "room h n"
    "sched_ok s [p]" "current_process s = p" "unat p < unat (current_addr h)"
proof -
  let ?k = "k\<lparr>sched := (sched k)\<lparr>current_process := 0\<rparr>\<rparr>"
  have "room (heap ?k) ((8199 + n) + unat SIZEOF_PROCESS + 7)" using assms by simp
  from heap_request_room [OF this, of remove] obtain h1 p where
    1: "heap_request remove SIZEOF_PROCESS ?k = Some (?k\<lparr>heap := h1\<rparr>, p)" "room h1 (8199 + n)" "p \<noteq> 0"
      "unat p + unat SIZEOF_PROCESS = unat (current_addr h1)"
    by auto
  have "room (heap (?k\<lparr>heap := h1\<rparr>)) (n + unat (8192 :: u32) + 7)" using 1(2) by simp
  from heap_request_room [OF this, of remove] obtain h2 stk where
    2: "heap_request remove 8192 (?k\<lparr>heap := h1\<rparr>) = Some (?k\<lparr>heap := h2\<rparr>, stk)" "room h2 n"
      "unat (current_addr h1) \<le> unat stk" "unat stk + 8192 = unat (current_addr h2)"
    by auto
  obtain s where s: "sched_initialize p stk ((sched k)\<lparr>current_process := 0\<rparr>) = Some s" "sched_ok s [p]" "current_process s = p"
    using 1(3) by (simp add: sched_initialize_def add_process_def bytes_def sched_ok_def Let_def)
  have "unat p < unat (current_addr h2)" using 1(4) 2(3,4) by simp
  then show thesis using that [where h = h2 and s = s and p = p] 1(1) 2(1,2) s by (simp add: boot_scheduler_def)
qed

text \<open>The first timer tick switches to a process just added, on the stack its first frame was built on.\<close>

lemma start_process_room:
  assumes r: "room (heap k) (8310 + n)" and s: "sched_ok (sched k) [p]" "unat p < unat (current_addr (heap k))"
    and nm: "length nm < 32"
  obtains h s' q where "start_process remove nm entry_point k = Some (k\<lparr>heap := h, sched := s'\<rparr>)"
    "sched_ok s' [q, p]" "current_process s' = p"
    "\<And>e. eip (stacks (fst (schedule s' e)) (snd (schedule s' e))) = entry_point \<and> current_process (fst (schedule s' e)) = q"
proof -
  have "room (heap k) ((8199 + n) + unat SIZEOF_PROCESS + 7)" using r by simp
  from heap_request_room [OF this, of remove] obtain h1 q where
    1: "heap_request remove SIZEOF_PROCESS k = Some (k\<lparr>heap := h1\<rparr>, q)" "room h1 (8199 + n)" "q \<noteq> 0"
      "unat (current_addr (heap k)) \<le> unat q"
    by auto
  have "room (heap (k\<lparr>heap := h1\<rparr>)) (n + unat (8192 :: u32) + 7)" using 1(2) by simp
  from heap_request_room [OF this, of remove] obtain h2 stk where
    2: "heap_request remove 8192 (k\<lparr>heap := h1\<rparr>) = Some (k\<lparr>heap := h2\<rparr>, stk)"
    by auto
  have qp: "q \<noteq> p" using s(2) 1(4) by auto
  obtain s' where s': "add_process q stk (sched k) nm entry_point = Some s'" using nm by (simp add: add_process_def Let_def)
  have ok: "sched_ok s' [q, p]" using add_process_ok [OF s(1) 1(3) _ s'] qp by simp
  have p: "current_process (sched k) = p" "p \<noteq> 0" "nxt (procs (sched k) p) = 0"
    using s(1) by (simp_all add: sched_ok_def)
  have new: "current_process s' = current_process (sched k)" "process_list s' = q"
    "\<And>x. x \<noteq> q \<Longrightarrow> procs s' x = procs (sched k) x" "eip (stacks s' (stack_ptr (procs s' q))) = entry_point"
    using nm s' by (auto simp: add_process_def Let_def)
  have cur: "current_process s' = p" "nxt (procs s' p) = 0" using new p qp by simp_all
  have "eip (stacks (fst (schedule s' e)) (snd (schedule s' e))) = entry_point \<and> current_process (fst (schedule s' e)) = q" for e
    using new cur p(2) qp by (simp add: schedule_def Let_def)
  then show thesis using that [where h = h2 and s' = s' and q = q] 1(1) 2 s' ok cur by (simp add: start_process_def)
qed

section \<open>Frames\<close>

lemma paging_frames: "frames (paging_initialize s) = fst (allocs allocate_block 17 (frames s))"
proof -
  have step: "frames (identity_step j v) = fst (allocate_block (frames v))" for j v
    by (simp add: identity_step_def alloc_frame_def split_beta Let_def)
  have many: "frames (fold identity_step js v) = fst (allocs allocate_block (length js) (frames v))" for js v
    by (induction js arbitrary: v) (simp_all add: step split_beta)
  show ?thesis
    by (simp add: paging_initialize_def many switch_page_directory_def alloc_frame_def split_beta Let_def
        numeral_eq_Suc del: upt_Suc)
qed

lemma allocs_max_blocks: "pmm_ok p \<Longrightarrow> max_blocks (fst (allocs allocate_block n p)) = max_blocks p"
proof (induction n arbitrary: p)
  case (Suc n)
  show ?case
    using Suc.prems
  proof (cases rule: allocate_block_cases)
    case (got b)
    then show ?thesis using Suc.IH [of "set_block p b"] Suc.prems by (simp add: split_beta inv_intros)
  qed (use Suc in \<open>simp add: split_beta\<close>)
qed simp

lemma length_allocs: "length (snd (allocs f n p)) = n"
  by (induction n arbitrary: p) (simp_all add: split_beta)

text \<open>With more free blocks than allocations there is a frame left.\<close>

lemma frame_left:
  assumes ok: "frame_ok p" and free: "\<forall>i \<le> n. \<not> test_block p (of_nat (b + i))" and bound: "b + n < buckets p * 32"
  shows "snd (allocate_block (fst (allocs allocate_block n p))) \<noteq> 0"
proof
  let ?q = "fst (allocs allocate_block n p)" and ?as = "snd (allocs allocate_block n p)"
  let ?f = "\<lambda>i. of_nat (b + i) * 4096 :: u32"
  assume none: "snd (allocate_block ?q) = 0"
  have al: "frame_ok ?q" "set ?as - {0} = frame_taken ?q - frame_taken p"
    using pmm.allocs_fresh [OF ok, of n ?q ?as] by simp_all
  have pok: "pmm_ok p" "pmm_ok ?q" using ok al(1) by (simp_all add: frame_ok_def)
  have mb: "max_blocks ?q = max_blocks p" using pok(1) by (rule allocs_max_blocks)
  have small: "unat (of_nat (b + i) :: u32) = b + i \<and> of_nat (b + i) < max_blocks p" if "i \<le> n" for i
  proof -
    have "b + i < unat (max_blocks p)" using that bound by (simp add: buckets_def)
    moreover from this have "unat (of_nat (b + i) :: u32) = b + i" using pok(1) by (intro unat_of_nat_u32) (simp add: pmm_ok_def)
    ultimately show ?thesis by (simp add: word_less_nat_alt)
  qed
  have "test_block ?q (of_nat (b + i))" if "i \<le> n" for i
    using pok(2)
  proof (cases rule: allocate_block_cases)
    case fail
    from fail(2) [of "b + i"] show ?thesis using that bound by (simp add: buckets_def mb)
  next
    case (got c)
    then have "c * 4096 = 0 * 4096" using none by simp
    moreover have "0 < max_blocks ?q" using got(2) by (simp add: word_less_nat_alt)
    ultimately have "c = 0" using frame_inj [OF pok(2) got(2)] by blast
    then show ?thesis using got(3) al(1) by (simp add: frame_ok_def)
  qed
  then have "?f i \<in> frame_taken ?q - frame_taken p" if "i \<le> n" for i
    using that small [of i] free frame_taken_iff [OF pok(1)] frame_taken_iff [OF pok(2)] mb by (simp del: of_nat_add)
  then have "?f ` {..n} \<subseteq> set ?as" using al(2) by auto
  moreover have "inj_on ?f {..n}"
    using small frame_inj [OF pok(1)] by (intro inj_onI) (metis add_left_cancel atMost_iff)
  ultimately have "Suc n \<le> card (set ?as)" using card_mono [of "set ?as" "?f ` {..n}"] by (simp add: card_image)
  also have "\<dots> \<le> n" using card_length [of ?as] by (simp add: length_allocs)
  finally show False by simp
qed

section \<open>Storage and network\<close>

lemma screen_fields [simp]:
  "heap (kwrite t k) = heap k" "heap (kcolor c k) = heap k" "sched (kwrite t k) = sched k" "sched (kcolor c k) = sched k"
  "memory (kwrite t k) = memory k" "memory (kcolor c k) = memory k" "filesys (kwrite t k) = filesys k"
  "filesys (kcolor c k) = filesys k" "handlers (kwrite t k) = handlers k" "handlers (kcolor c k) = handlers k"
  "interrupts_on (kwrite t k) = interrupts_on k" "interrupts_on (kcolor c k) = interrupts_on k"
  "kports (kwrite t k) = kports k" "kports (kcolor c k) = kports k" "pci_space (kwrite t k) = pci_space k"
  "pci_space (kcolor c k) = pci_space k"
  by (simp_all add: kwrite_def kcolor_def)

lemma boot_storage_room:
  assumes r: "room (heap k) (573 + n)" and frame: "snd (allocate_block (frames (memory k))) \<noteq> 0" and fresh: "fresh_fs (filesys k)"
  shows "\<exists>h m io t d. boot_storage remove k = Some (k\<lparr>heap := h, memory := m, kports := io, filesys := t\<rparr>) \<and> room h n
    \<and> unat (current_addr (heap k)) \<le> unat (current_addr h) \<and> tree_ok t d \<and> mesa_wf t
    \<and> slot_of t (bytes ''readme.txt'' @ [0]) = Some 0"
proof -
  obtain t d where t: "boot_files True (filesys k) = Some t" "tree_ok t d" "mesa_wf t"
      "slot_of t (bytes ''readme.txt'' @ [0]) = Some 0"
    using boot_files_tree [OF fresh] by (auto simp: bytes_def)
  obtain m b where m: "alloc_frame (memory k) = (m, b)" "b \<noteq> 0"
    using frame that [where b = "snd (alloc_frame (memory k))" and m = "fst (alloc_frame (memory k))"]
    by (simp add: alloc_frame_def split_beta)
  have "room (heap k) ((382 + n) + unat SIZEOF_FS_NODE + 7)" using r by simp
  from heap_request_room [OF this, of remove] obtain h1 a1 where
    1: "heap_request remove SIZEOF_FS_NODE k = Some (k\<lparr>heap := h1\<rparr>, a1)" "room h1 (382 + n)"
      "unat (current_addr (heap k)) \<le> unat a1" "unat a1 + 184 = unat (current_addr h1)" by auto
  have "room (heap (k\<lparr>heap := h1\<rparr>)) ((191 + n) + unat SIZEOF_FS_NODE + 7)" using 1(2) by simp
  from heap_request_room [OF this, of remove] obtain h2 a2 where
    2: "heap_request remove SIZEOF_FS_NODE (k\<lparr>heap := h1\<rparr>) = Some (k\<lparr>heap := h2\<rparr>, a2)" "room h2 (191 + n)"
      "unat (current_addr h1) \<le> unat a2" "unat a2 + 184 = unat (current_addr h2)" by auto
  let ?k = "k\<lparr>heap := h2, memory := m, kports := ide_initialize (kports k)\<rparr>"
  have "room (heap ?k) (n + unat SIZEOF_FS_NODE + 7)" using 2(2) by (simp add: add.commute)
  from heap_request_room [OF this, of remove] obtain h3 a3 where
    3: "heap_request remove SIZEOF_FS_NODE ?k = Some (?k\<lparr>heap := h3\<rparr>, a3)" "room h3 n"
      "unat (current_addr h2) \<le> unat a3" "unat a3 + 184 = unat (current_addr h3)" by auto
  have "boot_storage remove k = Some (k\<lparr>heap := h3, memory := m, kports := ide_initialize (kports k), filesys := t\<rparr>)"
    using 1(1) 2(1) 3(1) m t(1) by (simp add: boot_storage_def)
  moreover have "unat (current_addr (heap k)) \<le> unat (current_addr h3)" using 1 2 3 by linarith
  ultimately show ?thesis using 3(2) t(2-4) by blast
qed

text \<open>What the detection of network cards leaves alone; a card found may take over the handler of its line.\<close>

definition same_core :: "kernel \<Rightarrow> kernel \<Rightarrow> bool" where
  "same_core k k' \<longleftrightarrow> sched k' = sched k \<and> filesys k' = filesys k \<and> memory k' = memory k \<and> interrupts_on k' = interrupts_on k
     \<and> unat (current_addr (heap k)) \<le> unat (current_addr (heap k'))"

lemma same_core_trans: "same_core k k' \<Longrightarrow> same_core k' k'' \<Longrightarrow> same_core k k''"
  by (auto simp: same_core_def)

definition taken_over :: "pci_device \<Rightarrow> irq_service \<Rightarrow> kernel \<Rightarrow> kernel \<Rightarrow> bool" where
  "taken_over d service k k' \<longleftrightarrow> handlers k' = handlers k \<or> handlers k' = (handlers k)(32 + interrupt_line d \<mapsto> service)"

lemma heap_request_core:
  assumes "room (heap k) (n + unat sz + 7)" and "unat sz \<le> 131072"
  shows "\<exists>k' a. heap_request remove sz k = Some (k', a) \<and> room (heap k') n \<and> same_core k k' \<and> handlers k' = handlers k
    \<and> pci_space k' = pci_space k"
  using heap_request_room [OF assms, of remove] by (auto simp: same_core_def)

lemma rtl_line: "rtl_initialize c d buf s = (c', s', t, Some n) \<Longrightarrow> n = 32 + interrupt_line d"
  by (auto simp: rtl_initialize_def Let_def split: prod.splits if_splits)

lemma pcnet_line: "pcnet_initialize c d rx tx rb tb i s = (c', s', t, Some n) \<Longrightarrow> n = 32 + interrupt_line d"
  by (auto simp: pcnet_initialize_def Let_def split: prod.splits if_splits)

lemma attach_fields [simp]:
  "heap (attach v l k) = heap k" "sched (attach v l k) = sched k" "memory (attach v l k) = memory k"
  "filesys (attach v l k) = filesys k" "interrupts_on (attach v l k) = interrupts_on k"
  by (simp_all add: attach_def install_def split: option.splits)

lemma attach_handlers:
  "(\<And>n. l = Some n \<Longrightarrow> n = 32 + interrupt_line d) \<Longrightarrow> taken_over d v k (attach v l k)"
  by (cases l) (auto simp: taken_over_def attach_def install_def register_irq_handler_def)

lemma start_rtl8139_core:
  "same_core k (fst (start_rtl8139 d buf k)) \<and> heap (fst (start_rtl8139 d buf k)) = heap k
    \<and> handlers (fst (start_rtl8139 d buf k)) = handlers k
    \<and> (snd (start_rtl8139 d buf k) = Some m \<longrightarrow> m = 32 + interrupt_line d)"
  by (auto simp: start_rtl8139_def same_core_def dest: rtl_line split: prod.splits)

lemma boot_rtl8139_core:
  assumes "room (heap k) (9715 + n)"
  shows "\<exists>k'. boot_rtl8139 remove d k = Some k' \<and> room (heap k') n \<and> same_core k k' \<and> taken_over d Rtl_irq k k'"
proof -
  let ?k1 = "kwrite (found_text ''RTL8139'' d) k"
  let ?req = "if snd (start_rtl8139 d 0 ?k1) = None then Some (?k1, 0) else heap_request remove (8192 + 16 + 1500) ?k1"
  have "\<exists>k2 buf. ?req = Some (k2, buf) \<and> room (heap k2) n \<and> same_core ?k1 k2 \<and> handlers k2 = handlers ?k1"
  proof (cases "snd (start_rtl8139 d 0 ?k1) = None")
    case True
    then show ?thesis using room_less [OF assms, of n] by (simp add: same_core_def)
  next
    case False
    have "unat (8192 + 16 + 1500 :: u32) = 9708" by simp
    moreover have "room (heap ?k1) (n + 9708 + 7)" using room_less [OF assms, of "n + 9708 + 7"] by simp
    ultimately show ?thesis
      using heap_request_core [of ?k1 n "8192 + 16 + 1500" remove] False by auto
  qed
  then obtain k2 buf where 2: "?req = Some (k2, buf)" "room (heap k2) n" "same_core ?k1 k2" "handlers k2 = handlers ?k1" by blast
  obtain k3 l where 3: "start_rtl8139 d buf k2 = (k3, l)" by fastforce
  note st = start_rtl8139_core [of k2 d buf, unfolded 3 fst_conv snd_conv]
  have "boot_rtl8139 remove d k = Some (attach Rtl_irq l k3)"
    using 2(1) 3 unfolding boot_rtl8139_def Let_def by simp
  moreover have "same_core k (attach Rtl_irq l k3)" using 2(3) st by (auto simp: same_core_def)
  moreover have "taken_over d Rtl_irq k (attach Rtl_irq l k3)"
    using attach_handlers [of l d Rtl_irq k3] st 2(4) by (auto simp: taken_over_def)
  ultimately show ?thesis using 2(2) st by auto
qed

lemma start_pcnet_core:
  "same_core k (start_pcnet d rx tx rb tb i k) \<and> heap (start_pcnet d rx tx rb tb i k) = heap k
    \<and> taken_over d Pcnet_irq k (start_pcnet d rx tx rb tb i k)"
proof -
  obtain c s t l where p: "pcnet_initialize (pci_space k) d rx tx rb tb i (pcnet_card k) = (c, s, t, l)"
    using prod_cases4 by blast
  have "taken_over d Pcnet_irq (kwrite t (k\<lparr>pci_space := c, pcnet_card := s\<rparr>)) (start_pcnet d rx tx rb tb i k)"
    using attach_handlers [of l d] pcnet_line [of "pci_space k" d rx tx rb tb i "pcnet_card k" c s t] p
    by (simp add: start_pcnet_def)
  then show ?thesis using p by (simp add: start_pcnet_def same_core_def taken_over_def)
qed

lemma boot_pcnet_core:
  assumes "room (heap k) (82671 + n)"
  shows "\<exists>k'. boot_pcnet remove d k = Some k' \<and> room (heap k') n \<and> same_core k k' \<and> taken_over d Pcnet_irq k k'"
proof (cases "io_bar (pci_space k) d = 0")
  case True
  then show ?thesis
    using start_pcnet_core [of "kwrite (found_text ''PCNet'' d) k" d] room_less [OF assms, of n]
    by (auto simp: boot_pcnet_def same_core_def taken_over_def)
next
  case False
  let ?entered = "kwrite (found_text ''PCNet'' d) k"
  have u: "unat (16 * 32 + 16 :: u32) = 528" "unat (16 * 8 + 16 :: u32) = 144" "unat (2048 * 32 :: u32) = 65536"
    "unat (2048 * 8 :: u32) = 16384" "unat (28 + 16 :: u32) = 44" by simp_all
  have "room (heap ?entered) ((82136 + n) + unat (16 * 32 + 16 :: u32) + 7)" unfolding u using room_less [OF assms] by simp
  from heap_request_core [OF this, of remove] obtain k1 a1 where 1: "heap_request remove (16 * 32 + 16) ?entered = Some (k1, a1)"
      "room (heap k1) (82136 + n)" "same_core ?entered k1" "handlers k1 = handlers ?entered" unfolding u by auto
  have "room (heap k1) ((81985 + n) + unat (16 * 8 + 16 :: u32) + 7)" unfolding u using room_less [OF 1(2)] by simp
  from heap_request_core [OF this, of remove] obtain k2 a2 where 2: "heap_request remove (16 * 8 + 16) k1 = Some (k2, a2)"
      "room (heap k2) (81985 + n)" "same_core k1 k2" "handlers k2 = handlers k1" unfolding u by auto
  have "room (heap k2) ((16442 + n) + unat (2048 * 32 :: u32) + 7)" unfolding u using room_less [OF 2(2)] by simp
  from heap_request_core [OF this, of remove] obtain k3 a3 where 3: "heap_request remove (2048 * 32) k2 = Some (k3, a3)"
      "room (heap k3) (16442 + n)" "same_core k2 k3" "handlers k3 = handlers k2" unfolding u by auto
  have "room (heap k3) ((51 + n) + unat (2048 * 8 :: u32) + 7)" unfolding u using room_less [OF 3(2)] by simp
  from heap_request_core [OF this, of remove] obtain k4 a4 where 4: "heap_request remove (2048 * 8) k3 = Some (k4, a4)"
      "room (heap k4) (51 + n)" "same_core k3 k4" "handlers k4 = handlers k3" unfolding u by auto
  have "room (heap k4) (n + unat (28 + 16 :: u32) + 7)" unfolding u using room_less [OF 4(2)] by simp
  from heap_request_core [OF this, of remove] obtain k5 a5 where 5: "heap_request remove (28 + 16) k4 = Some (k5, a5)"
      "room (heap k5) n" "same_core k4 k5" "handlers k5 = handlers k4" unfolding u by auto
  let ?last = "start_pcnet d a1 a2 a3 a4 a5 k5"
  have "boot_pcnet remove d k = Some ?last"
    using False 1(1) 2(1) 3(1) 4(1) 5(1) unfolding boot_pcnet_def Let_def by simp
  moreover have "same_core ?entered ?last" using 1(3) 2(3) 3(3) 4(3) 5(3) start_pcnet_core [of k5] by (blast intro: same_core_trans)
  moreover have "taken_over d Pcnet_irq k ?last"
    using start_pcnet_core [of k5 d a1 a2 a3 a4 a5] 1(4) 2(4) 3(4) 4(4) 5(4) by (simp add: taken_over_def)
  ultimately show ?thesis using 5(2) start_pcnet_core [of k5 d a1 a2 a3 a4 a5] by (auto simp: same_core_def)
qed

lemma boot_network_core:
  assumes "room (heap k) (82671 + n)"
  shows "\<exists>k'. boot_network remove k = Some k' \<and> room (heap k') n \<and> same_core k k'
    \<and> (handlers k' = handlers k \<or> (\<exists>d \<in> set (pci_scan (pci_space k)). \<exists>v. taken_over d v k k'))"
proof (cases "find (\<lambda>d. is_rtl8139 d \<or> is_pcnet d) (pci_scan (pci_space k))")
  case None
  then show ?thesis using room_less [OF assms, of n] by (simp add: boot_network_def same_core_def Let_def)
next
  case (Some d)
  let ?k = "k\<lparr>pci_found := pci_scan (pci_space k)\<rparr>"
  have d: "d \<in> set (pci_scan (pci_space k))" using Some by (auto simp: find_Some_iff)
  have r: "room (heap ?k) (9715 + n)" "room (heap ?k) (82671 + n)" using assms room_less [OF assms, of "9715 + n"] by simp_all
  have "\<exists>k' v. boot_network remove k = Some k' \<and> room (heap k') n \<and> same_core ?k k' \<and> taken_over d v ?k k'"
    using boot_rtl8139_core [OF r(1), of remove d] boot_pcnet_core [OF r(2), of remove d] Some
    by (auto simp: boot_network_def Let_def)
  then show ?thesis using d by (auto simp: same_core_def taken_over_def)
qed

end
