(* ===== verification/Startup.thy ===== *)
theory Startup
  imports BootFacts
begin

text \<open>
  The properties of \<open>kernel_main\<close> as a whole, on a machine with one memory region behind 1 MiB that is large
  enough for the kernel image, the bitmap and the heap.
\<close>

definition heap_top :: "image \<Rightarrow> multiboot_info \<Rightarrow> nat" where
  "heap_top img mbt = unat (kernel_end img) + unat (mem_size mbt) div 256 + 4096 + 4194304"

definition good_machine :: "image \<Rightarrow> mem \<Rightarrow> multiboot_info \<Rightarrow> bool" where
  "good_machine img phys mbt \<longleftrightarrow>
     (let len = le32 phys (unat (mmap_addr mbt) + 12)
      in one_region phys (mmap_addr mbt) len \<and> mmap_length mbt = 24 \<and> 0x100000 \<le> unat (kernel_end img)
         \<and> heap_top img mbt \<le> 0x100000 + unat len \<and> heap_top img mbt + 131072 \<le> unat (mem_size mbt)
         \<and> heap_top img mbt \<le> 4293918720)"

lemma step_fields [simp]:
  "heap (announce t k) = heap k" "heap (report_ok k) = heap k" "heap (banner k) = heap k" "heap (boot_gdt k) = heap k"
  "heap (boot_idt img k) = heap k" "heap (ready_lines k) = heap k" "sched (announce t k) = sched k"
  "sched (report_ok k) = sched k" "sched (banner k) = sched k" "sched (boot_gdt k) = sched k"
  "sched (boot_idt img k) = sched k" "sched (ready_lines k) = sched k" "memory (announce t k) = memory k"
  "memory (report_ok k) = memory k" "memory (banner k) = memory k" "memory (boot_gdt k) = memory k"
  "memory (boot_idt img k) = memory k" "memory (ready_lines k) = memory k" "filesys (announce t k) = filesys k"
  "filesys (report_ok k) = filesys k" "filesys (banner k) = filesys k" "filesys (boot_gdt k) = filesys k"
  "filesys (boot_idt img k) = filesys k" "filesys (ready_lines k) = filesys k" "handlers (announce t k) = handlers k"
  "handlers (report_ok k) = handlers k" "handlers (banner k) = handlers k" "handlers (boot_gdt k) = handlers k"
  "handlers (boot_idt img k) = handlers k" "handlers (ready_lines k) = handlers k"
  "interrupts_on (announce t k) = interrupts_on k" "interrupts_on (report_ok k) = interrupts_on k"
  "interrupts_on (banner k) = interrupts_on k" "interrupts_on (boot_gdt k) = interrupts_on k"
  "interrupts_on (boot_idt img k) = interrupts_on k" "interrupts_on (ready_lines k) = interrupts_on k"
  "pci_space (announce t k) = pci_space k" "pci_space (report_ok k) = pci_space k"
  "pci_space (banner k) = pci_space k" "pci_space (boot_gdt k) = pci_space k"
  "pci_space (boot_idt img k) = pci_space k" "pci_space (ready_lines k) = pci_space k"
  by (simp_all add: announce_def report_ok_def banner_def boot_gdt_def boot_idt_def ready_lines_def split_beta Let_def)

lemma unat_heap_start:
  assumes "good_machine img phys mbt"
  shows "unat (heap_start img mbt) = unat (kernel_end img) + unat (mem_size mbt) div 256 + 4096"
proof -
  have t: "heap_top img mbt \<le> 4293918720" using assms by (simp add: good_machine_def Let_def)
  have d: "unat (mem_size mbt div 32 div 8) = unat (mem_size mbt) div 256"
    by (simp add: unat_div div_mult2_eq [symmetric])
  have 1: "unat (kernel_end img + mem_size mbt div 32 div 8) = unat (kernel_end img) + unat (mem_size mbt) div 256"
    using t d unat_add_u32 [of "kernel_end img" "mem_size mbt div 32 div 8"] unfolding heap_top_def by linarith
  then show ?thesis
    using t unat_add_u32 [of "kernel_end img + mem_size mbt div 32 div 8" 4096] unfolding heap_start_def heap_top_def by simp
qed

lemma boot_heap_room:
  assumes "good_machine img phys mbt"
  shows "room (heap (boot_heap img mbt k)) 4194304"
proof -
  let ?s = "heap_start img mbt"
  note s = unat_heap_start [OF assms]
  have t: "unat ?s + 4194304 \<le> 4293918720" "0 < unat ?s"
    using assms s by (simp_all add: good_machine_def heap_top_def Let_def)
  have e: "unat (?s + 4194304) = unat ?s + 4194304" using t unat_add_u32 [of ?s 4194304] by simp
  have "?s \<noteq> 0" using t(2) by auto
  moreover have "unat ?s \<le> (unat (?s + 4194304) + 7) div 8 * 8" using e by simp
  ultimately show ?thesis using t e by (simp add: room_def kheap_ok_def boot_heap_def kheap_initialize_def)
qed

text \<open>The frames of the machine after \<open>load_memory_map\<close>, and after the tables of \<open>Paging::initialize\<close>.\<close>

lemma boot_frames_free:
  assumes g: "good_machine img phys mbt"
  shows "\<exists>q. boot_memory phys p (mmap_addr mbt) (mmap_length mbt) (kernel_end img) (mem_size mbt) = Some q \<and> frame_ok q
    \<and> (\<forall>n. unat (kernel_end img) \<le> 4096 * n \<and> 4096 * n < heap_top img mbt \<longrightarrow> \<not> test_block q (of_nat n) \<and> n < buckets q * 32)"
proof -
  let ?len = "le32 phys (unat (mmap_addr mbt) + 12)"
  have a: "one_region phys (mmap_addr mbt) ?len" "mmap_length mbt = 24" "0x100000 \<le> unat (kernel_end img)"
    "heap_top img mbt \<le> 0x100000 + unat ?len" "heap_top img mbt + 131072 \<le> unat (mem_size mbt)" "heap_top img mbt \<le> 4293918720"
    using g by (simp_all add: good_machine_def Let_def)
  have ke: "kernel_end img \<le> 0xFFFFF000" using a(6) by (simp add: word_le_nat_alt heap_top_def)
  have "4096 \<le> unat (mem_size mbt)" using a(5) by linarith
  from boot_memory_frees [OF a(1,3) ke this, of p] obtain q where
    q: "boot_memory phys p (mmap_addr mbt) 24 (kernel_end img) (mem_size mbt) = Some q" "frame_ok q" "max_blocks q = mem_size mbt div 4096"
    and free: "\<And>n. unat (kernel_end img) \<le> 4096 * n \<Longrightarrow> 4096 * n < 0x100000 + unat ?len \<Longrightarrow> 4096 * n < 4294963199
      \<Longrightarrow> \<not> test_block q (of_nat n)" by blast
  have "n < buckets q * 32" if "4096 * n < heap_top img mbt" for n
  proof -
    have "4096 * (n + 32) \<le> unat (mem_size mbt)" using that a(5) unfolding add_mult_distrib2 by simp
    then have "n + 32 \<le> unat (mem_size mbt) div 4096" by (simp add: less_eq_div_iff_mult_less_eq)
    moreover have "m < m div 32 * 32 + 32" for m :: nat by (simp add: dividend_less_div_times)
    ultimately have "n + 32 < unat (mem_size mbt) div 4096 div 32 * 32 + 32" by (meson le_less_trans)
    then show ?thesis by (simp add: buckets_def q(3) unat_div)
  qed
  then show ?thesis using q(1,2) free a(2,4,6) by (intro exI [of _ q]) (auto intro!: free)
qed

lemma frame_for_readme:
  assumes g: "good_machine img phys mbt" and q: "frame_ok q"
    "\<forall>n. unat (kernel_end img) \<le> 4096 * n \<and> 4096 * n < heap_top img mbt \<longrightarrow> \<not> test_block q (of_nat n) \<and> n < buckets q * 32"
  shows "snd (allocate_block (frames (paging_initialize (m\<lparr>frames := q\<rparr>)))) \<noteq> 0"
proof -
  let ?b = "(unat (kernel_end img) + 4095) div 4096"
  have "unat (kernel_end img) \<le> 4096 * ?b" "4096 * ?b \<le> unat (kernel_end img) + 4095" by linarith+
  then have r: "unat (kernel_end img) \<le> 4096 * (?b + i) \<and> 4096 * (?b + i) < heap_top img mbt" if "i \<le> 17" for i
    using that unfolding heap_top_def add_mult_distrib2 by (intro conjI; linarith)
  have "snd (allocate_block (fst (allocs allocate_block 17 q))) \<noteq> 0"
  proof (rule frame_left [OF q(1), of 17 ?b])
    show "\<forall>i\<le>17. \<not> test_block q (of_nat (?b + i))" using q(2) r by blast
    show "?b + 17 < buckets q * 32" using q(2) r [of 17] by blast
  qed
  then show ?thesis by (simp add: paging_frames)
qed

section \<open>The sequence\<close>

lemma boot_core_room:
  assumes "good_machine img phys mbt"
  shows "\<exists>k p. boot_core remove img phys mbt k0 = Some k \<and> room (heap k) 4185994 \<and> sched_ok (sched k) [p]
    \<and> current_process (sched k) = p \<and> unat p < unat (current_addr (heap k)) \<and> interrupts_on k
    \<and> snd (allocate_block (frames (memory k))) \<noteq> 0 \<and> filesys k = filesys k0 \<and> pci_space k = pci_space k0
    \<and> handlers k 32 = Some Timer_irq \<and> handlers k 33 = Some Keyboard_irq"
proof -
  define a1 where "a1 = announce ''Initializing PMM... '' (report_ok (boot_idt img (announce ''Initializing IDT... ''
     (report_ok (boot_gdt (announce ''Initializing GDT... '' (banner k0)))))))"
  obtain fr where fr: "boot_memory phys (frames (memory a1)) (mmap_addr mbt) (mmap_length mbt) (kernel_end img) (mem_size mbt) = Some fr"
    "frame_ok fr" "\<forall>n. unat (kernel_end img) \<le> 4096 * n \<and> 4096 * n < heap_top img mbt \<longrightarrow> \<not> test_block fr (of_nat n) \<and> n < buckets fr * 32"
    using boot_frames_free [OF assms] by blast
  define a2 where "a2 = a1\<lparr>memory := (memory a1)\<lparr>frames := fr\<rparr>\<rparr>"
  have b2: "boot_frames img phys mbt a1 = Some a2" using fr(1) by (simp add: boot_frames_def a2_def)
  define a3 where "a3 = announce ''Initializing Scheduler... '' (report_ok (boot_paging (announce ''Initializing Paging... ''
     (report_ok (boot_heap img mbt (announce ''Initializing KHeap... '' (report_ok a2)))))))"
  have m3: "memory a3 = paging_initialize (memory a2)" "filesys a3 = filesys k0" "pci_space a3 = pci_space k0"
    by (simp_all add: a3_def boot_paging_def boot_heap_def a2_def a1_def)
  have "heap a3 = heap (boot_heap img mbt a2)" by (simp add: a3_def boot_paging_def boot_heap_def)
  then have r3: "room (heap a3) (8310 + 4185994)" using boot_heap_room [OF assms] by simp
  obtain h4 s4 p where 4: "boot_scheduler remove a3 = Some (a3\<lparr>heap := h4, sched := s4\<rparr>)" "room h4 4185994" "sched_ok s4 [p]"
    "current_process s4 = p" "unat p < unat (current_addr h4)"
    using boot_scheduler_room [OF r3, of remove] by blast
  define a5 where "a5 = announce ''Initializing Timer... '' (report_ok (install 33 Keyboard_irq (announce ''Initializing Keyboard... ''
     (report_ok (a3\<lparr>heap := h4, sched := s4\<rparr>)))))"
  obtain io where io: "pit_initialize 100 (kports a5) = Some io" by (simp add: pit_initialize_def)
  define a6 where "a6 = report_ok ((announce ''Enabling Interrupts... ''
     (report_ok ((install 32 Timer_irq a5)\<lparr>kports := io\<rparr>)))\<lparr>interrupts_on := True\<rparr>)"
  have b6: "boot_timer 100 a5 = Some ((install 32 Timer_irq a5)\<lparr>kports := io\<rparr>)" using io by (simp add: boot_timer_def)
  have run: "boot_core remove img phys mbt k0 = Some a6"
    unfolding boot_core_def Let_def a1_def [symmetric] b2 Option.bind_lunit a3_def [symmetric] 4(1) a5_def [symmetric] b6 a6_def [symmetric]
    by (rule refl)
  have f6: "heap a6 = h4" "sched a6 = s4" "memory a6 = memory a3" "filesys a6 = filesys a3" "interrupts_on a6"
    "pci_space a6 = pci_space a3" "handlers a6 32 = Some Timer_irq" "handlers a6 33 = Some Keyboard_irq"
    by (simp_all add: a6_def a5_def install_def register_irq_handler_def)
  have "snd (allocate_block (frames (memory a6))) \<noteq> 0"
    using frame_for_readme [OF assms fr(2,3)] by (simp add: f6 m3 a2_def)
  then show ?thesis using run 4 f6 m3 by (intro exI [of _ a6] exI [of _ p]) simp
qed

lemma boot_devices_room:
  assumes r: "room (heap k0) 4185994" and frame: "snd (allocate_block (frames (memory k0))) \<noteq> 0" and fresh: "fresh_fs (filesys k0)"
  shows "\<exists>k d. boot_devices remove k0 = Some k \<and> room (heap k) 8310 \<and> sched k = sched k0 \<and> interrupts_on k = interrupts_on k0
    \<and> unat (current_addr (heap k0)) \<le> unat (current_addr (heap k)) \<and> tree_ok (filesys k) d \<and> mesa_wf (filesys k)
    \<and> slot_of (filesys k) (bytes ''readme.txt'' @ [0]) = Some 0
    \<and> (handlers k = handlers k0 \<or> (\<exists>dev \<in> set (pci_scan (pci_space k0)). \<exists>v. taken_over dev v k0 k))"
proof -
  define a6 where "a6 = announce ''Initializing RAMFS... '' k0"
  have "room (heap a6) (573 + 4185421)" "snd (allocate_block (frames (memory a6))) \<noteq> 0" "fresh_fs (filesys a6)"
    using assms by (simp_all add: a6_def)
  then obtain h7 m7 io7 t7 d where 7: "boot_storage remove a6 = Some (a6\<lparr>heap := h7, memory := m7, kports := io7, filesys := t7\<rparr>)"
    "room h7 4185421" "unat (current_addr (heap a6)) \<le> unat (current_addr h7)" "tree_ok t7 d" "mesa_wf t7"
    "slot_of t7 (bytes ''readme.txt'' @ [0]) = Some 0"
    using boot_storage_room [of a6 4185421 remove] by blast
  define a8 where "a8 = announce ''Initializing Networking... '' (kwrite [10] (report_ok (announce ''Mounting MesaFS on /disk... ''
     (report_ok (announce ''Initializing Disk Drive... '' (report_ok (a6\<lparr>heap := h7, memory := m7, kports := io7, filesys := t7\<rparr>)))))))"
  have f8: "heap a8 = h7" "sched a8 = sched k0" "filesys a8 = t7" "interrupts_on a8 = interrupts_on k0" "pci_space a8 = pci_space k0"
    "handlers a8 = handlers k0"
    by (simp_all add: a8_def a6_def)
  have "room (heap a8) (82671 + 4102750)" using 7(2) f8(1) by simp
  from boot_network_core [OF this, of remove] obtain a9 where 9: "boot_network remove a8 = Some a9" "room (heap a9) 4102750" "same_core a8 a9"
    "handlers a9 = handlers a8 \<or> (\<exists>dev \<in> set (pci_scan (pci_space k0)). \<exists>v. taken_over dev v a8 a9)"
    using f8(5) by auto
  let ?k = "ready_lines (kwrite [10] (report_ok a9))"
  have "boot_devices remove k0 = Some ?k"
    unfolding boot_devices_def Let_def a6_def [symmetric] 7(1) Option.bind_lunit a8_def [symmetric] 9(1) by (rule refl)
  moreover have "room (heap ?k) 8310" using room_less [OF 9(2)] by simp
  moreover have "unat (current_addr (heap k0)) \<le> unat (current_addr (heap ?k))"
    using 7(3) 9(3) f8(1) by (simp add: same_core_def a6_def)
  moreover have "handlers ?k = handlers k0 \<or> (\<exists>dev \<in> set (pci_scan (pci_space k0)). \<exists>v. taken_over dev v k0 ?k)"
    using 9(4) f8(6) by (simp add: taken_over_def)
  ultimately show ?thesis using 9(3) f8 7(4-6) by (intro exI [of _ ?k] exI [of _ d]) (simp add: same_core_def)
qed

lemma other_lines: "l \<notin> {0, 1} \<Longrightarrow> 32 + l \<noteq> (32 :: u8) \<and> 32 + l \<noteq> 33"
  using add_left_cancel [of 32 l 0] add_left_cancel [of 32 l 1] by auto


section \<open>A machine\<close>

text \<open>128 MiB, the kernel up to 2 MiB, nothing on the bus.\<close>

definition sample_image :: image where
  "sample_image = \<lparr>kernel_end = 0x200000, isr_stub = (\<lambda>n. 0x101000 + of_nat n * 16), irq_stub = (\<lambda>n. 0x102000 + of_nat n * 16),
     syscall_stub = 0x103000, shell_entry = 0x104000\<rparr>"

definition sample_map :: mem where
  "sample_map = (\<lambda>i. mem_of [20, 0, 0, 0, 0, 0, 16, 0, 0, 0, 0, 0, 0, 0, 240, 7, 0, 0, 0, 0, 1, 0, 0, 0] (i - 65536))"

definition sample_info :: multiboot_info where
  "sample_info = \<lparr>mem_lower = 640, mem_upper = 130048, mmap_length = 24, mmap_addr = 65536\<rparr>"

definition sample_kernel :: kernel where
  "sample_kernel = \<lparr>kconsole = vga_boot, gdt = replicate 5 zero_gdt, gdtr_limit = 0, idt = [], idtr_limit = 0,
     kports = \<lparr>inputs = [], trace = []\<rparr>,
     memory = \<lparr>frames = pmm0, ram = (\<lambda>_. 0), page_directory = 0, kernel_directory = 0, aslr_seed = 0, cr0 = 0, cr3 = 0\<rparr>,
     heap = \<lparr>current_addr = 0, end_addr = 0\<rparr>,
     sched = \<lparr>procs = (\<lambda>_. \<lparr>pid = 0, name = [], pstate = READY, stack_ptr = 0, nxt = 0\<rparr>), stacks = (\<lambda>_. zero_registers),
       process_list = 0, current_process = 0, next_pid = 0\<rparr>,
     handlers = Map.empty, interrupts_on = False, filesys = fs_boot0, pci_space = (\<lambda>_. 0xFFFFFFFF), pci_found = [],
     rtl_card = \<lparr>rtl_io_base = 0, rx_memory = (\<lambda>_. 0), rtl_mac_address = [], rx_offset = 0, tx_desc = 0, rtl_ports = \<lparr>inputs = [], trace = []\<rparr>\<rparr>,
     pcnet_card = \<lparr>pc_io_base = 0, pc_mac_address = [], rx_ring = [], tx_ring = [], rx_ring_at = 0, tx_ring_at = 0,
       rx_buffers = (\<lambda>_. 0), tx_buffers = (\<lambda>_. 0), rx_index = 0, tx_index = 0, pc_init_block = [], pc_ports = \<lparr>inputs = [], trace = []\<rparr>\<rparr>\<rparr>"

lemma sample_machine: "good_machine sample_image sample_map sample_info"
  by (simp add: good_machine_def sample_image_def sample_map_def sample_info_def heap_top_def mem_size_def one_region_def
      le32_def mem_of_def Let_def)


section \<open>Memory that start-up does not reserve\<close>



end
