(* ===== verification/Terminal.thy ===== *)
theory Terminal
  imports Keyboard ShellFacts
begin

text \<open>
  From the keyboard to the shell: the interrupts of \<open>drivers/keyboard.cpp\<close> with what their calls do to the
  console of \<open>VGA\<close> and to the shell. The shell runs inside the interrupt, so a key is finished before the next
  one is read. \<open>other\<close> is what handlers installed with \<open>set_input_handler\<close> do.
\<close>

section \<open>Interrupts\<close>

definition key_effect ::
    "(ipv6 \<Rightarrow> ipv6) \<Rightarrow> ('h \<Rightarrow> u8 \<Rightarrow> system \<Rightarrow> system option) \<Rightarrow> bool \<Rightarrow> 'h key_event \<Rightarrow> system \<Rightarrow> system option" where
  "key_effect poll other ctrl e s =
     (case e of
        Scroll_up \<Rightarrow> Some (s\<lparr>display := scroll_up (display s)\<rparr>)
      | Scroll_down \<Rightarrow> Some (s\<lparr>display := scroll_down (display s)\<rparr>)
      | Switch_tty n \<Rightarrow> Some (s\<lparr>display := switch_tty n (display s)\<rparr>)
      | Signal n \<Rightarrow> handle_signal (int n) s
      | To_shell c \<Rightarrow> handle_input poll ctrl c s
      | To_handler h c \<Rightarrow> other h c s)"

fun key_effects ::
    "(ipv6 \<Rightarrow> ipv6) \<Rightarrow> ('h \<Rightarrow> u8 \<Rightarrow> system \<Rightarrow> system option) \<Rightarrow> bool \<Rightarrow> 'h key_event list \<Rightarrow> system \<Rightarrow> system option" where
  "key_effects poll other ctrl [] s = Some s"
| "key_effects poll other ctrl (e # es) s = key_effect poll other ctrl e s \<bind> key_effects poll other ctrl es"

definition key_irq ::
    "(ipv6 \<Rightarrow> ipv6) \<Rightarrow> ('h \<Rightarrow> u8 \<Rightarrow> system \<Rightarrow> system option) \<Rightarrow> 'h keyboard \<Rightarrow> ports \<Rightarrow> system
      \<Rightarrow> ('h keyboard \<times> ports \<times> system) option" where
  "key_irq poll other k io s =
     (case keyboard_callback (running (editor s)) k io of
        (k1, es, io1) \<Rightarrow> map_option (\<lambda>s1. (k1, io1, s1)) (key_effects poll other (ctrl_pressed k1) es s))"

fun key_irqs ::
    "(ipv6 \<Rightarrow> ipv6) \<Rightarrow> ('h \<Rightarrow> u8 \<Rightarrow> system \<Rightarrow> system option) \<Rightarrow> nat \<Rightarrow> 'h keyboard \<Rightarrow> ports \<Rightarrow> system
      \<Rightarrow> ('h keyboard \<times> ports \<times> system) option" where
  "key_irqs poll other 0 k io s = Some (k, io, s)"
| "key_irqs poll other (Suc n) k io s = key_irq poll other k io s \<bind> (\<lambda>(k1, io1, s1). key_irqs poll other n k1 io1 s1)"

section \<open>Scan codes\<close>

text \<open>The same on a list of scan codes, without the ports.\<close>

fun scan_effects ::
    "(ipv6 \<Rightarrow> ipv6) \<Rightarrow> ('h \<Rightarrow> u8 \<Rightarrow> system \<Rightarrow> system option) \<Rightarrow> u8 list \<Rightarrow> 'h keyboard \<Rightarrow> system
      \<Rightarrow> ('h keyboard \<times> system) option" where
  "scan_effects poll other [] k s = Some (k, s)"
| "scan_effects poll other (sc # scs) k s =
     (case handle_scancode (running (editor s)) sc k of
        (k1, es) \<Rightarrow> key_effects poll other (ctrl_pressed k1) es s \<bind> scan_effects poll other scs k1)"

definition read_key :: "ports \<Rightarrow> ports" where
  "read_key io = snd (inb 0x60 io)"

lemma inputs_read_key [simp]: "inputs (read_key io) = tl (inputs io)"
  by (cases "inputs io") (simp_all add: read_key_def inb_def next_input_def)

lemma key_irqs_scan:
  "inputs io = map ucast scs @ rest \<Longrightarrow> \<forall>sc \<in> set scs. sc \<noteq> 0 \<and> sc \<noteq> 0xFF
     \<Longrightarrow> key_irqs poll other (length scs) k io s =
           map_option (\<lambda>(k1, s1). (k1, (read_key ^^ length scs) io, s1)) (scan_effects poll other scs k s)"
proof (induction scs arbitrary: k io s)
  case (Cons sc scs)
  have "inb 0x60 io = (sc, read_key io)"
    using Cons.prems(1) by (simp add: read_key_def inb_def next_input_def ucast_down_ucast_id is_down)
  then have "keyboard_callback (running (editor s)) k io =
      (fst (handle_scancode (running (editor s)) sc k), snd (handle_scancode (running (editor s)) sc k), read_key io)"
    using Cons.prems(2) by (simp add: keyboard_callback_def split_beta)
  then show ?case
    using Cons.IH [of "read_key io"] Cons.prems
    by (auto simp: key_irq_def funpow_swap1 split_beta split: bind_splits)
qed simp

lemma scan_effects_append:
  "scan_effects poll other (a @ b) k s = scan_effects poll other a k s \<bind> (\<lambda>(k1, s1). scan_effects poll other b k1 s1)"
  by (induction a arbitrary: k s) (auto split: bind_splits prod.splits)

text \<open>One key, shift around it or not, is one call of the shell.\<close>

lemma stroke_effect:
  assumes "good_stroke c p" and "idle k" and "current_input_handler k = Shell_input"
  shows "scan_effects poll other (stroke p) k s = map_option (Pair k) (handle_input poll False c s)"
  using assms
  by (cases "fst p"; cases "handle_input poll False c s")
    (auto simp: stroke_def handle_scancode_def good_stroke_def idle_def key_char_def send_char_def key_effect_def Let_def)

lemma text_effect:
  assumes "list_all typable txs" and "idle k" and "current_input_handler k = Shell_input"
  shows "scan_effects poll other (type_text txs) k s = map_option (Pair k) (type_keys poll txs s)"
  using assms(1)
proof (induction txs arbitrary: s)
  case Nil
  then show ?case by (simp add: type_text_def)
next
  case (Cons c txs)
  then obtain p where p: "key_for c = Some p" "good_stroke c p" using typable_key [of c] by auto
  then have "type_text (c # txs) = stroke p @ type_text txs" by (simp add: type_text_def)
  then show ?case
    using Cons stroke_effect [OF p(2) assms(2,3), of poll other s]
    by (cases "handle_input poll False c s") (simp_all add: scan_effects_append)
qed

text \<open>C9. A command typed on the keyboard runs: with no modifier pressed and an empty line, the make and
  break codes of a text of printable characters and backspaces and of Enter, read by one interrupt each,
  make the shell execute exactly the edited line, once, in a state that differs from the one before only in
  the console, the line and the history; the keyboard ends as it began, every code is consumed, and the
  prompt is shown again.\<close>

theorem keys_run_command:
  assumes k: "idle k" "current_input_handler k = Shell_input" and chars: "list_all typable typed" "list_all line_key typed"
    and s: "line_holds [] s" "length (history s) = 10" "history_count s \<le> 10"
    and io: "inputs io = map ucast (type_text (typed @ [10])) @ rest"
  shows "\<exists>io' d b i h n c. inputs io' = rest \<and> cstr b = fold line_edit typed []
    \<and> key_irqs poll other (length (type_text (typed @ [10]))) k io s =
        map_option (\<lambda>t. (k, io', prompt (t\<lparr>buffer_index := 0\<rparr>)))
          (execute_command poll (fold line_edit typed []) (s\<lparr>display := d, command_buffer := b, buffer_index := i, history := h,
             history_count := n, history_cursor := c\<rparr>))"
proof -
  let ?scs = "type_text (typed @ [10])"
  have ty: "list_all typable (typed @ [10])" using chars(1) by (simp add: typable_def)
  obtain d b i h n c where run: "cstr b = fold line_edit typed []"
    "type_keys poll (typed @ [10]) s = map_option (\<lambda>t. prompt (t\<lparr>buffer_index := 0\<rparr>))
      (execute_command poll (fold line_edit typed []) (s\<lparr>display := d, command_buffer := b, buffer_index := i, history := h,
         history_count := n, history_cursor := c\<rparr>))"
    using typed_line_executes [OF s(1) chars(2) s(2,3), of poll] by blast
  have "inputs ((read_key ^^ m) io) = drop m (inputs io)" for m
    by (induction m) (simp_all add: drop_Suc tl_drop)
  then have "inputs ((read_key ^^ length ?scs) io) = rest" using io by simp
  moreover have "key_irqs poll other (length ?scs) k io s =
      map_option (\<lambda>s1. (k, (read_key ^^ length ?scs) io, s1)) (type_keys poll (typed @ [10]) s)"
    using key_irqs_scan [OF io type_text_codes [OF ty], of poll other k s] text_effect [OF ty k, of poll other s]
    by (simp add: option.map_comp comp_def)
  ultimately show ?thesis using run
    by (intro exI [of _ "(read_key ^^ length ?scs) io"] exI [of _ d] exI [of _ b] exI [of _ i] exI [of _ h] exI [of _ n] exI [of _ c])
      (simp add: option.map_comp comp_def)
qed

theorem keys_run_command_witness:
  "\<exists>io' t. key_irqs (\<lambda>n. n) (\<lambda>(h :: unit) c. Some) (length (type_text ([0x68, 8] @ [10]))) keyboard0
      \<lparr>inputs = map ucast (type_text ([0x68, 8] @ [10])), trace = []\<rparr> system0 = Some (keyboard0, io', t) \<and> inputs io' = []"
proof -
  have pre: "idle (keyboard0 :: unit keyboard)" "current_input_handler (keyboard0 :: unit keyboard) = Shell_input"
    "list_all typable [0x68, 8]" "list_all line_key [0x68, 8]" "line_holds [] system0" "length (history system0) = 10"
    "history_count system0 \<le> 10"
    by (simp_all add: idle_def keyboard0_def typable_def line_holds_def line_key_def system0_def desktop.defs)
  have empty: "fold line_edit [0x68, 8] [] = []" by (simp add: line_edit_def)
  have "execute_command (\<lambda>n. n) [] s \<noteq> None" for s
    by (subst execute_command.simps)
      (simp add: cut_at_def plain_command_def no_redirect start_redirect_def split_args_def run_command_def other_command_def bytes_def)
  then show ?thesis
    using keys_run_command [OF pre, of "\<lparr>inputs = map ucast (type_text ([0x68, 8] @ [10])), trace = []\<rparr>" "[]" "\<lambda>n. n" "\<lambda>h c. Some"]
    unfolding empty by fastforce
qed

end
