(* ===== verification/TestApp.thy ===== *)
theory TestApp
  imports Shell
begin

text \<open>
  The test application, \<open>apps/test.cpp\<close>: a screen of text on the console and the prompt of the shell. The flag
  \<open>running\<close> of the application is passed along; the delay loop has no counterpart.
\<close>

definition println :: "string \<Rightarrow> system \<Rightarrow> system" where
  "println str s = say (bytes str @ [10]) s"

definition test_title :: "system \<Rightarrow> system" where
  "test_title s =
     fold println ['''', ''========================================'', ''        MesaOS Test Package App         '',
       ''========================================''] (ink 11 0 (clear_screen s))"

definition test_greeting :: "system \<Rightarrow> system" where
  "test_greeting s =
     fold println ['''', ''Hello from MesaOS Package Manager!'', ''This application was downloaded from GitHub.'',
       ''Package installation system working! '', ''''] (ink 15 0 s)"

definition test_details :: "system \<Rightarrow> system" where
  "test_details s =
     fold println [''  Package Name: test'', ''  Repository: https://github.com/crackanimador/MesaOS-PKG'', ''  Version: 1.0'',
       ''  Status: Successfully Installed''] (ink 10 0 s)"

definition test_claims :: "system \<Rightarrow> system" where
  "test_claims s =
     fold println ['''', ''This demonstrates that MesaOS can:'', ''- Download packages from GitHub'', ''- Install ELF executables'',
       ''- Run installed applications'', ''- Display GUI-like interfaces''] (ink 15 0 s)"

definition test_run :: "bool \<times> system \<Rightarrow> bool \<times> system" where
  "test_run = (\<lambda>(test_running, s).
     let s1 = test_claims (test_details (test_greeting (test_title s)));
         s2 = println ''Press any key to exit this test application...'' (say [10] (ink 11 0 s1))
     in (False, prompt s2))"

text \<open>
  The application returns at once, without the key it asks for, and touches nothing but the console; since it
  clears the console with \<open>initialize\<close>, the contents of every terminal are lost.
\<close>

definition only_screen :: "system \<Rightarrow> system \<Rightarrow> bool" where
  "only_screen s t \<longleftrightarrow> (\<exists>d. t = s\<lparr>display := d\<rparr>)"

lemma only_screen_steps [intro]:
  "only_screen s t \<Longrightarrow> only_screen s (say text t)" "only_screen s t \<Longrightarrow> only_screen s (ink c b t)"
  "only_screen s t \<Longrightarrow> only_screen s (clear_screen t)" "only_screen s t \<Longrightarrow> only_screen s (println str t)"
  by (auto simp: only_screen_def say_def ink_def clear_screen_def println_def)

lemma only_screen_lines [intro]: "only_screen s t \<Longrightarrow> only_screen s (fold println strs t)"
  by (induction strs arbitrary: t) auto

lemma test_run_returns: "\<exists>d. test_run (r, s) = (False, s\<lparr>abort_requested := False, display := d\<rparr>)"
proof -
  have "only_screen s s" unfolding only_screen_def by (rule exI [of _ "display s"]) simp
  then have "only_screen s (println ''Press any key to exit this test application...'' (say [10] (ink 11 0
      (test_claims (test_details (test_greeting (test_title s)))))))"
    unfolding test_claims_def test_details_def test_greeting_def test_title_def by blast
  then show ?thesis
    by (auto simp: only_screen_def test_run_def say_def ink_def prompt_def Let_def)
qed

end
