(* ===== verification/Reception.thy ===== *)
theory Reception
  imports NIC NetStack
begin

text \<open>
  From a card's receive ring to the protocols: \<open>RTL8139::receive_packet\<close> and \<open>PCNet::receive_packet\<close> hand each
  frame to \<open>Ethernet::handle_packet\<close> before they look at the next one. What the handlers send meanwhile goes to
  the transmit registers and descriptors, which the receive loops do not read, so the frames are
  handed up behind the loop here.
\<close>

unbundle bit_operations_syntax

section \<open>Interrupts and polling\<close>

definition hand_up :: "frame list \<Rightarrow> 'a ipv6_scheme \<Rightarrow> 'a ipv6_scheme" where
  "hand_up = fold (\<lambda>(data, sz). ethernet_handle_packet data sz)"

definition rtl_interrupt :: "rtl \<Rightarrow> 'a ipv6_scheme \<Rightarrow> rtl \<times> 'a ipv6_scheme" where
  "rtl_interrupt s t = (let (fs, s1) = rtl_callback s in (s1, hand_up fs t))"

definition pcnet_interrupt :: "pcnet \<Rightarrow> 'a ipv6_scheme \<Rightarrow> pcnet \<times> 'a ipv6_scheme" where
  "pcnet_interrupt s t = (let (fs, s1) = pcnet_callback s in (s1, hand_up fs t))"

definition network_poll :: "pcnet \<Rightarrow> 'a ipv6_scheme \<Rightarrow> pcnet \<times> 'a ipv6_scheme" where
  "network_poll s t = (let (fs, s1) = pcnet_poll s in (s1, hand_up fs t))"

section \<open>Datagrams on the wire\<close>

text \<open>A datagram as it was sent, with the bytes a short frame is filled up with, and the frame on the wire.\<close>

record datagram =
  dg_from :: net
  dg_to :: u32
  dg_protocol :: u8
  dg_data :: "u8 list"
  dg_padding :: "u8 list"

definition on_wire :: "datagram \<Rightarrow> u8 list" where
  "on_wire d = last (wire (ipv4_send (dg_to d) (dg_protocol d) (dg_data d) (dg_from d))) @ dg_padding d"

definition sound :: "datagram \<Rightarrow> bool" where
  "sound d \<longleftrightarrow> length (get_mac_address (dg_from d)) = 6 \<and> length (cache_mac (dg_from d)) = 6 \<and> 20 + length (dg_data d) < 65536"

text \<open>What the protocol of a datagram does with its payload.\<close>

definition deliver :: "mem \<times> datagram \<Rightarrow> 'a ipv6_scheme \<Rightarrow> 'a ipv6_scheme" where
  "deliver = (\<lambda>(m, d). ipv4_dispatch (dg_protocol d) (my_ip (dg_from d)) m (of_nat (length (dg_data d))))"

definition payload_of :: "frame \<Rightarrow> mem" where
  "payload_of g = mem_at (fst g) 34"

lemma frame_delivered:
  assumes "sound d" and "frame_bytes g = on_wire d"
  shows "mem_bytes (payload_of g) (length (dg_data d)) = dg_data d"
    and "ethernet_handle_packet (fst g) (snd g) t = deliver (payload_of g, d) t"
proof -
  let ?data = "dg_data d" and ?s = "dg_from d"
  have macs: "length (get_mac_address ?s) = 6" and len: "20 + length ?data < 65536" using assms(1) by (simp_all add: sound_def)
  obtain mac where w: "on_wire d = frame_for mac (dg_to d) (dg_protocol d) ?data ?s @ dg_padding d" "length mac = 6"
    using datagram_dispatched(1) [OF _ _ _ refl, of ?s ?data "dg_to d" "dg_protocol d"] assms(1)
    by (auto simp: on_wire_def sound_def)
  let ?f = "frame_for mac (dg_to d) (dg_protocol d) ?data ?s"
  have l: "length ?f = 34 + length ?data" using w(2) macs by (simp add: frame_for_def)
  have n: "unat (snd g) = length ?f + length (dg_padding d)"
    using arg_cong [OF assms(2), of length] w(1) by (simp add: frame_bytes_def)
  have at: "fst g i = ?f ! i" if "i < 34 + length ?data" for i
    using mem_bytes_prefix_nth [of "fst g" "unat (snd g)" "on_wire d" i] assms(2) that n l w(1)
    by (simp add: frame_bytes_def nth_append)
  have f: "mem_bytes (fst g) (34 + length ?data) = ?f" using at l by (intro nth_equalityI) simp_all
  have "?f ! (34 + i) = ?data ! i" for i
    using w(2) macs by (simp add: frame_for_def nth_append)
  then show "mem_bytes (payload_of g) (length ?data) = ?data" using at unfolding payload_of_def by (intro nth_equalityI) simp_all
  show "ethernet_handle_packet (fst g) (snd g) t = deliver (payload_of g, d) t"
    unfolding deliver_def payload_of_def using ipv4_frame_dispatched [OF f w(2) macs len, of "snd g" t] n l by simp
qed

lemma frames_delivered:
  "list_all sound ds \<Longrightarrow> map frame_bytes gs = map on_wire ds \<Longrightarrow>
   list_all2 (\<lambda>m d. mem_bytes m (length (dg_data d)) = dg_data d) (map payload_of gs) ds
   \<and> hand_up gs t = fold deliver (zip (map payload_of gs) ds) t"
proof (induction ds arbitrary: gs t)
  case Nil
  then show ?case by (simp add: hand_up_def)
next
  case (Cons d ds)
  obtain g gs' where gs: "gs = g # gs'" using Cons.prems(2) by (cases gs) auto
  have d: "sound d" "frame_bytes g = on_wire d" using Cons.prems gs by simp_all
  note one = frame_delivered [OF d]
  have "list_all sound ds" "map frame_bytes gs' = map on_wire ds" using Cons.prems gs by simp_all
  note rest = Cons.IH [OF this, of "deliver (payload_of g, d) t"]
  have "hand_up gs t = hand_up gs' (ethernet_handle_packet (fst g) (snd g) t)" by (simp add: hand_up_def gs split_beta)
  then show ?case using one(1) rest by (simp add: one(2) gs)
qed

section \<open>The cards\<close>

text \<open>C13. Datagrams reach the protocols through the RTL8139: when the card signals a received packet and has stored the
  frames of the datagrams \<open>ds\<close> in its ring, padded or not, the interrupt hands the payload of each of them, with its length
  and its sender, to the protocol it was sent for, in the order of their arrival, whatever else
  lies in the ring, and the read offset ends behind the last frame.
\<close>

theorem rtl_delivers_datagrams:
  assumes "ring_holds (rx_memory s) (unat (rx_offset s)) (map on_wire ds)" and "unat (rx_offset s) < 8192" and "list_all sound ds"
    and "inputs (rtl_ports s) = status # looks @ none # rest" and "(ucast status :: u16) AND 1 \<noteq> 0"
    and "length looks = length ds" and "list_all (\<lambda>v. (ucast v :: u8) AND 1 = 0) looks" and "(ucast none :: u8) AND 1 \<noteq> 0"
  shows "\<exists>ms. list_all2 (\<lambda>m d. mem_bytes m (length (dg_data d)) = dg_data d) ms ds
       \<and> snd (rtl_interrupt s t) = fold deliver (zip ms ds) t
       \<and> unat (rx_offset (fst (rtl_interrupt s t))) = ring_end (unat (rx_offset s)) (map on_wire ds)"
proof -
  let ?io = "outw (reg (rtl_io_base s) 0x3E) (ucast status) (snd (inw (reg (rtl_io_base s) 0x3E) (rtl_ports s)))"
  let ?s1 = "s\<lparr>rtl_ports := ?io\<rparr>"
  have cb: "rtl_callback s = rtl_receive_packet ?s1"
    using assms(4,5) by (simp add: rtl_callback_def inw_def next_input_def)
  have "inputs (rtl_ports ?s1) = looks @ none # rest" using assms(4) by (simp add: inw_def outw_def next_input_def)
  with assms have r: "map frame_bytes (fst (rtl_receive_packet ?s1)) = map on_wire ds"
      "unat (rx_offset (snd (rtl_receive_packet ?s1))) = ring_end (unat (rx_offset s)) (map on_wire ds)"
    using rtl_receives_frames [of ?s1 "map on_wire ds" looks none rest] by simp_all
  show ?thesis
    using frames_delivered [OF assms(3) r(1), of t] r(2) unfolding rtl_interrupt_def cb by (auto simp: split_beta)
qed

definition datagram0 :: datagram where
  "datagram0 = \<lparr>dg_from = net0\<lparr>my_ip := 0x0100000A, rtl_mac := [2, 0, 0, 0, 0, 1]\<rparr>, dg_to = 0x0200000A, dg_protocol = 17,
     dg_data = [0, 67, 0, 68, 0, 9, 0, 0, 42], dg_padding = replicate 17 0\<rparr>"

lemma datagram0_facts: "sound datagram0" "length (on_wire datagram0) = 60" "length (dg_data datagram0) = 9"
proof -
  have s: "length (get_mac_address (dg_from datagram0)) = 6" "length (cache_mac (dg_from datagram0)) = 6"
    "20 + length (dg_data datagram0) < 65536"
    by (simp_all add: datagram0_def get_mac_address_def net0_def)
  then show "sound datagram0" by (simp add: sound_def)
  show "length (on_wire datagram0) = 60"
    using datagram_dispatched(2) [OF s refl, of "dg_to datagram0" "dg_protocol datagram0"] by (simp add: on_wire_def datagram0_def)
  show "length (dg_data datagram0) = 9" by (simp add: datagram0_def)
qed

definition rtl1 :: rtl where
  "rtl1 = rtl0\<lparr>rx_memory := mem_of ([1, 0, 64, 0] @ on_wire datagram0), rtl_ports := \<lparr>inputs = [1, 0, 1], trace = []\<rparr>\<rparr>"

theorem rtl_delivers_datagrams_witness:
  "\<exists>m. mem_bytes m 9 = dg_data datagram0 \<and> snd (rtl_interrupt rtl1 (machine 2)) = deliver (m, datagram0) (machine 2)"
proof -
  have "mem_at (mem_of ([1, 0, 64, 0] @ on_wire datagram0)) 4 = mem_of (on_wire datagram0)"
    by (simp add: mem_at_mem_of)
  then have "ring_holds (rx_memory rtl1) (unat (rx_offset rtl1)) (map on_wire [datagram0])"
    using datagram0_facts(2) by (simp add: rtl1_def rtl0_def le16_def mem_of_def)
  then show ?thesis
    using rtl_delivers_datagrams [of rtl1 "[datagram0]" 1 "[0]" 1 "[]" "machine 2"] datagram0_facts(1,3)
    by (auto simp: list_all2_Cons2 rtl1_def [THEN arg_cong [of _ _ rtl_ports]] rtl1_def [THEN arg_cong [of _ _ rx_offset]] rtl0_def)
qed

text \<open>C37. Datagrams reach the protocols through the PCNet card: a poll hands the frames of the descriptors the card has
  given up, from the read index around the ring to the first descriptor the card still owns, to the protocols
  they were sent for, in order and with their payload, gives exactly these descriptors back to the card and moves
  the read index past them. The safety counter of the source never cuts this short.
\<close>

theorem pcnet_delivers_datagrams:
  assumes "rx_index s < 32" and "length (rx_ring s) = 32" and "list_all sound ds"
    and "map (\<lambda>j. frame_bytes (frame_at s j)) (waiting 32 s) = map on_wire ds"
  shows "\<exists>ms. list_all2 (\<lambda>m d. mem_bytes m (length (dg_data d)) = dg_data d) ms ds
       \<and> network_poll s t = (emptied 32 s, fold deliver (zip ms ds) t)"
proof -
  have "map frame_bytes (map (frame_at s) (waiting 32 s)) = map on_wire ds" using assms(4) by (simp add: comp_def)
  from frames_delivered [OF assms(3) this, of t] show ?thesis
    unfolding network_poll_def pcnet_poll_def pcnet_takes_waiting_frames [OF assms(1,2)] by (auto simp: split_beta)
qed

definition pcnet1 :: pcnet where
  "pcnet1 = pcnet0\<lparr>rx_index := 0, rx_ring := (rx_ring_for 0)[0 := \<lparr>d_address = 0, d_status = 0x03000000, d_status2 = 60, d_res = 0\<rparr>],
     rx_buffers := mem_of (on_wire datagram0)\<rparr>"

theorem pcnet_delivers_datagrams_witness:
  "\<exists>m. mem_bytes m 9 = dg_data datagram0 \<and> rx_index (fst (network_poll pcnet1 (machine 2))) = 1
     \<and> snd (network_poll pcnet1 (machine 2)) = deliver (m, datagram0) (machine 2)"
proof -
  have ok: "rx_index pcnet1 < 32" "length (rx_ring pcnet1) = 32" by (simp_all add: pcnet1_def rx_ring_for_def)
  have ring: "rx_ring pcnet1 ! 0 = \<lparr>d_address = 0, d_status = 0x03000000, d_status2 = 60, d_res = 0\<rparr>"
    "d_status (rx_ring pcnet1 ! 1) = rx_owned"
    by (simp_all add: pcnet1_def rx_ring_for_def)
  have i: "rx_index pcnet1 = 0" by (simp add: pcnet1_def)
  have "slots 32 0 = 0 # 1 # slots 30 2" using slots_Suc [of 0 31] slots_Suc [of 1 30] by (simp add: numeral_2_eq_2)
  then have w: "waiting 32 pcnet1 = [0]" using ring by (simp add: waiting_def i card_owns_def rx_owned_def)
  have "frame_bytes (frame_at pcnet1 0) = on_wire datagram0"
    using ring datagram0_facts(2) by (simp add: frame_bytes_def frame_at_def pcnet1_def)
  then have "map (\<lambda>j. frame_bytes (frame_at pcnet1 j)) (waiting 32 pcnet1) = map on_wire [datagram0]" by (simp add: w)
  note poll = pcnet_delivers_datagrams [OF ok _ this, of "machine 2"]
  have "rx_index (emptied 32 pcnet1) = 1" by (simp add: emptied_def w i)
  then show ?thesis using poll datagram0_facts(1,3) by (auto simp: list_all2_Cons2)
qed

end
