(* ===== verification/Spec2Isabelle.thy ===== *)
theory Spec2Isabelle
  imports CString PMM KHeap VMM Scheduler Arch PCI Crypto IDE RamFS MesaFS NetStack VGA Keyboard Files Nano MBR Services Package NIC ShellErrors Devices Startup Terminal TestApp Reception
begin

text \<open>
  A verification library for MesaOS, a 32-bit hobby kernel in C++ (\<open>src/kernel\<close>). The file names below are
  relative to that directory.

  1. The program and its parts

  \<open>kernel_main\<close> (kernel.cpp) brings the parts up in order: descriptor tables, physical memory manager, kernel heap,
  paging, scheduler, keyboard, timer, \<open>sti\<close>, RAM file system, disk and disk file system, network card, shell. From
  then on the machine is driven by interrupts. A timer interrupt makes \<open>irq_handler\<close> (arch/i386/isr.cpp) switch
  processes; a keyboard interrupt goes through the key tables to the shell, the editor or another installed
  handler and runs whatever command results inside the interrupt; a frame from the card goes through Ethernet and IP
  to the protocols. All output goes to the console, all files go through the dispatch of fs/vfs.cpp to one of two
  back ends, and everything that is allocated comes from the bump allocator or the frame bitmap.

  2. Conventions

  Machine integers are words of their width and wrap. Raw memory is a function from offsets to bytes, and
  multi-byte fields are read and written little-endian (\<open>le16\<close>, \<open>le32\<close> of \<open>Prelude\<close>). A pointer to a node, a process
  or a connection is a list position or an address in an explicit heap, so that aliasing is visible; the null
  pointer is \<open>None\<close> or 0 as in the code. An operation that can leave an array, dereference null, panic or run for
  ever returns an option, and \<open>None\<close> is that outcome; a result code of the source is a value of its own. State is
  a record per component, passed and returned; records of larger parts extend those of the smaller ones
  (\<open>vfs\<close>, \<open>ramfs\<close>, \<open>mesafs\<close>, \<open>fstree\<close>, \<open>desktop\<close>, \<open>system\<close>; \<open>net\<close> up to \<open>ipv6\<close> and the servers).
  Devices are met through their ports only (\<open>Ports\<close>): reads take the next value of a script, writes
  are recorded in order, and a read behind the end of the script gives all ones, as an absent device does.

  3. Theories

  Base. \<open>Prelude\<close>: words, byte order, C memory, counted loops, and the collections \<open>le_simps\<close>, \<open>state_simps\<close> and
  \<open>inv_intros\<close>. \<open>CString\<close>: libc/string.cpp. \<open>Ports\<close>: arch/i386/io_port.hpp.

  Memory. \<open>PMM\<close>: memory/pmm.cpp and the memory part of kernel.cpp. Its locale \<open>frame_allocator\<close> is the contract of an
  allocator (what is handed out was free, nothing else changes, freeing gives it back), interpreted on the
  bitmap. \<open>KHeap\<close>: memory/kheap.cpp. \<open>VMM\<close>: memory/paging.cpp, memory/vmm.cpp and the copy-on-write branch of
  arch/i386/isr.cpp, on a physical memory of words; its lemmas describe a table walk (\<open>translate\<close>) and what
  mapping, cloning, switching and a fault do to it, using the allocator only through its contract.

  Processor and processes. \<open>Arch\<close>: gdt.cpp, idt.cpp, drivers/pit.cpp, drivers/rtc.cpp. \<open>Scheduler\<close>: scheduler.cpp and
  \<open>irq_handler\<close>, with a step relation for its events, reachability, and the chain of process blocks as an
  abstract list. \<open>Exceptions\<close>: \<open>isr_handler\<close>. \<open>PCI\<close>: drivers/pci.cpp with the configuration space as a function of
  the address register.

  Files. \<open>Crypto\<close>: fs/crypto.cpp; the locale \<open>round_cipher\<close> says that rounds with an inverse give a cipher with an
  inverse and is interpreted on the steps of AES. \<open>IDE\<close>: drivers/ide.cpp as a port program, and the disk it
  makes of a drive; locale \<open>block_device\<close>. \<open>VFS\<close>: fs/vfs.cpp; the locale \<open>file_store\<close> is the contract of a back end, a
  file being a byte sequence that writes patch and reads cut out. \<open>RamFS\<close>: fs/ramfs.cpp; \<open>MesaFS\<close>: fs/mesafs.cpp,
  proved over \<open>block_device\<close>; both interpret \<open>file_store\<close>. \<open>Files\<close>: the tree the kernel mounts and paths through it.
  \<open>MBR\<close>: fs/mbr.cpp.

  Network. \<open>NIC\<close>: drivers/rtl8139.cpp and drivers/pcnet.cpp with their receive rings. \<open>Net\<close>: ethernet.cpp, arp.cpp,
  ipv4.cpp, udp.cpp, icmp.cpp, dhcp.cpp under net/. \<open>TCP\<close>: net/tcp.cpp with its step relation; the locale
  \<open>bounded_queue\<close> is the contract of the receive ring. \<open>IPv6\<close>: net/ipv6.cpp. \<open>Firewall\<close>: net/firewall.cpp.
  \<open>NetStack\<close>: the dispatch of received frames, end to end.
  \<open>Reception\<close>: from a card's ring through that dispatch to the protocols. \<open>Services\<close>: net/http.cpp, net/ssh.cpp.
  \<open>Package\<close>: net/package.cpp.

  Console and shell. \<open>VGA\<close>: drivers/vga.cpp. \<open>Keyboard\<close>: drivers/keyboard.cpp. \<open>Nano\<close>: apps/nano.cpp. \<open>Shell\<close>,
  \<open>Commands\<close>, \<open>CommandLine\<close>: shell.cpp, from its output routine to one definition per command, the command chain,
  redirection, pipes, line editing, history and completion. \<open>ShellFacts\<close>, \<open>Redirect\<close>, \<open>ShellErrors\<close>: what it computes,
  redirection down to the blocks of the RAM file system, and where it fails. \<open>Terminal\<close>: keyboard interrupts with
  their effect on console and shell. \<open>TestApp\<close>: apps/test.cpp.

  Devices and start-up. \<open>Devices\<close>: drivers/audio.cpp, drivers/usb.cpp, drivers/wifi.cpp. \<open>Boot\<close>: \<open>kernel_main\<close> step by step
  on one machine state; \<open>BootFacts\<close>: what the steps leave; \<open>Startup\<close>: the sequence as a whole.

  4. What the lemmas show

  Each component has its invariant (\<open>frame_ok\<close>, \<open>kheap_ok\<close>, \<open>sched_ok\<close>, \<open>tcp_reachable\<close> with the ring invariant,
  \<open>vga_ok\<close>, \<open>ram_ok\<close>, \<open>mesa_ok\<close>, \<open>disk_ok\<close>) with a preservation lemma per operation, and its functional behaviour: string
  routines against their text-book functions, allocation and disjointness, address translation under mapping,
  cloning and copy-on-write, round-robin fairness, the bus scan, ciphers and their inverse, reads after writes in
  both file systems, datagrams and DHCP offers end to end, the TCP handshake and the receive queue, the console as
  a paper, the editor as a text, the shell from scan codes to the file that a redirected command wrote, and
  start-up that ends with the shell. Some components do not do what they mean to; then the theorem states
  the behaviour the code has: the standard's key schedule is left at byte 144, transmission stops behind the first
  TCP window, the first firewall rule hides all others, the servers never accept, a package is never installed,
  the second of two pipes sees nothing, the pages of the heap are handed out again.

  5. Bounds, scripts and fuel

  No definition has fuel. Loops of the source that are bounded are structural or have a measure; loops that may
  not end are \<open>partial_function (option)\<close> and \<open>None\<close> if they do not: \<open>dhcp_loop\<close>, \<open>ls_loop\<close>, \<open>tree_loop\<close>, \<open>ps_loop\<close> and
  \<open>match_loop\<close>. Loops that wait for a device consume the input script, which is a measure (\<open>reboot_wait\<close>,
  the waits of the disk driver). What comes from outside arrives by script: \<open>heap_answers\<close> (results of \<open>kmalloc\<close> in TCP, 0
  being the null pointer), \<open>frames\<close> (answers of the frame allocator in the shell, success when it is used up),
  \<open>ctrl_c_in\<close> (polls until Ctrl+C), \<open>arrivals\<close> (segments between the rounds of a download, an unanswered one
  being the empty script). The disk driver transmits 28 bits, so a disk has 2^28 sectors. \<open>stack_room\<close> says how much of
  the overrun in \<open>save_metadata\<close> the stack takes. \<open>good_machine\<close> of \<open>Startup\<close> describes a machine
  with one memory region that holds image, bitmap and heap; start-up takes 99864 bytes of the 4 MiB heap at most,
  so it does not panic.

  6. Not modelled

  Assembly (boot, interrupt stubs, loading of descriptor tables, context restore), the linker script, build scripts and
  the unfinished 64-bit port, which is not compiled. The repository does not contain \<open>Scheduler::remove_process\<close>,
  the kernel panic screen, the log, the login or the signals; where the code calls them they are
  a parameter, an outcome or a recorded event. The processor has no TLB, so invalidation has no counterpart; delay
  loops have no effect. Interrupts that arrive during start-up are not interleaved, nor are timer interrupts with a
  running command. Branches that cannot be reached (the second \<open>lspci\<close> and \<open>ping\<close> of the shell) and handlers that only log
  (TCP and UDP over IPv6) have no definition.
\<close>

end
